(* ===== verification/HafPrelude.thy ===== *)
theory HafPrelude
  imports Main "HOL-Library.Word"
begin

text \<open>
  Shared vocabulary of the development.  It fixes how the C++ integer types, exceptions and the
  two standard-library searches used by several components are represented, and collects the
  generic list lemmas the component theories rely on.

  \<^item> \<open>uint32_t\<close> is \<^typ>\<open>32 word\<close>; \<open>int\<close>, \<open>int32_t\<close> and \<open>int64_t\<close> values are \<^typ>\<open>int\<close>, with
    the implicit conversions of the source written as \<^term>\<open>sint\<close> and \<^term>\<open>word_of_int\<close>.
  \<^item> A function that may throw returns \<open>haf_error + 'a\<close>; every \<open>FC_ASSERT\<close> and \<open>throw\<close> is a branch.
  \<^item> \<open>std::upper_bound\<close> and \<open>std::lower_bound\<close> are the binary search of the standard library
    (\<open>partition_point\<close>); on partitioned ranges they are shown to be a linear prefix scan.
\<close>

named_theorems result_simps "computation rules of the result type"
named_theorems block_order "facts about ranges ordered by block number"

type_synonym u32 = "32 word"
type_synonym u64 = "64 word"

datatype haf_error =
    Assert_failed string
  | Out_of_range
  | Broken_connection
  | Sql_failure string
  | Null_pointer

type_synonym 'a result = "haf_error + 'a"

text \<open>Sequencing of throwing statements: the first error leaves the function.\<close>

fun rbind :: "'e + 'a \<Rightarrow> ('a \<Rightarrow> 'e + 'b) \<Rightarrow> 'e + 'b" where
  "rbind (Inl e) f = Inl e"
| "rbind (Inr x) f = f x"

definition fc_assert :: "bool \<Rightarrow> string \<Rightarrow> unit result" where
  "fc_assert b msg = (if b then Inr () else Inl (Assert_failed msg))"

text \<open>What \<open>join\<close> of a processor throws when its thread ended with an exception: \<open>handle_exception\<close> (\<open>data_processor.cpp\<close>)
  rethrows every exception except that of a cancelled query, after which \<open>join\<close> returns as after a success.\<close>

definition query_cancelled :: haf_error where
  "query_cancelled = Sql_failure ''57014''"

definition thrown_by_join :: "haf_error option \<Rightarrow> haf_error option" where
  "thrown_by_join e = (if e = Some query_cancelled then None else e)"

text \<open>The partition search performed by \<open>std::upper_bound\<close> and \<open>std::lower_bound\<close>: \<open>len\<close> elements
  from \<open>first\<close> on remain, and the predicate is asked about the middle one.\<close>

function partition_search :: "('a \<Rightarrow> bool) \<Rightarrow> 'a list \<Rightarrow> nat \<Rightarrow> nat \<Rightarrow> nat" where
  "partition_search q xs first len =
     (if len = 0 then first
      else let half = len div 2; mid = first + half in
        if q (xs ! mid) then partition_search q xs (mid + 1) (len - half - 1)
        else partition_search q xs first half)"
  by pat_completeness auto
termination
  by (relation "measure (\<lambda>(q, xs, first, len). len)") auto

declare partition_search.simps [simp del]

definition upper_bound :: "('b \<Rightarrow> 'a \<Rightarrow> bool) \<Rightarrow> 'a list \<Rightarrow> 'b \<Rightarrow> nat" where
  "upper_bound cmp xs v = partition_search (\<lambda>x. \<not> cmp v x) xs 0 (length xs)"

definition lower_bound :: "('a \<Rightarrow> 'b \<Rightarrow> bool) \<Rightarrow> 'a list \<Rightarrow> 'b \<Rightarrow> nat" where
  "lower_bound cmp xs v = partition_search (\<lambda>x. cmp x v) xs 0 (length xs)"

definition partitioned :: "('a \<Rightarrow> bool) \<Rightarrow> 'a list \<Rightarrow> bool" where
  "partitioned q xs \<longleftrightarrow> (\<forall>j < length xs. \<forall>i < j. q (xs ! j) \<longrightarrow> q (xs ! i))"

text \<open>\<open>std::ostream\<close> output of a value with \<open>std::setw(n)\<close>: right aligned, padded on the left.\<close>

definition pad_left :: "nat \<Rightarrow> char \<Rightarrow> string \<Rightarrow> string" where
  "pad_left w c s = replicate (w - length s) c @ s"


subsection \<open>Results\<close>

lemma fc_assert_True [simp, result_simps]: "fc_assert True msg = Inr ()"
  by (simp add: fc_assert_def)

lemma fc_assert_False [simp, result_simps]: "fc_assert False msg = Inl (Assert_failed msg)"
  by (simp add: fc_assert_def)

lemma fc_assert_eq_Inr [simp]: "fc_assert b msg = Inr u \<longleftrightarrow> b"
  by (simp add: fc_assert_def)

lemma thrown_by_join_simps [simp]: "thrown_by_join None = None" "thrown_by_join (Some query_cancelled) = None"
  by (simp_all add: thrown_by_join_def)

lemma rbind_eq_Inr_iff:
  "rbind r f = Inr y \<longleftrightarrow> (\<exists>x. r = Inr x \<and> f x = Inr y)"
  by (cases r) auto

lemma rbind_fc_assert [simp, result_simps]:
  "rbind (fc_assert b msg) f = (if b then f () else Inl (Assert_failed msg))"
  by (simp add: fc_assert_def)

lemma rbindE:
  assumes "rbind r f = Inr y"
  obtains x where "r = Inr x" "f x = Inr y"
  using assms by (cases r) auto

lemma rbind_assoc: "rbind (rbind r f) g = rbind r (\<lambda>x. rbind (f x) g)"
  by (cases r) auto

declare rbind.simps [result_simps]


subsection \<open>Binary search is a prefix scan on partitioned ranges\<close>

lemma partitionedD:
  "partitioned q xs \<Longrightarrow> j < length xs \<Longrightarrow> i \<le> j \<Longrightarrow> q (xs ! j) \<Longrightarrow> q (xs ! i)"
  by (metis nat_less_le partitioned_def)

lemma partition_search_bounds:
  assumes "first + len \<le> length xs" "partitioned q xs"
    and "\<forall>i < first. q (xs ! i)" "\<forall>i. first + len \<le> i \<and> i < length xs \<longrightarrow> \<not> q (xs ! i)"
  shows "let r = partition_search q xs first len in
           r \<le> length xs \<and> (\<forall>i < r. q (xs ! i)) \<and> (\<forall>i. r \<le> i \<and> i < length xs \<longrightarrow> \<not> q (xs ! i))"
  using assms
proof (induction q xs first len rule: partition_search.induct)
  case (1 q xs first len)
  show ?case
  proof (cases "len = 0")
    case True
    then show ?thesis using "1.prems" by (simp add: partition_search.simps)
  next
    case False
    define half where "half = len div 2"
    have half: "half < len" using False by (simp add: half_def)
    let ?mid = "first + half"
    have mid: "?mid < length xs" using half "1.prems"(1) by simp
    show ?thesis
    proof (cases "q (xs ! ?mid)")
      case True
      have eq: "partition_search q xs first len = partition_search q xs (?mid + 1) (len - half - 1)"
        using False True by (subst partition_search.simps) (simp add: half_def Let_def)
      have below: "\<forall>i < ?mid + 1. q (xs ! i)"
        using partitionedD[OF "1.prems"(2) mid] True by (metis Suc_eq_plus1 less_Suc_eq_le)
      have len: "?mid + 1 + (len - half - 1) = first + len" using half by simp
      show ?thesis unfolding eq
        by (rule "1.IH"(1)[OF False half_def refl True _ "1.prems"(2) below])
          (use "1.prems"(1,4) len in auto)
    next
      case nq: False
      have eq: "partition_search q xs first len = partition_search q xs first half"
        using False nq by (subst partition_search.simps) (simp add: half_def Let_def)
      have above: "\<forall>i. first + half \<le> i \<and> i < length xs \<longrightarrow> \<not> q (xs ! i)"
        using partitionedD[OF "1.prems"(2)] nq by blast
      show ?thesis unfolding eq
        by (rule "1.IH"(2)[OF False half_def refl nq _ "1.prems"(2) "1.prems"(3) above])
          (use mid in simp)
    qed
  qed
qed

lemma partition_search_takeWhile:
  assumes "partitioned q xs"
  shows "partition_search q xs 0 (length xs) = length (takeWhile q xs)"
proof -
  define r where "r = partition_search q xs 0 (length xs)"
  have r: "r \<le> length xs \<and> (\<forall>i < r. q (xs ! i)) \<and> (\<forall>i. r \<le> i \<and> i < length xs \<longrightarrow> \<not> q (xs ! i))"
    unfolding r_def
    by (rule partition_search_bounds[of 0 "length xs" xs q, unfolded Let_def]) (use assms in auto)
  have "takeWhile q xs = take r xs"
    using r by (intro takeWhile_eq_take_P_nth) simp_all
  then show ?thesis using r unfolding r_def by simp
qed

lemma take_partition_search:
  "partitioned q xs \<Longrightarrow> take (partition_search q xs 0 (length xs)) xs = takeWhile q xs"
  by (simp add: partition_search_takeWhile takeWhile_eq_take[symmetric])

lemma drop_partition_search:
  "partitioned q xs \<Longrightarrow> drop (partition_search q xs 0 (length xs)) xs = dropWhile q xs"
  by (simp add: partition_search_takeWhile dropWhile_eq_drop)

lemma partitioned_sorted_key:
  assumes "sorted (map f xs)" and "\<And>x y. f x \<le> f y \<Longrightarrow> q y \<Longrightarrow> q x"
  shows "partitioned q xs"
  unfolding partitioned_def
proof (intro allI impI)
  fix j i assume "j < length xs" "i < j" "q (xs ! j)"
  then have "f (xs ! i) \<le> f (xs ! j)"
    using sorted_nth_mono[OF assms(1), of i j] by simp
  then show "q (xs ! i)" using assms(2) \<open>q (xs ! j)\<close> by blast
qed

lemma filter_above_sorted_key:
  assumes "\<forall>y \<in> set xs. f x \<le> f y" "\<not> f x \<le> (n :: 'b :: linorder)"
  shows "filter (\<lambda>y. f y \<le> n) xs = []" "filter (\<lambda>y. \<not> f y \<le> n) xs = xs"
  using assms by (auto simp: filter_empty_conv filter_id_conv dest: order_trans)

lemma takeWhile_filter_sorted_key:
  "sorted (map f xs) \<Longrightarrow> takeWhile (\<lambda>x. f x \<le> n) xs = filter (\<lambda>x. f x \<le> n) xs"
  by (induction xs) (auto simp: filter_above_sorted_key)

lemma dropWhile_filter_sorted_key:
  "sorted (map f xs) \<Longrightarrow> dropWhile (\<lambda>x. f x \<le> n) xs = filter (\<lambda>x. \<not> f x \<le> n) xs"
  by (induction xs) (auto simp: filter_above_sorted_key)


subsection \<open>Lists\<close>

lemma length_pad_left: "length (pad_left w c s) = max w (length s)"
  by (simp add: pad_left_def)

lemma sorted_map_filter: "sorted (map f xs) \<Longrightarrow> sorted (map f (filter P xs))"
  by (rule sorted_filter)


subsection \<open>Words\<close>

lemma sint_u32_small:
  "uint (w :: u32) < 2 ^ 31 \<Longrightarrow> sint w = uint w"
  by (simp add: sint_uint signed_take_bit_int_eq_self order_trans[OF _ uint_ge_0])

lemma sint_word_of_int_u32:
  "- (2 ^ 31) \<le> i \<Longrightarrow> i < 2 ^ 31 \<Longrightarrow> sint (word_of_int i :: u32) = i"
  by (simp add: int_word_sint)

lemma unat_u32_less: "unat (w :: u32) < 2 ^ 32"
  by (rule order_less_le_trans[OF unsigned_less]) simp

lemma unat_u64_less: "unat (w :: u64) < 2 ^ 64"
  by (rule order_less_le_trans[OF unsigned_less]) simp

lemma unat_of_nat_u32: "n < 2 ^ 32 \<Longrightarrow> unat (of_nat n :: u32) = n"
  by (simp add: unat_of_nat)

lemma one_le_u32_iff: "(1 :: u32) \<le> w \<longleftrightarrow> w \<noteq> 0"
  by (simp add: not_less[symmetric])

lemma uint_u32_plus_1:
  "uint (w :: u32) < 2 ^ 32 - 1 \<Longrightarrow> uint (w + 1) = uint w + 1"
  by (simp add: uint_word_ariths)

end
