(* ===== verification/Decimal.thy ===== *)
theory Decimal
  imports HafPrelude
begin

text \<open>
  The formatted input and output of the C++ standard library that the sources use: decimal output of
  integers (\<open>operator<<\<close>, \<open>std::to_string\<close>), formatted extraction with \<open>operator>>\<close> of words and
  32-bit integers in the "C" locale, \<open>strtol\<close>, and \<open>boost::split\<close> on one separator.
  The lemmas give the round trips between printing and scanning.
\<close>

named_theorems scan_simps "scanning what was printed"

definition digit_char :: "nat \<Rightarrow> char" where
  "digit_char d = char_of (48 + d)"

definition is_digit :: "char \<Rightarrow> bool" where
  "is_digit c \<longleftrightarrow> 48 \<le> (of_char c :: nat) \<and> (of_char c :: nat) \<le> 57"

definition digit_value :: "char \<Rightarrow> nat" where
  "digit_value c = of_char c - 48"

definition isspace :: "char \<Rightarrow> bool" where
  "isspace c \<longleftrightarrow> c = CHR '' '' \<or> (9 \<le> (of_char c :: nat) \<and> (of_char c :: nat) \<le> 13)"

fun nat_to_string :: "nat \<Rightarrow> string" where
  "nat_to_string n = (if n < 10 then [digit_char n]
                      else nat_to_string (n div 10) @ [digit_char (n mod 10)])"

declare nat_to_string.simps [simp del]

definition int_to_string :: "int \<Rightarrow> string" where
  "int_to_string i = (if i < 0 then CHR ''-'' # nat_to_string (nat (- i)) else nat_to_string (nat i))"

definition digits_to_nat :: "string \<Rightarrow> nat" where
  "digits_to_nat s = foldl (\<lambda>a c. a * 10 + digit_value c) 0 s"

text \<open>\<open>stream >> word\<close>: skips white space, fails on an empty word.\<close>

definition scan_word :: "string \<Rightarrow> (string \<times> string) option" where
  "scan_word s = (let t = dropWhile isspace s; w = takeWhile (\<lambda>c. \<not> isspace c) t in
     if w = [] then None else Some (w, drop (length w) t))"

text \<open>Optional sign followed by the longest run of digits.\<close>

definition scan_sign :: "string \<Rightarrow> bool \<times> string" where
  "scan_sign s = (case s of
     [] \<Rightarrow> (False, [])
   | c # t \<Rightarrow> if c = CHR ''-'' then (True, t) else if c = CHR ''+'' then (False, t) else (False, s))"

definition scan_digits :: "string \<Rightarrow> (bool \<times> string \<times> string)" where
  "scan_digits s = (let (neg, t) = scan_sign (dropWhile isspace s); ds = takeWhile is_digit t in
     (neg, ds, drop (length ds) t))"

text \<open>\<open>stream >> n\<close> for \<open>int32_t\<close>: no digits or a value out of range sets the fail bit.\<close>

definition scan_int32 :: "string \<Rightarrow> (int \<times> string) option" where
  "scan_int32 s = (case scan_digits s of (neg, ds, rest) \<Rightarrow>
     let v = (if neg then - int (digits_to_nat ds) else int (digits_to_nat ds)) in
     if ds = [] \<or> v < - (2 ^ 31) \<or> 2 ^ 31 \<le> v then None else Some (v, rest))"

text \<open>\<open>stream >> n\<close> for \<open>uint32_t\<close>: a negated value wraps, as \<open>strtoul\<close> does.\<close>

definition scan_uint32 :: "string \<Rightarrow> (u32 \<times> string) option" where
  "scan_uint32 s = (case scan_digits s of (neg, ds, rest) \<Rightarrow>
     let v = digits_to_nat ds in
     if ds = [] \<or> 2 ^ 32 \<le> v then None
     else Some (if neg then - of_nat v else of_nat v, rest))"

text \<open>\<open>strtol(s, nullptr, 10)\<close> with a 64-bit \<open>long\<close>.\<close>

definition strtol :: "string \<Rightarrow> int" where
  "strtol s = (case scan_digits s of (neg, ds, rest) \<Rightarrow>
     let v = (if neg then - int (digits_to_nat ds) else int (digits_to_nat ds)) in
     if ds = [] then 0 else max (- (2 ^ 63)) (min (2 ^ 63 - 1) v))"

text \<open>\<open>boost::split(parts, s, boost::is_any_of(c))\<close>: empty parts are kept.\<close>

fun split_on :: "char \<Rightarrow> string \<Rightarrow> string list" where
  "split_on c [] = [[]]"
| "split_on c (x # xs) = (if x = c then [] # split_on c xs
     else case split_on c xs of [] \<Rightarrow> [[x]] | p # ps \<Rightarrow> (x # p) # ps)"


subsection \<open>Digits\<close>

lemma of_char_digit_char [simp]: "d < 10 \<Longrightarrow> (of_char (digit_char d) :: nat) = 48 + d"
  by (simp add: digit_char_def)

lemma is_digit_digit_char [simp]: "d < 10 \<Longrightarrow> is_digit (digit_char d)"
  by (simp add: is_digit_def)

lemma digit_value_digit_char [simp]: "d < 10 \<Longrightarrow> digit_value (digit_char d) = d"
  by (simp add: digit_value_def)

lemma is_digit_not_space: "is_digit c \<Longrightarrow> \<not> isspace c"
  by (auto simp: is_digit_def isspace_def)

lemma is_digit_not_sign: "is_digit c \<Longrightarrow> c \<noteq> CHR ''-'' \<and> c \<noteq> CHR ''+'' \<and> c \<noteq> CHR ''.''"
  by (auto simp: is_digit_def)

lemma nat_to_string_digits [simp]: "\<forall>c \<in> set (nat_to_string n). is_digit c"
proof (induction n rule: nat_to_string.induct)
  case (1 n)
  then show ?case by (subst nat_to_string.simps) auto
qed

lemma nat_to_string_not_Nil [simp]: "nat_to_string n \<noteq> []"
  by (subst nat_to_string.simps) simp

lemma digits_to_nat_snoc: "digits_to_nat (s @ [c]) = digits_to_nat s * 10 + digit_value c"
  by (simp add: digits_to_nat_def)

lemma digits_to_nat_inverse [simp]: "digits_to_nat (nat_to_string n) = n"
proof (induction n rule: nat_to_string.induct)
  case (1 n)
  show ?case
  proof (cases "n < 10")
    case True
    then show ?thesis by (subst nat_to_string.simps) (simp add: digits_to_nat_def)
  next
    case False
    then show ?thesis
      by (subst nat_to_string.simps) (simp add: digits_to_nat_snoc 1)
  qed
qed

lemma length_nat_to_string: "n < 10 ^ k \<Longrightarrow> 0 < k \<Longrightarrow> length (nat_to_string n) \<le> k"
proof (induction n arbitrary: k rule: nat_to_string.induct)
  case (1 n)
  show ?case
  proof (cases "n < 10")
    case True
    then show ?thesis using "1.prems" by (subst nat_to_string.simps) simp
  next
    case False
    then obtain j where k: "k = Suc j" "0 < j"
      using "1.prems" by (cases k; cases "k - 1") auto
    have "n div 10 < 10 ^ j"
      using "1.prems"(1) k by (simp add: less_mult_imp_div_less mult.commute)
    then have "length (nat_to_string (n div 10)) \<le> j"
      using "1.IH"[OF False] k by blast
    then show ?thesis using False k by (subst nat_to_string.simps) simp
  qed
qed


subsection \<open>Scanning printed values\<close>

lemma dropWhile_isspace_replicate [scan_simps]:
  "dropWhile isspace (replicate k (CHR '' '') @ s) = dropWhile isspace s"
  by (induction k) (simp_all add: isspace_def)

lemma scan_digits_nat [scan_simps]:
  assumes "rest = [] \<or> \<not> is_digit (hd rest)"
  shows "scan_digits (replicate k (CHR '' '') @ nat_to_string n @ rest) = (False, nat_to_string n, rest)"
proof -
  obtain c t where ct: "nat_to_string n = c # t" "is_digit c"
    using nat_to_string_digits[of n] by (cases "nat_to_string n") auto
  have "dropWhile isspace (nat_to_string n @ rest) = nat_to_string n @ rest"
    using ct by (simp add: is_digit_not_space)
  moreover have "scan_sign (nat_to_string n @ rest) = (False, nat_to_string n @ rest)"
    using ct is_digit_not_sign[of c] by (simp add: scan_sign_def)
  moreover have "takeWhile is_digit (nat_to_string n @ rest) = nat_to_string n"
    using assms nat_to_string_digits[of n] by (cases rest) (auto simp: takeWhile_append)
  ultimately show ?thesis
    by (simp add: scan_digits_def dropWhile_isspace_replicate)
qed

lemma scan_int32_nat [scan_simps]:
  assumes "rest = [] \<or> \<not> is_digit (hd rest)" "n < 2 ^ 31"
  shows "scan_int32 (replicate k (CHR '' '') @ nat_to_string n @ rest) = Some (int n, rest)"
  using assms by (simp add: scan_int32_def scan_digits_nat)

lemma scan_uint32_nat [scan_simps]:
  assumes "rest = [] \<or> \<not> is_digit (hd rest)" "n < 2 ^ 32"
  shows "scan_uint32 (replicate k (CHR '' '') @ nat_to_string n @ rest) = Some (of_nat n, rest)"
  using assms by (simp add: scan_uint32_def scan_digits_nat)

lemma scan_word_word [scan_simps]:
  assumes "w \<noteq> []" "\<forall>c \<in> set w. \<not> isspace c" "rest = [] \<or> isspace (hd rest)"
  shows "scan_word (w @ rest) = Some (w, rest)"
proof -
  have "dropWhile isspace (w @ rest) = w @ rest" using assms(1,2) by (cases w) auto
  moreover have "takeWhile (\<lambda>c. \<not> isspace c) (w @ rest) = w"
    using assms by (cases rest) (auto simp: takeWhile_append)
  ultimately show ?thesis using assms(1) by (simp add: scan_word_def)
qed

lemma strtol_nat:
  assumes "rest = [] \<or> \<not> is_digit (hd rest)" "n < 2 ^ 63"
  shows "strtol (nat_to_string n @ rest) = int n"
  using assms scan_digits_nat[of rest 0 n] by (simp add: strtol_def)


subsection \<open>Splitting\<close>

lemma split_on_no_sep: "c \<notin> set s \<Longrightarrow> split_on c s = [s]"
  by (induction s) auto

lemma split_on_append: "c \<notin> set s \<Longrightarrow> split_on c (s @ c # t) = s # split_on c t"
  by (induction s) auto

end
