(* ===== verification/Jsonb_Operations.thy ===== *)
theory Jsonb_Operations
  imports Decimal
begin

text \<open>
  Conversion of operations to JSONB and back (\<open>to_jsonb.cpp\<close>, \<open>from_jsonb.cpp\<close>).

  The overloads of \<open>to_jsonb\<close> and \<open>set_member\<close> select the conversion by the C++ type; here a value carries
  its type in its constructor (\<open>val\<close>) and \<open>set_member\<close> is given the type (\<open>ty\<close>).  A struct is the list of the
  members its reflector visits, a \<open>static_variant\<close> the list of its alternatives; an operation is such a variant.
  The overloads for \<open>int8_t\<close> and \<open>int32_t\<close>, which no operation uses, are left out.

  What \<open>to_jsonb\<close> does is the sequence of its calls of \<open>pushJsonbValue\<close>.  What the server makes of them, its
  lookup of keys, its conversion of numbers, the texts of keys, times, assets and hexadecimal data and
  the order of the elements of sets are parameters (\<open>conversions\<close>).
\<close>


subsection \<open>Values\<close>

datatype jsonb =
    J_null
  | J_string string
  | J_numeric string
  | J_bool bool
  | J_array "jsonb list"
  | J_object "(string \<times> jsonb) list"

datatype wjb = WJB_KEY | WJB_VALUE | WJB_ELEM | WJB_BEGIN_ARRAY | WJB_END_ARRAY | WJB_BEGIN_OBJECT | WJB_END_OBJECT

type_synonym push = "wjb \<times> jsonb option"

datatype scalar =
    V_bool bool
  | V_int16 "16 word"
  | V_int64 u64
  | V_uint8 "8 word"
  | V_uint16 "16 word"
  | V_uint32 u32
  | V_uint64 u64
  | V_string string
  | V_fixed_string string
  | V_json_string string
  | V_public_key string
  | V_time_point_sec u32
  | V_bytes string
  | V_fixed_bytes string
  | V_asset u64 u32
  | V_legacy_asset u64 u32
  | V_legacy_hive_asset u64
  | V_tiny_asset u64 u32

datatype val =
    V_scalar scalar
  | V_safe val
  | V_optional "val option"
  | V_pair val val
  | V_vector "val list"
  | V_flat_set "val list"
  | V_flat_set_ex "val list"
  | V_flat_map "(val \<times> val) list"
  | V_struct "(string \<times> val) list"
  | V_variant string val

datatype scalar_ty =
    T_bool | T_int16 | T_int64 | T_uint8 | T_uint16 | T_uint32 | T_uint64
  | T_string | T_fixed_string nat | T_json_string | T_public_key | T_time_point_sec
  | T_bytes | T_fixed_bytes nat
  | T_asset | T_legacy_asset | T_legacy_hive_asset

datatype ty =
    T_scalar scalar_ty
  | T_safe ty
  | T_optional ty
  | T_pair ty ty
  | T_vector ty
  | T_flat_set ty
  | T_flat_set_ex ty
  | T_flat_map ty ty
  | T_struct "(string \<times> ty) list"
  | T_variant "(string \<times> ty) list"

text \<open>A legacy asset of the core symbol has no symbol of its own: \<open>hive_symbol\<close> is the one \<open>to_asset\<close> gives it.
  \<open>from_hex\<close> fills the given buffer.  A fixed string has the capacity of its storage.\<close>

record conversions =
  legacy_enabled :: bool
  max_positive_value :: int
  max_negative_value :: int
  numeric_text :: "string \<Rightarrow> string"
  fc_to_uint64 :: "string \<Rightarrow> u64 result"
  fixed_from_string :: "nat \<Rightarrow> string \<Rightarrow> string result"
  to_hex :: "string \<Rightarrow> string"
  from_hex :: "string \<Rightarrow> string \<Rightarrow> string result"
  key_to_string :: "string \<Rightarrow> string"
  key_from_string :: "string \<Rightarrow> string result"
  time_to_string :: "u32 \<Rightarrow> string"
  time_from_iso_string :: "string \<Rightarrow> u32 result"
  legacy_to_string :: "u64 \<Rightarrow> u32 \<Rightarrow> string"
  legacy_from_string :: "string \<Rightarrow> (u64 \<times> u32) result"
  hive_symbol :: u32
  legacy_hive_from_asset :: "u64 \<Rightarrow> u32 \<Rightarrow> u64 result"
  symbol_decimals :: "u32 \<Rightarrow> 8 word"
  to_nai_string :: "u32 \<Rightarrow> string"
  from_nai_string :: "string \<Rightarrow> 8 word \<Rightarrow> u32 result"
  lexical_string :: "int \<Rightarrow> string"
  lexical_int64 :: "string \<Rightarrow> int result"
  val_less :: "val \<Rightarrow> val \<Rightarrow> bool"
  default_val :: "ty \<Rightarrow> val"
  get_key :: "(string \<times> jsonb) list \<Rightarrow> string \<Rightarrow> jsonb option"
  parse_pushes :: "push list \<Rightarrow> jsonb"


subsection \<open>To JSONB\<close>

definition NUL :: char where
  "NUL = CHR 0x00"

definition pstrdup_truncate_nul :: "string \<Rightarrow> string" where
  "pstrdup_truncate_nul s = takeWhile (\<lambda>c. c \<noteq> NUL) s"

definition push_key_to_jsonb :: "string \<Rightarrow> push" where
  "push_key_to_jsonb key = (WJB_KEY, Some (J_string (pstrdup_truncate_nul key)))"

definition push_string_to_jsonb :: "string \<Rightarrow> wjb \<Rightarrow> push" where
  "push_string_to_jsonb value token = (token, Some (J_string (pstrdup_truncate_nul value)))"

definition push_bool_to_jsonb :: "bool \<Rightarrow> wjb \<Rightarrow> push" where
  "push_bool_to_jsonb value token = (token, Some (J_bool value))"

definition push_numeric_to_jsonb :: "string \<Rightarrow> wjb \<Rightarrow> push" where
  "push_numeric_to_jsonb num token = (token, Some (J_numeric num))"

definition push_uint64_to_jsonb :: "conversions \<Rightarrow> u64 \<Rightarrow> wjb \<Rightarrow> push" where
  "push_uint64_to_jsonb cv value token =
     (if uint value \<le> max_positive_value cv then push_numeric_to_jsonb (int_to_string (uint value)) token
      else push_string_to_jsonb (int_to_string (uint value)) token)"

definition push_int64_to_jsonb :: "conversions \<Rightarrow> u64 \<Rightarrow> wjb \<Rightarrow> push" where
  "push_int64_to_jsonb cv value token =
     (if sint value \<le> max_positive_value cv \<and> max_negative_value cv \<le> sint value
      then push_numeric_to_jsonb (int_to_string (sint value)) token
      else push_string_to_jsonb (int_to_string (sint value)) token)"

definition asset_to_jsonb :: "conversions \<Rightarrow> wjb \<Rightarrow> u64 \<Rightarrow> u32 \<Rightarrow> push list" where
  "asset_to_jsonb cv token amount symbol =
     (if legacy_enabled cv then [push_string_to_jsonb (legacy_to_string cv amount symbol) token]
      else [(WJB_BEGIN_OBJECT, None),
        push_key_to_jsonb ''amount'', push_string_to_jsonb (lexical_string cv (sint amount)) WJB_VALUE,
        push_key_to_jsonb ''precision'', push_numeric_to_jsonb (int_to_string (uint (symbol_decimals cv symbol))) WJB_VALUE,
        push_key_to_jsonb ''nai'', push_string_to_jsonb (to_nai_string cv symbol) WJB_VALUE,
        (WJB_END_OBJECT, None)])"

fun scalar_to_jsonb :: "conversions \<Rightarrow> wjb \<Rightarrow> scalar \<Rightarrow> push list" where
  "scalar_to_jsonb cv token (V_bool b) = [push_bool_to_jsonb b token]"
| "scalar_to_jsonb cv token (V_int16 w) = [push_numeric_to_jsonb (int_to_string (sint w)) token]"
| "scalar_to_jsonb cv token (V_int64 w) = [push_int64_to_jsonb cv w token]"
| "scalar_to_jsonb cv token (V_uint8 w) = [push_numeric_to_jsonb (int_to_string (uint w)) token]"
| "scalar_to_jsonb cv token (V_uint16 w) = [push_numeric_to_jsonb (int_to_string (uint w)) token]"
| "scalar_to_jsonb cv token (V_uint32 w) = [push_numeric_to_jsonb (int_to_string (uint w)) token]"
| "scalar_to_jsonb cv token (V_uint64 w) = [push_uint64_to_jsonb cv w token]"
| "scalar_to_jsonb cv token (V_string s) = [push_string_to_jsonb s token]"
| "scalar_to_jsonb cv token (V_fixed_string s) = [push_string_to_jsonb s token]"
| "scalar_to_jsonb cv token (V_json_string s) = [push_string_to_jsonb s token]"
| "scalar_to_jsonb cv token (V_public_key k) = [push_string_to_jsonb (key_to_string cv k) token]"
| "scalar_to_jsonb cv token (V_time_point_sec t) = [push_string_to_jsonb (time_to_string cv t) token]"
| "scalar_to_jsonb cv token (V_bytes b) = [push_string_to_jsonb (to_hex cv b) token]"
| "scalar_to_jsonb cv token (V_fixed_bytes b) = [push_string_to_jsonb (to_hex cv b) token]"
| "scalar_to_jsonb cv token (V_asset amount symbol) = asset_to_jsonb cv token amount symbol"
| "scalar_to_jsonb cv token (V_legacy_asset amount symbol) = [push_string_to_jsonb (legacy_to_string cv amount symbol) token]"
| "scalar_to_jsonb cv token (V_legacy_hive_asset amount) = asset_to_jsonb cv token amount (hive_symbol cv)"
| "scalar_to_jsonb cv token (V_tiny_asset amount symbol) = asset_to_jsonb cv token amount symbol"

text \<open>The visitors of struct members and of alternatives, given the calls for the values.\<close>

definition struct_to_jsonb :: "(string \<times> push list) list \<Rightarrow> push list" where
  "struct_to_jsonb members = (WJB_BEGIN_OBJECT, None) # concat (map (\<lambda>(name, ps). push_key_to_jsonb name # ps) members) @ [(WJB_END_OBJECT, None)]"

definition static_variant_to_jsonb :: "string \<Rightarrow> push list \<Rightarrow> push list" where
  "static_variant_to_jsonb type_name value_pushes =
     [(WJB_BEGIN_OBJECT, None), push_key_to_jsonb ''type'', push_string_to_jsonb type_name WJB_VALUE, push_key_to_jsonb ''value''] @
     value_pushes @ [(WJB_END_OBJECT, None)]"

fun to_jsonb :: "conversions \<Rightarrow> wjb \<Rightarrow> val \<Rightarrow> push list" where
  "to_jsonb cv token (V_scalar s) = scalar_to_jsonb cv token s"
| "to_jsonb cv token (V_safe v) = to_jsonb cv token v"
| "to_jsonb cv token (V_optional None) = []"
| "to_jsonb cv token (V_optional (Some v)) = to_jsonb cv token v"
| "to_jsonb cv token (V_pair a b) =
     (WJB_BEGIN_ARRAY, None) # to_jsonb cv WJB_ELEM a @ to_jsonb cv WJB_ELEM b @ [(WJB_END_ARRAY, None)]"
| "to_jsonb cv token (V_vector vs) = (WJB_BEGIN_ARRAY, None) # concat (map (to_jsonb cv WJB_ELEM) vs) @ [(WJB_END_ARRAY, None)]"
| "to_jsonb cv token (V_flat_set vs) = (WJB_BEGIN_ARRAY, None) # concat (map (to_jsonb cv WJB_ELEM) vs) @ [(WJB_END_ARRAY, None)]"
| "to_jsonb cv token (V_flat_set_ex vs) = (WJB_BEGIN_ARRAY, None) # concat (map (to_jsonb cv WJB_ELEM) vs) @ [(WJB_END_ARRAY, None)]"
| "to_jsonb cv token (V_flat_map kvs) =
     (WJB_BEGIN_ARRAY, None) #
     concat (map (\<lambda>(k, v). (WJB_BEGIN_ARRAY, None) # to_jsonb cv WJB_ELEM k @ to_jsonb cv WJB_ELEM v @ [(WJB_END_ARRAY, None)]) kvs) @
     [(WJB_END_ARRAY, None)]"
| "to_jsonb cv token (V_struct ms) = struct_to_jsonb (map (\<lambda>(name, v). (name, to_jsonb cv WJB_VALUE v)) ms)"
| "to_jsonb cv token (V_variant name v) = static_variant_to_jsonb name (to_jsonb cv WJB_VALUE v)"

definition operation_to_jsonb_value :: "conversions \<Rightarrow> val \<Rightarrow> jsonb" where
  "operation_to_jsonb_value cv op = parse_pushes cv (to_jsonb cv WJB_VALUE op)"

subsection \<open>From JSONB\<close>

definition json_string :: "jsonb \<Rightarrow> string result" where
  "json_string json = (case json of J_string s \<Rightarrow> Inr s | _ \<Rightarrow> Inl (Assert_failed ''json.type == jbvString''))"

definition json_object :: "jsonb \<Rightarrow> (string \<times> jsonb) list result" where
  "json_object json = (case json of
     J_object kvs \<Rightarrow> Inr kvs
   | J_array _ \<Rightarrow> Inl (Assert_failed ''JsonContainerIsObject(json.val.binary.data)'')
   | _ \<Rightarrow> Inl (Assert_failed ''json.type == jbvBinary''))"

definition json_array :: "jsonb \<Rightarrow> jsonb list result" where
  "json_array json = (case json of
     J_array js \<Rightarrow> Inr js
   | J_object _ \<Rightarrow> Inl (Assert_failed ''JsonContainerIsArray(json.val.binary.data)'')
   | _ \<Rightarrow> Inl (Assert_failed ''json.type == jbvBinary''))"

definition numeric_to_uint64 :: "conversions \<Rightarrow> string \<Rightarrow> u64 result" where
  "numeric_to_uint64 cv num = fc_to_uint64 cv (numeric_text cv num)"

definition json_integer :: "conversions \<Rightarrow> jsonb \<Rightarrow> u64 result" where
  "json_integer cv json = (case json of
     J_numeric num \<Rightarrow> numeric_to_uint64 cv num
   | _ \<Rightarrow> Inl (Assert_failed ''json.type == jbvNumeric''))"

definition json_integer64 :: "conversions \<Rightarrow> jsonb \<Rightarrow> u64 result" where
  "json_integer64 cv json = (case json of
     J_numeric num \<Rightarrow> numeric_to_uint64 cv num
   | J_string s \<Rightarrow> fc_to_uint64 cv s
   | _ \<Rightarrow> Inl (Assert_failed ''Must be numeric or string type''))"

text \<open>\<open>resize\<close> keeps the first elements and appends the given one.\<close>

definition resize :: "nat \<Rightarrow> 'a \<Rightarrow> 'a list \<Rightarrow> 'a list" where
  "resize n x xs = take n xs @ replicate (n - length xs) x"

definition set_bytes :: "conversions \<Rightarrow> string \<Rightarrow> jsonb \<Rightarrow> string result" where
  "set_bytes cv old json =
     rbind (json_string json) (\<lambda>s. from_hex cv s (resize (length s div 2) NUL old))"

definition set_fixed_bytes :: "conversions \<Rightarrow> nat \<Rightarrow> string \<Rightarrow> jsonb \<Rightarrow> string result" where
  "set_fixed_bytes cv n old json =
     rbind (json_string json) (\<lambda>s.
       if s \<noteq> [] then rbind (set_bytes cv [] json) (\<lambda>data.
         let k = min (length data) n in Inr (take k data @ drop k old))
       else Inr (replicate n NUL))"

definition set_legacy_asset :: "conversions \<Rightarrow> jsonb \<Rightarrow> (u64 \<times> u32) result" where
  "set_legacy_asset cv json = rbind (json_string json) (legacy_from_string cv)"

definition json_field :: "conversions \<Rightarrow> (string \<times> jsonb) list \<Rightarrow> string \<Rightarrow> jsonb" where
  "json_field cv kvs name = (case get_key cv kvs name of None \<Rightarrow> J_null | Some j \<Rightarrow> j)"

definition set_asset :: "conversions \<Rightarrow> jsonb \<Rightarrow> (u64 \<times> u32) result" where
  "set_asset cv json =
     (if legacy_enabled cv then set_legacy_asset cv json
      else rbind (json_object json) (\<lambda>kvs.
        rbind (json_string (json_field cv kvs ''amount'')) (\<lambda>amountStr.
        case json_field cv kvs ''precision'' of
          J_numeric num \<Rightarrow>
            rbind (json_string (json_field cv kvs ''nai'')) (\<lambda>naiStr.
            rbind (numeric_to_uint64 cv num) (\<lambda>precision.
            rbind (lexical_int64 cv amountStr) (\<lambda>amountInt.
            rbind (fc_assert (0 \<le> amountInt) ''Asset amount cannot be negative'') (\<lambda>_.
            rbind (from_nai_string cv naiStr (ucast precision)) (\<lambda>symbol.
              Inr (word_of_int amountInt, symbol))))))
        | _ \<Rightarrow> Inl (Assert_failed ''precision.type == jbvNumeric''))))"

text \<open>\<open>insert\<close> of the flat containers: an equivalent element is kept.\<close>

fun flat_insert :: "('a \<Rightarrow> 'a \<Rightarrow> bool) \<Rightarrow> 'a \<Rightarrow> 'a list \<Rightarrow> 'a list" where
  "flat_insert lt x [] = [x]"
| "flat_insert lt x (y # ys) =
     (if lt y x then y # flat_insert lt x ys else if lt x y then x # y # ys else y # ys)"

definition bytes_of :: "val \<Rightarrow> string" where
  "bytes_of v = (case v of V_scalar (V_bytes b) \<Rightarrow> b | V_scalar (V_fixed_bytes b) \<Rightarrow> b | _ \<Rightarrow> [])"

definition elements_of :: "val \<Rightarrow> val list" where
  "elements_of v = (case v of V_vector vs \<Rightarrow> vs | V_flat_set vs \<Rightarrow> vs | V_flat_set_ex vs \<Rightarrow> vs | _ \<Rightarrow> [])"

definition pairs_of :: "val \<Rightarrow> (val \<times> val) list" where
  "pairs_of v = (case v of V_flat_map kvs \<Rightarrow> kvs | _ \<Rightarrow> [])"

definition members_of :: "val \<Rightarrow> (string \<times> val) list" where
  "members_of v = (case v of V_struct ms \<Rightarrow> ms | _ \<Rightarrow> [])"

text \<open>A member gets its new value from its old one, which matters for data of fixed size and for containers.\<close>

fun set_scalar :: "conversions \<Rightarrow> scalar_ty \<Rightarrow> string \<Rightarrow> jsonb \<Rightarrow> scalar result" where
  "set_scalar cv T_bool old json = (case json of J_bool b \<Rightarrow> Inr (V_bool b) | _ \<Rightarrow> Inl (Assert_failed ''json.type == jbvBool''))"
| "set_scalar cv T_int16 old json = rbind (json_integer cv json) (\<lambda>w. Inr (V_int16 (ucast w)))"
| "set_scalar cv T_int64 old json = rbind (json_integer64 cv json) (\<lambda>w. Inr (V_int64 w))"
| "set_scalar cv T_uint8 old json = rbind (json_integer cv json) (\<lambda>w. Inr (V_uint8 (ucast w)))"
| "set_scalar cv T_uint16 old json = rbind (json_integer cv json) (\<lambda>w. Inr (V_uint16 (ucast w)))"
| "set_scalar cv T_uint32 old json = rbind (json_integer cv json) (\<lambda>w. Inr (V_uint32 (ucast w)))"
| "set_scalar cv T_uint64 old json = rbind (json_integer64 cv json) (\<lambda>w. Inr (V_uint64 w))"
| "set_scalar cv T_string old json = rbind (json_string json) (\<lambda>s. Inr (V_string s))"
| "set_scalar cv (T_fixed_string n) old json = rbind (json_string json) (\<lambda>s. rbind (fixed_from_string cv n s) (\<lambda>x. Inr (V_fixed_string x)))"
| "set_scalar cv T_json_string old json = rbind (json_string json) (\<lambda>s. Inr (V_json_string s))"
| "set_scalar cv T_public_key old json = rbind (json_string json) (\<lambda>s. rbind (key_from_string cv s) (\<lambda>k. Inr (V_public_key k)))"
| "set_scalar cv T_time_point_sec old json =
     rbind (json_string json) (\<lambda>s. rbind (time_from_iso_string cv s) (\<lambda>t. Inr (V_time_point_sec t)))"
| "set_scalar cv T_bytes old json = rbind (set_bytes cv old json) (\<lambda>b. Inr (V_bytes b))"
| "set_scalar cv (T_fixed_bytes n) old json = rbind (set_fixed_bytes cv n old json) (\<lambda>b. Inr (V_fixed_bytes b))"
| "set_scalar cv T_asset old json = rbind (set_asset cv json) (\<lambda>(amount, symbol). Inr (V_asset amount symbol))"
| "set_scalar cv T_legacy_asset old json = rbind (set_legacy_asset cv json) (\<lambda>(amount, symbol). Inr (V_legacy_asset amount symbol))"
| "set_scalar cv T_legacy_hive_asset old json =
     rbind (set_asset cv json) (\<lambda>(amount, symbol).
     rbind (legacy_hive_from_asset cv amount symbol) (\<lambda>a. Inr (V_legacy_hive_asset a)))"

text \<open>The loops over the elements of an array and the
  visitors of struct members and alternatives are functions of their own.\<close>

function (sequential) set_member :: "conversions \<Rightarrow> ty \<Rightarrow> val \<Rightarrow> jsonb \<Rightarrow> val result"
  and set_elements :: "conversions \<Rightarrow> ty \<Rightarrow> val list \<Rightarrow> jsonb list \<Rightarrow> val list result"
  and insert_elements :: "conversions \<Rightarrow> bool \<Rightarrow> ty \<Rightarrow> val list \<Rightarrow> jsonb list \<Rightarrow> val list result"
  and insert_pairs :: "conversions \<Rightarrow> ty \<Rightarrow> ty \<Rightarrow> (val \<times> val) list \<Rightarrow> jsonb list \<Rightarrow> (val \<times> val) list result"
  and set_pair :: "conversions \<Rightarrow> ty \<Rightarrow> ty \<Rightarrow> jsonb \<Rightarrow> (val \<times> val) result"
  and fill_members :: "conversions \<Rightarrow> (string \<times> ty) list \<Rightarrow> (string \<times> val) list \<Rightarrow> (string \<times> jsonb) list \<Rightarrow> (string \<times> val) list result"
  and set_alternative :: "conversions \<Rightarrow> (string \<times> ty) list \<Rightarrow> string \<Rightarrow> jsonb \<Rightarrow> val result"
where
  "set_member cv (T_scalar t) old json = rbind (set_scalar cv t (bytes_of old) json) (\<lambda>s. Inr (V_scalar s))"
| "set_member cv (T_safe t) old json = rbind (set_member cv t (default_val cv t) json) (\<lambda>v. Inr (V_safe v))"
| "set_member cv (T_optional t) old json =
     (if json = J_null then Inr (V_optional None)
      else rbind (set_member cv t (default_val cv t) json) (\<lambda>v. Inr (V_optional (Some v))))"
| "set_member cv (T_pair s t) old json = rbind (set_pair cv s t json) (\<lambda>(a, b). Inr (V_pair a b))"
| "set_member cv (T_vector t) old json =
     rbind (json_array json) (\<lambda>js.
     rbind (set_elements cv t (resize (length js) (default_val cv t) (elements_of old)) js) (\<lambda>vs. Inr (V_vector vs)))"
| "set_member cv (T_flat_set t) old json =
     rbind (json_array json) (\<lambda>js. rbind (insert_elements cv False t (elements_of old) js) (\<lambda>vs. Inr (V_flat_set vs)))"
| "set_member cv (T_flat_set_ex t) old json =
     rbind (json_array json) (\<lambda>js. rbind (insert_elements cv True t (elements_of old) js) (\<lambda>vs. Inr (V_flat_set_ex vs)))"
| "set_member cv (T_flat_map s t) old json =
     rbind (json_array json) (\<lambda>js. rbind (insert_pairs cv s t (pairs_of old) js) (\<lambda>kvs. Inr (V_flat_map kvs)))"
| "set_member cv (T_struct ms) old json =
     rbind (json_object json) (\<lambda>kvs. rbind (fill_members cv ms (members_of old) kvs) (\<lambda>vs. Inr (V_struct vs)))"
| "set_member cv (T_variant alts) old json =
     rbind (json_object json) (\<lambda>kvs.
     rbind (json_string (json_field cv kvs ''type'')) (\<lambda>tag.
     rbind (json_object (json_field cv kvs ''value'')) (\<lambda>_.
       set_alternative cv alts tag (json_field cv kvs ''value''))))"
| "set_elements cv t (old # olds) (j # js) =
     rbind (set_member cv t old j) (\<lambda>v. rbind (set_elements cv t olds js) (\<lambda>vs. Inr (v # vs)))"
| "set_elements cv t olds js = Inr []"
| "insert_elements cv ex t acc [] = Inr acc"
| "insert_elements cv ex t acc (j # js) =
     rbind (set_member cv t (default_val cv t) j) (\<lambda>v.
     rbind (fc_assert (\<not> ex \<or> acc = [] \<or> val_less cv (List.last acc) v) ''Items should be unique and sorted'') (\<lambda>_.
       insert_elements cv ex t (flat_insert (val_less cv) v acc) js))"
| "insert_pairs cv s t acc [] = Inr acc"
| "insert_pairs cv s t acc (j # js) =
     rbind (set_pair cv s t j) (\<lambda>kv. insert_pairs cv s t (flat_insert (\<lambda>a b. val_less cv (fst a) (fst b)) kv acc) js)"
| "set_pair cv s t json =
     rbind (json_array json) (\<lambda>js. case js of
       [a, b] \<Rightarrow> rbind (set_member cv s (default_val cv s) a) (\<lambda>x.
         rbind (set_member cv t (default_val cv t) b) (\<lambda>y. Inr (x, y)))
     | _ \<Rightarrow> Inl (Assert_failed ''elementCount == 2''))"
| "fill_members cv ((name, t) # ms) ((n, old) # olds) kvs =
     (case get_key cv kvs name of
        None \<Rightarrow> rbind (fill_members cv ms olds kvs) (\<lambda>vs. Inr ((n, old) # vs))
      | Some j \<Rightarrow> rbind (set_member cv t old j) (\<lambda>v. rbind (fill_members cv ms olds kvs) (\<lambda>vs. Inr ((n, v) # vs))))"
| "fill_members cv ms olds kvs = Inr olds"
| "set_alternative cv [] tag json = Inl (Assert_failed ''Invalid object name'')"
| "set_alternative cv ((name, t) # alts) tag json =
     (if name = tag \<and> tag \<notin> fst ` set alts then rbind (set_member cv t (default_val cv t) json) (\<lambda>v. Inr (V_variant name v))
      else set_alternative cv alts tag json)"
  by pat_completeness auto
termination
  by (relation "measures [case_sum
        (case_sum (\<lambda>(cv, t, old, j). 2 * size t) (case_sum (\<lambda>(cv, t, olds, js). 2 * size t) (\<lambda>(cv, ex, t, acc, js). 2 * size t)))
        (case_sum (case_sum (\<lambda>(cv, s, t, acc, js). 2 * (size s + size t) + 1) (\<lambda>(cv, s, t, j). 2 * (size s + size t) + 1))
          (case_sum (\<lambda>(cv, ms, olds, kvs). 2 * size (T_struct ms) - 1) (\<lambda>(cv, alts, tag, j). 2 * size (T_variant alts) - 1))),
      case_sum
        (case_sum (\<lambda>_. 0) (case_sum (\<lambda>(cv, t, olds, js). length js + 1) (\<lambda>(cv, ex, t, acc, js). length js + 1)))
        (case_sum (case_sum (\<lambda>(cv, s, t, acc, js). length js + 1) (\<lambda>_. 0)) (\<lambda>_. 0))]") auto

definition operation_from_jsonb_value :: "conversions \<Rightarrow> (string \<times> ty) list \<Rightarrow> jsonb \<Rightarrow> val result" where
  "operation_from_jsonb_value cv alts json = set_member cv (T_variant alts) (default_val cv (T_variant alts)) json"

end
