(* ===== verification/Jsonb_Properties.thy ===== *)
theory Jsonb_Properties
  imports Jsonb_Operations
begin

text \<open>
  Properties of the JSONB conversion: what is read from JSONB has the C++ type of the member, and an operation that
  was converted to JSONB is read back unchanged.  The second holds for values without NUL characters and negative
  amounts, if the server and the libraries behave as documented (\<open>lawful\<close>); a sample of such conversions is given.
\<close>


subsection \<open>Types\<close>

definition has_scalar_type :: "scalar \<Rightarrow> scalar_ty \<Rightarrow> bool" where
  "has_scalar_type s t = (case s of
     V_bool _ \<Rightarrow> t = T_bool
   | V_int16 _ \<Rightarrow> t = T_int16
   | V_int64 _ \<Rightarrow> t = T_int64
   | V_uint8 _ \<Rightarrow> t = T_uint8
   | V_uint16 _ \<Rightarrow> t = T_uint16
   | V_uint32 _ \<Rightarrow> t = T_uint32
   | V_uint64 _ \<Rightarrow> t = T_uint64
   | V_string _ \<Rightarrow> t = T_string
   | V_fixed_string x \<Rightarrow> (\<exists>n. t = T_fixed_string n \<and> length x \<le> n)
   | V_json_string _ \<Rightarrow> t = T_json_string
   | V_public_key _ \<Rightarrow> t = T_public_key
   | V_time_point_sec _ \<Rightarrow> t = T_time_point_sec
   | V_bytes _ \<Rightarrow> t = T_bytes
   | V_asset _ _ \<Rightarrow> t = T_asset
   | V_legacy_asset _ _ \<Rightarrow> t = T_legacy_asset
   | V_legacy_hive_asset _ \<Rightarrow> t = T_legacy_hive_asset
   | V_fixed_bytes b \<Rightarrow> t = T_fixed_bytes (length b)
   | V_tiny_asset _ _ \<Rightarrow> False)"

inductive has_type :: "conversions \<Rightarrow> val \<Rightarrow> ty \<Rightarrow> bool" for cv where
  scalar: "has_scalar_type s t \<Longrightarrow> has_type cv (V_scalar s) (T_scalar t)"
| safe: "has_type cv v t \<Longrightarrow> has_type cv (V_safe v) (T_safe t)"
| nothing: "has_type cv (V_optional None) (T_optional t)"
| something: "has_type cv v t \<Longrightarrow> has_type cv (V_optional (Some v)) (T_optional t)"
| pair: "has_type cv a s \<Longrightarrow> has_type cv b t \<Longrightarrow> has_type cv (V_pair a b) (T_pair s t)"
| vector: "(\<And>v. v \<in> set vs \<Longrightarrow> has_type cv v t) \<Longrightarrow> has_type cv (V_vector vs) (T_vector t)"
| flat_set: "(\<And>v. v \<in> set vs \<Longrightarrow> has_type cv v t) \<Longrightarrow> sorted_wrt (val_less cv) vs \<Longrightarrow> has_type cv (V_flat_set vs) (T_flat_set t)"
| flat_set_ex: "(\<And>v. v \<in> set vs \<Longrightarrow> has_type cv v t) \<Longrightarrow> sorted_wrt (val_less cv) vs \<Longrightarrow>
    has_type cv (V_flat_set_ex vs) (T_flat_set_ex t)"
| flat_map: "(\<And>a b. (a, b) \<in> set kvs \<Longrightarrow> has_type cv a s) \<Longrightarrow> (\<And>a b. (a, b) \<in> set kvs \<Longrightarrow> has_type cv b t) \<Longrightarrow>
    sorted_wrt (\<lambda>x y. val_less cv (fst x) (fst y)) kvs \<Longrightarrow> has_type cv (V_flat_map kvs) (T_flat_map s t)"
| struct: "list_all2 (\<lambda>x y. fst x = fst y \<and> has_type cv (snd x) (snd y)) vs ms \<Longrightarrow> has_type cv (V_struct vs) (T_struct ms)"
| variant: "(name, t) \<in> set alts \<Longrightarrow> has_type cv v t \<Longrightarrow> has_type cv (V_variant name v) (T_variant alts)"

inductive_simps has_type_simps:
  "has_type cv v (T_scalar t)" "has_type cv v (T_safe t)" "has_type cv v (T_optional t)" "has_type cv v (T_pair s t)"
  "has_type cv v (T_vector t)" "has_type cv v (T_flat_set t)" "has_type cv v (T_flat_set_ex t)"
  "has_type cv v (T_flat_map s t)" "has_type cv v (T_struct ms)" "has_type cv v (T_variant alts)"

lemma flat_insert_set: "set (flat_insert lt x xs) \<subseteq> insert x (set xs)"
  by (induction xs) auto

lemma flat_insert_sorted:
  assumes "transp lt" "sorted_wrt lt xs"
  shows "sorted_wrt lt (flat_insert lt x xs)"
  using assms(2)
proof (induction xs)
  case (Cons y ys)
  have "\<forall>z \<in> set (flat_insert lt x ys). lt y z" if "lt y x"
    using flat_insert_set[of lt x ys] Cons.prems that by auto
  moreover have "\<forall>z \<in> set ys. lt x z" if "lt x y"
    using Cons.prems that transpD[OF assms(1) that] by simp
  ultimately show ?case using Cons by simp
qed simp

lemma length_resize [simp]: "length (resize n x xs) = n"
  by (simp add: resize_def)

lemma set_resize: "set (resize n x xs) \<subseteq> insert x (set xs)"
  by (auto simp: resize_def dest: in_set_takeD)

text \<open>A \<open>static_variant\<close> has an alternative, and its alternatives have different names.\<close>

fun wf_ty :: "ty \<Rightarrow> bool" where
  "wf_ty (T_scalar _) = True"
| "wf_ty (T_safe t) = wf_ty t"
| "wf_ty (T_optional t) = wf_ty t"
| "wf_ty (T_pair s t) = (wf_ty s \<and> wf_ty t)"
| "wf_ty (T_vector t) = wf_ty t"
| "wf_ty (T_flat_set t) = wf_ty t"
| "wf_ty (T_flat_set_ex t) = wf_ty t"
| "wf_ty (T_flat_map s t) = (wf_ty s \<and> wf_ty t)"
| "wf_ty (T_struct ms) = (\<forall>m \<in> set ms. wf_ty (snd m))"
| "wf_ty (T_variant alts) = (alts \<noteq> [] \<and> distinct (map fst alts) \<and> (\<forall>m \<in> set alts. wf_ty (snd m)))"

text \<open>Default-constructed values have their type, \<open>operator<\<close> is transitive, \<open>from_hex\<close> fills the buffer it is given,
  a fixed string keeps its capacity.\<close>

definition typed_conversions :: "conversions \<Rightarrow> bool" where
  "typed_conversions cv \<longleftrightarrow> (\<forall>t. wf_ty t \<longrightarrow> has_type cv (default_val cv t) t) \<and> transp (val_less cv) \<and>
     (\<forall>s buf b. from_hex cv s buf = Inr b \<longrightarrow> length b = length buf) \<and>
     (\<forall>n s x. fixed_from_string cv n s = Inr x \<longrightarrow> length x \<le> n)"

lemma set_scalar_typed:
  assumes "typed_conversions cv" "set_scalar cv t old json = Inr s" "\<forall>n. t = T_fixed_bytes n \<longrightarrow> length old = n"
  shows "has_scalar_type s t"
  using assms
  by (cases "(cv, t, old, json)" rule: set_scalar.cases)
    (auto simp: rbind_eq_Inr_iff has_scalar_type_def set_fixed_bytes_def Let_def typed_conversions_def split: jsonb.splits if_splits)

lemma default_typed: "typed_conversions cv \<Longrightarrow> wf_ty t \<Longrightarrow> has_type cv (default_val cv t) t"
  by (simp add: typed_conversions_def)

lemma bytes_of_typed: "has_type cv old (T_scalar (T_fixed_bytes n)) \<Longrightarrow> length (bytes_of old) = n"
  unfolding has_type_simps
proof (elim exE conjE)
  fix s assume "old = V_scalar s" "has_scalar_type s (T_fixed_bytes n)"
  then show "length (bytes_of old) = n" by (cases s) (simp_all add: has_scalar_type_def bytes_of_def)
qed

text \<open>The mutual induction over the conversion; the parts besides \<open>set_member\<close> say the same of the loops.\<close>

lemma set_member_typed_aux:
  "typed_conversions cv \<Longrightarrow> wf_ty t \<Longrightarrow> has_type cv old t \<Longrightarrow> set_member cv t old json = Inr v \<Longrightarrow> has_type cv v t"
  "typed_conversions cv \<Longrightarrow> wf_ty t \<Longrightarrow> length olds = length js \<Longrightarrow> (\<forall>x \<in> set olds. has_type cv x t) \<Longrightarrow> set_elements cv t olds js = Inr vs \<Longrightarrow>
     (\<forall>x \<in> set vs. has_type cv x t)"
  "typed_conversions cv \<Longrightarrow> wf_ty t \<Longrightarrow> (\<forall>x \<in> set acc. has_type cv x t) \<Longrightarrow> sorted_wrt (val_less cv) acc \<Longrightarrow>
     insert_elements cv ex t acc js = Inr vs \<Longrightarrow> (\<forall>x \<in> set vs. has_type cv x t) \<and> sorted_wrt (val_less cv) vs"
  "typed_conversions cv \<Longrightarrow> wf_ty s \<and> wf_ty t \<Longrightarrow> (\<forall>x \<in> set pacc. has_type cv (fst x) s \<and> has_type cv (snd x) t) \<Longrightarrow>
     sorted_wrt (\<lambda>x y. val_less cv (fst x) (fst y)) pacc \<Longrightarrow> insert_pairs cv s t pacc js = Inr pvs \<Longrightarrow>
     (\<forall>x \<in> set pvs. has_type cv (fst x) s \<and> has_type cv (snd x) t) \<and> sorted_wrt (\<lambda>x y. val_less cv (fst x) (fst y)) pvs"
  "typed_conversions cv \<Longrightarrow> wf_ty s \<and> wf_ty t \<Longrightarrow> set_pair cv s t json = Inr p \<Longrightarrow> has_type cv (fst p) s \<and> has_type cv (snd p) t"
  "typed_conversions cv \<Longrightarrow> (\<forall>m \<in> set ms. wf_ty (snd m)) \<Longrightarrow> list_all2 (\<lambda>x y. fst x = fst y \<and> has_type cv (snd x) (snd y)) molds ms \<Longrightarrow>
     fill_members cv ms molds kvs = Inr mvs \<Longrightarrow> list_all2 (\<lambda>x y. fst x = fst y \<and> has_type cv (snd x) (snd y)) mvs ms"
  "typed_conversions cv \<Longrightarrow> (\<forall>m \<in> set alts. wf_ty (snd m)) \<Longrightarrow> set_alternative cv alts tag json = Inr v \<Longrightarrow> has_type cv v (T_variant alts)"
proof (induction cv t old json and cv t olds js and cv ex t acc js and cv s t pacc js and cv s t json and cv ms molds kvs
    and cv alts tag json arbitrary: v and vs and vs and pvs and p and mvs and v
    rule: set_member_set_elements_insert_elements_insert_pairs_set_pair_fill_members_set_alternative.induct)
  case (1 cv t old json)
  have "\<forall>n. t = T_fixed_bytes n \<longrightarrow> length (bytes_of old) = n" using bytes_of_typed "1.prems"(3) by blast
  then show ?case
    using set_scalar_typed[OF "1.prems"(1), of t "bytes_of old" json] "1.prems"(4) by (auto simp: rbind_eq_Inr_iff has_type_simps(1))
next
  case (2 cv t old json)
  then show ?case by (auto simp: rbind_eq_Inr_iff default_typed has_type_simps(2))
next
  case (3 cv t old json)
  then show ?case by (auto simp: rbind_eq_Inr_iff default_typed has_type_simps(3) split: if_splits)
next
  case (4 cv s t old json)
  then show ?case by (auto simp: rbind_eq_Inr_iff has_type_simps(4) split: prod.splits)
next
  case (5 cv t old json)
  obtain js vs where js: "json_array json = Inr js"
    "set_elements cv t (resize (length js) (default_val cv t) (elements_of old)) js = Inr vs" "v = V_vector vs"
    using "5.prems"(4) by (auto simp: rbind_eq_Inr_iff)
  have "\<forall>x \<in> set (elements_of old). has_type cv x t" using "5.prems"(3) by (auto simp: has_type_simps(5) elements_of_def)
  moreover have "has_type cv (default_val cv t) t" using default_typed "5.prems"(1,2) by simp
  ultimately have "\<forall>x \<in> set (resize (length js) (default_val cv t) (elements_of old)). has_type cv x t"
    using set_resize[of "length js" "default_val cv t" "elements_of old"] by blast
  from "5.IH"[OF "5.prems"(1) _ _ this js(2)] show ?case using js(3) "5.prems"(2) by (simp add: has_type_simps(5))
next
  case (6 cv t old json)
  then show ?case by (auto simp: rbind_eq_Inr_iff has_type_simps(6) elements_of_def)
next
  case (7 cv t old json)
  then show ?case by (auto simp: rbind_eq_Inr_iff has_type_simps(7) elements_of_def)
next
  case (8 cv s t old json)
  then show ?case by (fastforce simp: rbind_eq_Inr_iff has_type_simps(8) pairs_of_def)
next
  case (9 cv ms old json)
  then show ?case by (auto simp: rbind_eq_Inr_iff has_type_simps(9) members_of_def)
next
  case (10 cv alts old json)
  then show ?case by (auto simp: rbind_eq_Inr_iff)
next
  case (11 cv t old olds j js)
  then show ?case by (auto simp: rbind_eq_Inr_iff)
next
  case (14 cv ex t acc j js)
  obtain v where v: "set_member cv t (default_val cv t) j = Inr v" "insert_elements cv ex t (flat_insert (val_less cv) v acc) js = Inr vs"
    "\<not> ex \<or> acc = [] \<or> val_less cv (List.last acc) v"
    using "14.prems"(5) by (auto simp: rbind_eq_Inr_iff split: if_splits)
  have "has_type cv v t" using "14.IH"(1)[OF "14.prems"(1,2) default_typed[OF "14.prems"(1,2)] v(1)] .
  then have "\<forall>x \<in> set (flat_insert (val_less cv) v acc). has_type cv x t"
    using flat_insert_set[of "val_less cv" v acc] "14.prems"(3) by blast
  moreover have "sorted_wrt (val_less cv) (flat_insert (val_less cv) v acc)"
    using flat_insert_sorted[OF _ "14.prems"(4)] "14.prems"(1) unfolding typed_conversions_def by blast
  ultimately show ?case using "14.IH"(2)[OF "14.prems"(1,2) _ _ v(2)] by simp
next
  case (16 cv s t acc j js)
  let ?lt = "\<lambda>x y. val_less cv (fst x) (fst y)"
  obtain kv where kv: "set_pair cv s t j = Inr kv" "insert_pairs cv s t (flat_insert ?lt kv acc) js = Inr pvs"
    using "16.prems"(5) by (auto simp: rbind_eq_Inr_iff)
  have "has_type cv (fst kv) s \<and> has_type cv (snd kv) t" using "16.IH"(1)[OF "16.prems"(1,2) kv(1)] .
  then have all: "\<forall>x \<in> set (flat_insert ?lt kv acc). has_type cv (fst x) s \<and> has_type cv (snd x) t"
    using flat_insert_set[of ?lt kv acc] "16.prems"(3) by blast
  have "transp ?lt"
    using "16.prems"(1) unfolding typed_conversions_def transp_def by blast
  then have "sorted_wrt ?lt (flat_insert ?lt kv acc)" using "16.prems"(4) by (rule flat_insert_sorted)
  with all show ?case by (rule "16.IH"(2)[OF "16.prems"(1,2) _ _ kv(2)])
next
  case (17 cv s t json)
  obtain js where js: "json_array json = Inr js" using "17.prems"(3) by (auto simp: rbind_eq_Inr_iff)
  with "17.prems"(3) obtain a b where "js = [a, b]" by (cases js rule: remdups_adj.cases) (auto split: list.splits)
  then show ?case using 17 js by (auto simp: rbind_eq_Inr_iff default_typed)
next
  case (18 cv name t ms n old olds kvs)
  then show ?case by (auto simp: rbind_eq_Inr_iff split: option.splits)
next
  case (21 cv name t alts tag json)
  then show ?case by (auto simp: rbind_eq_Inr_iff default_typed has_type_simps(10) split: if_splits)
qed simp_all

subsection \<open>What the server makes of the calls\<close>

text \<open>The value a sequence of calls of \<open>pushJsonbValue\<close> stands for: scalars, arrays of what is pushed as elements,
  objects of the pushed keys with their values.  A key with no value after it is not part of the object.\<close>

definition is_scalar :: "jsonb \<Rightarrow> bool" where
  "is_scalar j = (case j of J_array _ \<Rightarrow> False | J_object _ \<Rightarrow> False | _ \<Rightarrow> True)"

inductive denotes :: "push list \<Rightarrow> wjb \<Rightarrow> jsonb \<Rightarrow> bool"
  and denotes_elems :: "push list \<Rightarrow> jsonb list \<Rightarrow> bool"
  and denotes_members :: "push list \<Rightarrow> (string \<times> jsonb) list \<Rightarrow> bool"
where
  scalar: "is_scalar j \<Longrightarrow> denotes [(token, Some j)] token j"
| array: "denotes_elems ps js \<Longrightarrow> denotes ((WJB_BEGIN_ARRAY, None) # ps @ [(WJB_END_ARRAY, None)]) token (J_array js)"
| object: "denotes_members ps kvs \<Longrightarrow> distinct (map fst kvs) \<Longrightarrow>
    denotes ((WJB_BEGIN_OBJECT, None) # ps @ [(WJB_END_OBJECT, None)]) token (J_object kvs)"
| no_elems: "denotes_elems [] []"
| elem: "denotes ps WJB_ELEM j \<Longrightarrow> denotes_elems qs js \<Longrightarrow> denotes_elems (ps @ qs) (j # js)"
| no_members: "denotes_members [] []"
| member: "denotes ps WJB_VALUE j \<Longrightarrow> denotes_members qs kvs \<Longrightarrow>
    denotes_members ((WJB_KEY, Some (J_string k)) # ps @ qs) ((k, j) # kvs)"
| key_only: "denotes_members qs kvs \<Longrightarrow> denotes_members ((WJB_KEY, Some (J_string k)) # qs) kvs"

lemma denotes_elems_concat:
  "list_all2 (\<lambda>ps j. denotes ps WJB_ELEM j) pss js \<Longrightarrow> denotes_elems (concat pss) js"
  by (induction rule: list_all2_induct) (auto intro: denotes_denotes_elems_denotes_members.intros)


subsection \<open>What is read back\<close>

text \<open>The laws of the conversions: \<open>known\<close> are the symbols of the chain's assets.\<close>

definition lawful :: "conversions \<Rightarrow> (u32 \<Rightarrow> bool) \<Rightarrow> bool" where
  "lawful cv known \<longleftrightarrow>
     (\<forall>ps kvs. denotes ps WJB_VALUE (J_object kvs) \<longrightarrow> parse_pushes cv ps = J_object kvs) \<and>
     (\<forall>kvs k. distinct (map fst kvs) \<longrightarrow> get_key cv kvs k = map_of kvs k) \<and>
     (\<forall>k. - (2 ^ 63) \<le> k \<and> k < 2 ^ 64 \<longrightarrow> numeric_text cv (int_to_string k) = int_to_string k) \<and>
     (\<forall>k. - (2 ^ 63) \<le> k \<and> k < 2 ^ 64 \<longrightarrow> fc_to_uint64 cv (int_to_string k) = Inr (word_of_int k)) \<and>
     (\<forall>n s. length s \<le> n \<longrightarrow> fixed_from_string cv n s = Inr s) \<and>
     (\<forall>b. length (to_hex cv b) = 2 * length b \<and> NUL \<notin> set (to_hex cv b)) \<and>
     (\<forall>b buf. length buf = length b \<longrightarrow> from_hex cv (to_hex cv b) buf = Inr b) \<and>
     (\<forall>k. key_from_string cv (key_to_string cv k) = Inr k \<and> NUL \<notin> set (key_to_string cv k)) \<and>
     (\<forall>t. time_from_iso_string cv (time_to_string cv t) = Inr t \<and> NUL \<notin> set (time_to_string cv t)) \<and>
     (\<forall>k. - (2 ^ 63) \<le> k \<and> k < 2 ^ 63 \<longrightarrow>
        lexical_int64 cv (lexical_string cv k) = Inr k \<and> NUL \<notin> set (lexical_string cv k)) \<and>
     (\<forall>a s. known s \<and> 0 \<le> sint a \<longrightarrow> legacy_from_string cv (legacy_to_string cv a s) = Inr (a, s) \<and>
        NUL \<notin> set (legacy_to_string cv a s)) \<and>
     (\<forall>s. known s \<longrightarrow> from_nai_string cv (to_nai_string cv s) (symbol_decimals cv s) = Inr s \<and> NUL \<notin> set (to_nai_string cv s)) \<and>
     known (hive_symbol cv) \<and> (\<forall>a. legacy_hive_from_asset cv a (hive_symbol cv) = Inr a)"

text \<open>Values that survive: no NUL in strings, no negative amounts, an optional that is not set only as a member of
  a struct, alternatives that are structs.\<close>

definition plain_scalar :: "(u32 \<Rightarrow> bool) \<Rightarrow> scalar \<Rightarrow> bool" where
  "plain_scalar known s = (case s of
     V_string x \<Rightarrow> NUL \<notin> set x
   | V_fixed_string x \<Rightarrow> NUL \<notin> set x
   | V_json_string x \<Rightarrow> NUL \<notin> set x
   | V_asset a symbol \<Rightarrow> known symbol \<and> 0 \<le> sint a
   | V_legacy_asset a symbol \<Rightarrow> known symbol \<and> 0 \<le> sint a
   | V_legacy_hive_asset a \<Rightarrow> 0 \<le> sint a
   | _ \<Rightarrow> True)"

definition is_struct :: "val \<Rightarrow> bool" where
  "is_struct v = (case v of V_struct _ \<Rightarrow> True | _ \<Rightarrow> False)"

fun emits :: "val \<Rightarrow> bool" where
  "emits (V_safe v) = emits v"
| "emits (V_optional None) = False"
| "emits (V_optional (Some v)) = emits v"
| "emits _ = True"

fun plain :: "(u32 \<Rightarrow> bool) \<Rightarrow> val \<Rightarrow> bool" where
  "plain known (V_scalar s) = plain_scalar known s"
| "plain known (V_safe v) = plain known v"
| "plain known (V_optional None) = True"
| "plain known (V_optional (Some v)) = plain known v"
| "plain known (V_pair a b) = (plain known a \<and> plain known b \<and> emits a \<and> emits b)"
| "plain known (V_vector vs) = (\<forall>v \<in> set vs. plain known v \<and> emits v)"
| "plain known (V_flat_set vs) = (\<forall>v \<in> set vs. plain known v \<and> emits v)"
| "plain known (V_flat_set_ex vs) = (\<forall>v \<in> set vs. plain known v \<and> emits v)"
| "plain known (V_flat_map kvs) = (\<forall>x \<in> set kvs. plain known (fst x) \<and> emits (fst x) \<and> plain known (snd x) \<and> emits (snd x))"
| "plain known (V_struct ms) = (distinct (map fst ms) \<and> (\<forall>m \<in> set ms. NUL \<notin> set (fst m) \<and> plain known (snd m) \<and>
     (emits (snd m) \<or> snd m = V_optional None)))"
| "plain known (V_variant name v) = (NUL \<notin> set name \<and> is_struct v \<and> plain known v)"

text \<open>Members before they are set: containers and optionals are empty, data of fixed size has its size.\<close>

inductive fresh :: "ty \<Rightarrow> val \<Rightarrow> bool" where
  scalar: "(\<And>n. t = T_fixed_bytes n \<Longrightarrow> length (bytes_of v) = n) \<Longrightarrow> fresh (T_scalar t) v"
| safe: "fresh (T_safe t) v"
| optional: "fresh (T_optional t) (V_optional None)"
| pair: "fresh (T_pair s t) v"
| vector: "fresh (T_vector t) (V_vector [])"
| flat_set: "fresh (T_flat_set t) (V_flat_set [])"
| flat_set_ex: "fresh (T_flat_set_ex t) (V_flat_set_ex [])"
| flat_map: "fresh (T_flat_map s t) (V_flat_map [])"
| struct: "list_all2 (\<lambda>m x. fst m = fst x \<and> fresh (snd m) (snd x)) ms vs \<Longrightarrow> fresh (T_struct ms) (V_struct vs)"
| variant: "fresh (T_variant alts) v"

inductive_simps fresh_simps:
  "fresh (T_scalar t) v" "fresh (T_optional t) v" "fresh (T_vector t) v" "fresh (T_flat_set t) v" "fresh (T_flat_set_ex t) v"
  "fresh (T_flat_map s t) v" "fresh (T_struct ms) v"

definition fresh_defaults :: "conversions \<Rightarrow> bool" where
  "fresh_defaults cv \<longleftrightarrow> (\<forall>t. fresh t (default_val cv t))"

text \<open>Every JSONB value denoted by the calls is read as the value, whatever fresh member it is read into.\<close>

definition survives :: "conversions \<Rightarrow> ty \<Rightarrow> val \<Rightarrow> jsonb \<Rightarrow> bool" where
  "survives cv t v j \<longleftrightarrow> (\<forall>token. denotes (to_jsonb cv token v) token j) \<and> (\<forall>old. fresh t old \<longrightarrow> set_member cv t old j = Inr v) \<and>
     j \<noteq> J_null \<and> (is_struct v \<longrightarrow> (\<exists>kvs. j = J_object kvs))"

lemma lawful_facts:
  assumes "lawful cv known"
  shows "denotes ps WJB_VALUE (J_object kvs) \<Longrightarrow> parse_pushes cv ps = J_object kvs"
    "distinct (map fst kvs) \<Longrightarrow> get_key cv kvs name = map_of kvs name"
    "- (2 ^ 63) \<le> k \<Longrightarrow> k < 2 ^ 64 \<Longrightarrow> numeric_text cv (int_to_string k) = int_to_string k"
    "- (2 ^ 63) \<le> k \<Longrightarrow> k < 2 ^ 64 \<Longrightarrow> fc_to_uint64 cv (int_to_string k) = Inr (word_of_int k)"
    "length (to_hex cv b) = 2 * length b" "NUL \<notin> set (to_hex cv b)"
    "length buf = length b \<Longrightarrow> from_hex cv (to_hex cv b) buf = Inr b"
    "key_from_string cv (key_to_string cv b) = Inr b" "NUL \<notin> set (key_to_string cv b)"
    "time_from_iso_string cv (time_to_string cv t) = Inr t" "NUL \<notin> set (time_to_string cv t)"
    "- (2 ^ 63) \<le> k \<Longrightarrow> k < 2 ^ 63 \<Longrightarrow> lexical_int64 cv (lexical_string cv k) = Inr k"
    "- (2 ^ 63) \<le> k \<Longrightarrow> k < 2 ^ 63 \<Longrightarrow> NUL \<notin> set (lexical_string cv k)"
    "known s \<Longrightarrow> 0 \<le> sint a \<Longrightarrow> legacy_from_string cv (legacy_to_string cv a s) = Inr (a, s)"
    "known s \<Longrightarrow> 0 \<le> sint a \<Longrightarrow> NUL \<notin> set (legacy_to_string cv a s)"
    "known s \<Longrightarrow> from_nai_string cv (to_nai_string cv s) (symbol_decimals cv s) = Inr s"
    "known s \<Longrightarrow> NUL \<notin> set (to_nai_string cv s)"
    "length s' \<le> n \<Longrightarrow> fixed_from_string cv n s' = Inr s'"
    "known (hive_symbol cv)" "legacy_hive_from_asset cv a (hive_symbol cv) = Inr a"
  using assms unfolding lawful_def by simp_all

lemma truncate_no_nul: "NUL \<notin> set s \<Longrightarrow> pstrdup_truncate_nul s = s"
  by (auto simp: pstrdup_truncate_nul_def takeWhile_eq_all_conv)

lemma is_digit_not_nul: "is_digit c \<Longrightarrow> c \<noteq> NUL"
  by (auto simp: is_digit_def NUL_def)

lemma int_to_string_no_nul: "NUL \<notin> set (int_to_string k)"
proof -
  have "NUL \<notin> set (nat_to_string n)" for n using nat_to_string_digits[of n] is_digit_not_nul by blast
  then show ?thesis by (simp add: int_to_string_def NUL_def char_of_def)
qed

lemma denotes_string:
  "NUL \<notin> set s \<Longrightarrow> denotes [push_string_to_jsonb s token] token (J_string s)"
  by (simp add: push_string_to_jsonb_def truncate_no_nul is_scalar_def denotes_denotes_elems_denotes_members.scalar)

lemma denotes_numeric: "denotes [push_numeric_to_jsonb s token] token (J_numeric s)"
  by (simp add: push_numeric_to_jsonb_def is_scalar_def denotes_denotes_elems_denotes_members.scalar)

lemma denotes_bool: "denotes [push_bool_to_jsonb b token] token (J_bool b)"
  by (simp add: push_bool_to_jsonb_def is_scalar_def denotes_denotes_elems_denotes_members.scalar)

lemma push_key_plain: "NUL \<notin> set k \<Longrightarrow> push_key_to_jsonb k = (WJB_KEY, Some (J_string k))"
  by (simp add: push_key_to_jsonb_def truncate_no_nul)

text \<open>An integer is read modulo the width of the member, and the printed value is in the member's range.\<close>

lemma ucast_ucast_u64: "LENGTH('a :: len) \<le> 64 \<Longrightarrow> ucast (ucast w :: u64) = (w :: 'a word)"
  by (rule bit_word_eqI) (simp add: bit_simps)

lemma json_integer_read:
  assumes "lawful cv known" "- (2 ^ 63) \<le> k" "k < 2 ^ 64"
  shows "json_integer cv (J_numeric (int_to_string k)) = Inr (word_of_int k)"
    "json_integer64 cv (J_numeric (int_to_string k)) = Inr (word_of_int k)"
    "json_integer64 cv (J_string (int_to_string k)) = Inr (word_of_int k)"
  using lawful_facts(3,4)[OF assms(1)] assms(2,3)
  by (simp_all add: json_integer_def json_integer64_def numeric_to_uint64_def)

lemma sint16_range: "- (2 ^ 63) \<le> sint (w :: 16 word)" "sint w < 2 ^ 64"
  using sint_ge[of w] sint_lt[of w] by simp_all

lemma sint64_range: "- (2 ^ 63) \<le> sint (w :: u64)" "sint w < 2 ^ 64"
  using sint_ge[of w] sint_lt[of w] by simp_all

lemma uint_range:
  "LENGTH('a :: len) \<le> 64 \<Longrightarrow> - (2 ^ 63) \<le> uint (w :: 'a word)" "LENGTH('a) \<le> 64 \<Longrightarrow> uint w < 2 ^ 64"
proof -
  show "- (2 ^ 63) \<le> uint w" by (rule order_trans[OF _ uint_ge_0]) simp
  assume "LENGTH('a) \<le> 64"
  then have "(2 :: int) ^ LENGTH('a) \<le> 2 ^ 64" by (rule power_increasing) simp
  then show "uint w < 2 ^ 64" using uint_lt2p[of w] by linarith
qed

lemma ucast_scast_16: "ucast (scast w :: u64) = (w :: 16 word)"
  by (rule bit_word_eqI) (simp add: bit_simps)

lemma survives_scalarI:
  assumes "\<And>token. denotes (scalar_to_jsonb cv token s) token j"
    "\<And>old. (\<And>n. t = T_fixed_bytes n \<Longrightarrow> length old = n) \<Longrightarrow> set_scalar cv t old j = Inr s" "j \<noteq> J_null"
  shows "survives cv (T_scalar t) (V_scalar s) j"
  using assms by (simp add: survives_def is_struct_def fresh_simps(1))

lemma survives_integer:
  assumes "lawful cv known" "s \<in> {V_int16 a, V_uint8 b, V_uint16 c, V_uint32 d}" "has_scalar_type s t"
  shows "\<exists>j. survives cv (T_scalar t) (V_scalar s) j"
proof -
  have "survives cv (T_scalar T_int16) (V_scalar (V_int16 a)) (J_numeric (int_to_string (sint a)))"
    by (rule survives_scalarI) (simp_all add: denotes_numeric json_integer_read[OF assms(1) sint16_range] ucast_scast_16)
  moreover have "survives cv (T_scalar T_uint8) (V_scalar (V_uint8 b)) (J_numeric (int_to_string (uint b)))"
    by (rule survives_scalarI) (simp_all add: denotes_numeric json_integer_read[OF assms(1) uint_range] ucast_ucast_u64)
  moreover have "survives cv (T_scalar T_uint16) (V_scalar (V_uint16 c)) (J_numeric (int_to_string (uint c)))"
    by (rule survives_scalarI) (simp_all add: denotes_numeric json_integer_read[OF assms(1) uint_range] ucast_ucast_u64)
  moreover have "survives cv (T_scalar T_uint32) (V_scalar (V_uint32 d)) (J_numeric (int_to_string (uint d)))"
    by (rule survives_scalarI) (simp_all add: denotes_numeric json_integer_read[OF assms(1) uint_range] ucast_ucast_u64)
  ultimately show ?thesis using assms(2,3) by (auto simp: has_scalar_type_def)
qed

lemma survives_integer64:
  assumes "lawful cv known"
  shows "\<exists>j. survives cv (T_scalar T_int64) (V_scalar (V_int64 w)) j" "\<exists>j. survives cv (T_scalar T_uint64) (V_scalar (V_uint64 w)) j"
proof -
  note r = json_integer_read[OF assms sint64_range[of w]] json_integer_read[OF assms uint_range[of w]] int_to_string_no_nul
  have "survives cv (T_scalar T_int64) (V_scalar (V_int64 w))
      (if sint w \<le> max_positive_value cv \<and> max_negative_value cv \<le> sint w
       then J_numeric (int_to_string (sint w)) else J_string (int_to_string (sint w)))"
    by (rule survives_scalarI) (auto simp: push_int64_to_jsonb_def denotes_numeric denotes_string r)
  then show "\<exists>j. survives cv (T_scalar T_int64) (V_scalar (V_int64 w)) j" ..
  have "survives cv (T_scalar T_uint64) (V_scalar (V_uint64 w))
      (if uint w \<le> max_positive_value cv then J_numeric (int_to_string (uint w)) else J_string (int_to_string (uint w)))"
    by (rule survives_scalarI) (auto simp: push_uint64_to_jsonb_def denotes_numeric denotes_string r)
  then show "\<exists>j. survives cv (T_scalar T_uint64) (V_scalar (V_uint64 w)) j" ..
qed

lemma hex_not_Nil: "lawful cv known \<Longrightarrow> to_hex cv b = [] \<longleftrightarrow> b = []"
  using lawful_facts(5)[of cv known b] by auto

lemma survives_bytes:
  assumes "lawful cv known" "s \<in> {V_bytes b, V_fixed_bytes b}" "has_scalar_type s t"
  shows "\<exists>j. survives cv (T_scalar t) (V_scalar s) j"
proof -
  note l = lawful_facts(5-7)[OF assms(1)]
  have "survives cv (T_scalar T_bytes) (V_scalar (V_bytes b)) (J_string (to_hex cv b))"
    by (rule survives_scalarI) (simp_all add: denotes_string l set_bytes_def json_string_def)
  moreover have "survives cv (T_scalar (T_fixed_bytes (length b))) (V_scalar (V_fixed_bytes b)) (J_string (to_hex cv b))"
    by (rule survives_scalarI)
      (simp_all add: denotes_string l set_fixed_bytes_def set_bytes_def json_string_def hex_not_Nil[OF assms(1)])
  ultimately show ?thesis using assms(2,3) by (auto simp: has_scalar_type_def)
qed

lemma survives_text:
  assumes "lawful cv known" "has_scalar_type s t" "plain_scalar known s"
    "s \<in> {V_bool p, V_string x, V_fixed_string x, V_json_string x, V_public_key x, V_time_point_sec w, V_legacy_asset a symbol}"
  shows "\<exists>j. survives cv (T_scalar t) (V_scalar s) j"
proof -
  note l = lawful_facts(8-11)[OF assms(1)]
  have "survives cv (T_scalar T_bool) (V_scalar (V_bool p)) (J_bool p)"
    by (rule survives_scalarI) (simp_all add: denotes_bool)
  moreover have "survives cv (T_scalar T_string) (V_scalar (V_string x)) (J_string x)" if "NUL \<notin> set x"
    by (rule survives_scalarI) (simp_all add: denotes_string that json_string_def)
  moreover have "\<exists>j. survives cv (T_scalar (T_fixed_string n)) (V_scalar (V_fixed_string x)) j" if "NUL \<notin> set x" "length x \<le> n" for n
    by (rule exI[of _ "J_string x"], rule survives_scalarI)
      (simp_all add: denotes_string that json_string_def lawful_facts(18)[OF assms(1) that(2)])
  moreover have "survives cv (T_scalar T_json_string) (V_scalar (V_json_string x)) (J_string x)" if "NUL \<notin> set x"
    by (rule survives_scalarI) (simp_all add: denotes_string that json_string_def)
  moreover have "survives cv (T_scalar T_public_key) (V_scalar (V_public_key x)) (J_string (key_to_string cv x))"
    by (rule survives_scalarI) (simp_all add: denotes_string l json_string_def)
  moreover have "survives cv (T_scalar T_time_point_sec) (V_scalar (V_time_point_sec w)) (J_string (time_to_string cv w))"
    by (rule survives_scalarI) (simp_all add: denotes_string l json_string_def)
  moreover have "survives cv (T_scalar T_legacy_asset) (V_scalar (V_legacy_asset a symbol)) (J_string (legacy_to_string cv a symbol))"
    if "known symbol" "0 \<le> sint a"
    by (rule survives_scalarI)
      (simp_all add: denotes_string lawful_facts(14,15)[OF assms(1) that] set_legacy_asset_def json_string_def)
  ultimately show ?thesis using assms(2-4) by (auto simp: has_scalar_type_def plain_scalar_def)
qed

lemmas denotes_intros = denotes_denotes_elems_denotes_members.intros

lemma asset_read:
  assumes "lawful cv known" "known symbol" "0 \<le> sint a"
  shows "\<exists>j. (\<forall>token. denotes (asset_to_jsonb cv token a symbol) token j) \<and> set_asset cv j = Inr (a, symbol) \<and> j \<noteq> J_null"
proof (cases "legacy_enabled cv")
  case True
  then show ?thesis
    using lawful_facts(14,15)[OF assms]
    by (intro exI[of _ "J_string (legacy_to_string cv a symbol)"])
      (simp add: asset_to_jsonb_def set_asset_def set_legacy_asset_def json_string_def denotes_string)
next
  case False
  let ?amount = "lexical_string cv (sint a)" and ?precision = "int_to_string (uint (symbol_decimals cv symbol))"
  let ?nai = "to_nai_string cv symbol"
  let ?kvs = "[(''amount'', J_string ?amount), (''precision'', J_numeric ?precision), (''nai'', J_string ?nai)]"
  have range: "- (2 ^ 63) \<le> sint a" "sint a < 2 ^ 63" using sint_lt[of a] assms(3) by simp_all
  note l = lawful_facts(12,13)[OF assms(1) range] lawful_facts(16,17)[OF assms(1,2)]
  have keys: "push_key_to_jsonb ''amount'' = (WJB_KEY, Some (J_string ''amount''))"
    "push_key_to_jsonb ''precision'' = (WJB_KEY, Some (J_string ''precision''))"
    "push_key_to_jsonb ''nai'' = (WJB_KEY, Some (J_string ''nai''))"
    by (simp_all add: push_key_plain NUL_def)
  have "denotes_members ((WJB_KEY, Some (J_string ''amount'')) # [push_string_to_jsonb ?amount WJB_VALUE] @
      (WJB_KEY, Some (J_string ''precision'')) # [push_numeric_to_jsonb ?precision WJB_VALUE] @
      (WJB_KEY, Some (J_string ''nai'')) # [push_string_to_jsonb ?nai WJB_VALUE] @ []) ?kvs"
    by (intro denotes_intros denotes_string denotes_numeric l)
  from object[OF this] have "denotes (asset_to_jsonb cv token a symbol) token (J_object ?kvs)" for token
    using False by (simp add: asset_to_jsonb_def keys)
  moreover have "set_asset cv (J_object ?kvs) = Inr (a, symbol)"
  proof -
    have "json_field cv ?kvs ''amount'' = J_string ?amount" "json_field cv ?kvs ''precision'' = J_numeric ?precision"
      "json_field cv ?kvs ''nai'' = J_string ?nai"
      using lawful_facts(2)[OF assms(1), of ?kvs] by (simp_all add: json_field_def)
    then show ?thesis
      using False assms(3) lawful_facts(3,4)[OF assms(1)] uint_range[of "symbol_decimals cv symbol"] l
      by (simp add: set_asset_def json_object_def json_string_def numeric_to_uint64_def ucast_ucast_u64)
  qed
  ultimately show ?thesis by blast
qed

lemma survives_asset:
  assumes "lawful cv known" "has_scalar_type s t" "plain_scalar known s" "s \<in> {V_asset a symbol, V_legacy_hive_asset a}"
  shows "\<exists>j. survives cv (T_scalar t) (V_scalar s) j"
proof -
  have *: "\<exists>j. survives cv (T_scalar T_asset) (V_scalar (V_asset a symbol)) j" if k: "known symbol" "0 \<le> sint a"
  proof -
    obtain j where "\<forall>token. denotes (asset_to_jsonb cv token a symbol) token j" "set_asset cv j = Inr (a, symbol)" "j \<noteq> J_null"
      using asset_read[OF assms(1) k] by blast
    then have "survives cv (T_scalar T_asset) (V_scalar (V_asset a symbol)) j" by (intro survives_scalarI) simp_all
    then show ?thesis ..
  qed
  have **: "\<exists>j. survives cv (T_scalar T_legacy_hive_asset) (V_scalar (V_legacy_hive_asset a)) j" if k: "0 \<le> sint a"
  proof -
    obtain j where "\<forall>token. denotes (asset_to_jsonb cv token a (hive_symbol cv)) token j" "set_asset cv j = Inr (a, hive_symbol cv)"
      "j \<noteq> J_null" using asset_read[OF assms(1) lawful_facts(19)[OF assms(1)] k] by blast
    then have "survives cv (T_scalar T_legacy_hive_asset) (V_scalar (V_legacy_hive_asset a)) j"
      using lawful_facts(20)[OF assms(1)] by (intro survives_scalarI) simp_all
    then show ?thesis ..
  qed
  from assms(4) consider "s = V_asset a symbol" | "s = V_legacy_hive_asset a" by blast
  then show ?thesis
    by cases (use assms(2,3) * ** in \<open>simp_all add: has_scalar_type_def plain_scalar_def\<close>)
qed

lemma survives_scalar:
  assumes "lawful cv known" "has_scalar_type s t" "plain_scalar known s"
  shows "\<exists>j. survives cv (T_scalar t) (V_scalar s) j"
proof (cases s)
  case (V_int64 w)
  then show ?thesis using survives_integer64(1)[OF assms(1)] assms(2) by (simp add: has_scalar_type_def)
next
  case (V_uint64 w)
  then show ?thesis using survives_integer64(2)[OF assms(1)] assms(2) by (simp add: has_scalar_type_def)
next
  case (V_tiny_asset a b)
  then show ?thesis using assms(2) by (simp add: has_scalar_type_def)
qed (use survives_integer[OF assms(1) _ assms(2)] survives_bytes[OF assms(1) _ assms(2)] survives_text[OF assms] survives_asset[OF assms]
    in blast)+

lemma survivesD:
  assumes "survives cv t v j"
  shows "denotes (to_jsonb cv token v) token j" "fresh t old \<Longrightarrow> set_member cv t old j = Inr v" "j \<noteq> J_null"
    "is_struct v \<Longrightarrow> \<exists>kvs. j = J_object kvs"
  using assms by (simp_all add: survives_def)

lemma survives_list:
  assumes "\<And>v. v \<in> set vs \<Longrightarrow> \<exists>j. survives cv t v j"
  obtains js where "list_all2 (survives cv t) vs js"
  using assms
proof (induction vs arbitrary: thesis)
  case (Cons v vs)
  obtain j where "survives cv t v j" using Cons.prems(2) by auto
  moreover obtain js where "list_all2 (survives cv t) vs js" using Cons by auto
  ultimately show ?case using Cons.prems(1)[of "j # js"] by simp
qed simp

lemma survives_elems:
  "list_all2 (survives cv t) vs js \<Longrightarrow> denotes_elems (concat (map (to_jsonb cv WJB_ELEM) vs)) js"
  by (induction rule: list_all2_induct) (auto intro: denotes_intros survivesD(1))

lemma survives_array:
  assumes "list_all2 (survives cv t) vs js"
  shows "denotes ((WJB_BEGIN_ARRAY, None) # concat (map (to_jsonb cv WJB_ELEM) vs) @ [(WJB_END_ARRAY, None)]) token (J_array js)"
  using survives_elems[OF assms] by (rule denotes_intros)

lemma set_elements_survive:
  assumes "fresh_defaults cv" "list_all2 (survives cv t) vs js"
  shows "set_elements cv t (replicate (length js) (default_val cv t)) js = Inr vs"
  using assms(2)
proof (induction rule: list_all2_induct)
  case (Cons v vs j js)
  then show ?case using survivesD(2)[OF Cons(1)] assms(1) by (simp add: fresh_defaults_def)
qed simp

lemma flat_insert_last: "\<forall>y \<in> set xs. lt y x \<Longrightarrow> flat_insert lt x xs = xs @ [x]"
  by (induction xs) auto

lemma insert_elements_survive:
  assumes "fresh_defaults cv" "list_all2 (survives cv t) vs js"
  shows "sorted_wrt (val_less cv) (acc @ vs) \<Longrightarrow> insert_elements cv ex t acc js = Inr (acc @ vs)"
  using assms(2)
proof (induction arbitrary: acc rule: list_all2_induct)
  case (Cons v vs j js)
  have "\<forall>y \<in> set acc. val_less cv y v" using Cons.prems by (simp add: sorted_wrt_append)
  then have "flat_insert (val_less cv) v acc = acc @ [v]" "acc = [] \<or> val_less cv (List.last acc) v"
    using flat_insert_last by (auto dest: last_in_set)
  then show ?case
    using survivesD(2)[OF Cons(1)] assms(1) Cons.IH[of "acc @ [v]"] Cons.prems by (simp add: fresh_defaults_def)
qed simp

lemma to_jsonb_struct [simp]:
  "struct_to_jsonb (map (\<lambda>(name, v). (name, to_jsonb cv WJB_VALUE v)) ms) =
   (WJB_BEGIN_OBJECT, None) # concat (map (\<lambda>(name, v). push_key_to_jsonb name # to_jsonb cv WJB_VALUE v) ms) @ [(WJB_END_OBJECT, None)]"
  by (induction ms) (auto simp: struct_to_jsonb_def)

lemma denotes_pair:
  assumes "survives cv s a i" "survives cv t b j"
  shows "denotes ((WJB_BEGIN_ARRAY, None) # to_jsonb cv WJB_ELEM a @ to_jsonb cv WJB_ELEM b @ [(WJB_END_ARRAY, None)]) token (J_array [i, j])"
proof -
  have "denotes_elems (to_jsonb cv WJB_ELEM a @ to_jsonb cv WJB_ELEM b @ []) [i, j]"
    using elem[OF survivesD(1)[OF assms(1)] elem[OF survivesD(1)[OF assms(2)] no_elems]] .
  from array[OF this] show ?thesis by simp
qed

lemma set_pair_survive:
  assumes "fresh_defaults cv" "survives cv s a i" "survives cv t b j"
  shows "set_pair cv s t (J_array [i, j]) = Inr (a, b)"
  using survivesD(2)[OF assms(2)] survivesD(2)[OF assms(3)] assms(1) by (simp add: json_array_def fresh_defaults_def)

definition pair_survives :: "conversions \<Rightarrow> ty \<Rightarrow> ty \<Rightarrow> val \<times> val \<Rightarrow> jsonb \<Rightarrow> bool" where
  "pair_survives cv s t p k \<longleftrightarrow> (\<exists>i j. k = J_array [i, j] \<and> survives cv s (fst p) i \<and> survives cv t (snd p) j)"

lemma insert_pairs_survive:
  assumes "fresh_defaults cv" "list_all2 (pair_survives cv s t) kvs js"
  shows "sorted_wrt (\<lambda>x y. val_less cv (fst x) (fst y)) (acc @ kvs) \<Longrightarrow> insert_pairs cv s t acc js = Inr (acc @ kvs)"
  using assms(2)
proof (induction arbitrary: acc rule: list_all2_induct)
  case (Cons p kvs j js)
  let ?lt = "\<lambda>x y. val_less cv (fst x) (fst y)"
  have "set_pair cv s t j = Inr p"
    using Cons(1) set_pair_survive[OF assms(1), of s "fst p" _ t "snd p"] by (auto simp del: set_pair.simps simp: pair_survives_def)
  moreover have "\<forall>y \<in> set acc. ?lt y p" using Cons.prems by (simp add: sorted_wrt_append)
  then have "flat_insert ?lt p acc = acc @ [p]" by (rule flat_insert_last)
  ultimately show ?case using Cons.IH[of "acc @ [p]"] Cons.prems by (simp del: set_pair.simps)
qed simp

lemma survives_flat_map:
  assumes "fresh_defaults cv" "list_all2 (pair_survives cv s t) kvs js" "sorted_wrt (\<lambda>x y. val_less cv (fst x) (fst y)) kvs"
  shows "survives cv (T_flat_map s t) (V_flat_map kvs) (J_array js)"
proof -
  let ?push = "\<lambda>(k, v). (WJB_BEGIN_ARRAY, None) # to_jsonb cv WJB_ELEM k @ to_jsonb cv WJB_ELEM v @ [(WJB_END_ARRAY, None)]"
  have "denotes_elems (concat (map ?push kvs)) js"
    using assms(2)
  proof (induction rule: list_all2_induct)
    case (Cons p kvs j js)
    then have "denotes (?push p) WJB_ELEM j" by (auto simp: pair_survives_def intro: denotes_pair split: prod.splits)
    from elem[OF this Cons(3)] show ?case by simp
  qed (simp add: denotes_intros)
  from array[OF this] have "denotes (to_jsonb cv token (V_flat_map kvs)) token (J_array js)" for token by simp
  then show ?thesis
    using insert_pairs_survive[OF assms(1,2), of "[]"] assms(3)
    by (auto simp: survives_def is_struct_def json_array_def fresh_simps(6) pairs_of_def)
qed

lemma survives_pairs:
  assumes "\<And>p. p \<in> set kvs \<Longrightarrow> \<exists>i. survives cv s (fst p) i" "\<And>p. p \<in> set kvs \<Longrightarrow> \<exists>j. survives cv t (snd p) j"
  obtains js where "list_all2 (pair_survives cv s t) kvs js"
  using assms
proof (induction kvs arbitrary: thesis)
  case (Cons p kvs)
  obtain i j where "pair_survives cv s t p (J_array [i, j])"
    using Cons.prems(2,3)[of p] by (auto simp: pair_survives_def)
  moreover obtain js where "list_all2 (pair_survives cv s t) kvs js" using Cons by auto
  ultimately show ?case using Cons.prems(1)[of "J_array [i, j] # js"] by simp
qed simp

text \<open>Members of structs: one that is not set has no key.\<close>

definition member_survives :: "conversions \<Rightarrow> jsonb option \<Rightarrow> string \<times> ty \<Rightarrow> string \<times> val \<Rightarrow> bool" where
  "member_survives cv found m x \<longleftrightarrow> fst m = fst x \<and> (case found of
     None \<Rightarrow> snd x = V_optional None \<and> (\<exists>t. snd m = T_optional t)
   | Some j \<Rightarrow> survives cv (snd m) (snd x) j)"

lemma fill_members_survive:
  assumes "list_all2 (\<lambda>m x. member_survives cv (get_key cv kvs (fst m)) m x) ms vs"
    "list_all2 (\<lambda>m x. fst m = fst x \<and> fresh (snd m) (snd x)) ms olds"
  shows "fill_members cv ms olds kvs = Inr vs"
  using assms
proof (induction arbitrary: olds rule: list_all2_induct)
  case (Cons m ms x vs)
  obtain old olds' where old: "olds = old # olds'" "fst m = fst old" "fresh (snd m) (snd old)"
    "list_all2 (\<lambda>m x. fst m = fst x \<and> fresh (snd m) (snd x)) ms olds'"
    using Cons.prems by (auto simp: list_all2_Cons1)
  show ?case
  proof (cases "get_key cv kvs (fst m)")
    case None
    then have "snd x = V_optional None" "snd old = V_optional None" "fst x = fst m"
      using Cons(1) old(3) by (auto simp: member_survives_def fresh_simps(2))
    then show ?thesis using Cons.IH[OF old(4)] None old(1,2) by (cases m; cases x; cases old) simp
  next
    case (Some j)
    then have "set_member cv (snd m) (snd old) j = Inr (snd x)" "fst x = fst m"
      using Cons(1) survivesD(2) old(3) by (auto simp: member_survives_def)
    then show ?thesis using Cons.IH[OF old(4)] Some old(1,2) by (cases m; cases x; cases old) simp
  qed
qed simp

lemma denotes_struct_members:
  assumes "list_all2 (\<lambda>m x. fst m = fst x \<and> NUL \<notin> set (fst x) \<and>
      ((\<exists>j. survives cv (snd m) (snd x) j) \<or> snd x = V_optional None \<and> (\<exists>t. snd m = T_optional t))) ms vs"
    "distinct (map fst vs)"
  shows "\<exists>kvs. denotes_members (concat (map (\<lambda>(name, v). push_key_to_jsonb name # to_jsonb cv WJB_VALUE v) vs)) kvs \<and>
    fst ` set kvs \<subseteq> fst ` set vs \<and> distinct (map fst kvs) \<and>
    list_all2 (\<lambda>m x. member_survives cv (map_of kvs (fst m)) m x) ms vs"
  using assms
proof (induction rule: list_all2_induct)
  case Nil
  then show ?case by (intro exI[of _ "[]"]) (simp add: denotes_intros)
next
  case (Cons m ms x vs)
  have no: "fst x \<notin> fst ` set vs" using Cons.prems by (cases x) auto
  obtain kvs where kvs: "denotes_members (concat (map (\<lambda>(name, v). push_key_to_jsonb name # to_jsonb cv WJB_VALUE v) vs)) kvs"
    "fst ` set kvs \<subseteq> fst ` set vs" "distinct (map fst kvs)" "list_all2 (\<lambda>m x. member_survives cv (map_of kvs (fst m)) m x) ms vs"
    using Cons.IH Cons.prems by auto
  obtain a b where x: "x = (a, b)" by (cases x)
  have key: "push_key_to_jsonb a = (WJB_KEY, Some (J_string a))" using Cons(1) x by (simp add: push_key_plain)
  have absent: "map_of kvs (fst x) = None" using no kvs(2) by (auto simp: map_of_eq_None_iff)
  consider j where "survives cv (snd m) (snd x) j" | t where "snd x = V_optional None" "snd m = T_optional t"
    using Cons(1) by blast
  then show ?case
  proof cases
    case 1
    have "list_all2 (\<lambda>m y. member_survives cv (map_of ((fst x, j) # kvs) (fst m)) m y) ms vs"
      by (rule list.rel_mono_strong[OF kvs(4)]) (use no in \<open>auto simp: member_survives_def image_iff\<close>)
    moreover have "member_survives cv (map_of ((fst x, j) # kvs) (fst m)) m x"
      using Cons(1) 1 by (simp add: member_survives_def)
    ultimately show ?thesis
      using denotes_intros(7)[OF survivesD(1)[OF 1] kvs(1)] kvs(2,3) no
      by (intro exI[of _ "(fst x, j) # kvs"]) (auto simp: key x)
  next
    case 2
    then have "member_survives cv (map_of kvs (fst m)) m x" using Cons(1) absent by (simp add: member_survives_def)
    then show ?thesis
      using denotes_intros(8)[OF kvs(1)] kvs(2-4) 2(1) by (intro exI[of _ kvs]) (auto simp: key x)
  qed
qed

lemma set_alternative_found:
  "distinct (map fst alts) \<Longrightarrow> (name, t) \<in> set alts \<Longrightarrow>
   set_alternative cv alts name json = rbind (set_member cv t (default_val cv t) json) (\<lambda>v. Inr (V_variant name v))"
  by (induction alts) force+

lemma survives_variant:
  assumes "lawful cv known" "fresh_defaults cv" "distinct (map fst alts)" "(name, t) \<in> set alts" "NUL \<notin> set name"
    "survives cv t v (J_object kvs)"
  shows "survives cv (T_variant alts) (V_variant name v) (J_object [(''type'', J_string name), (''value'', J_object kvs)])"
proof -
  let ?kvs = "[(''type'', J_string name), (''value'', J_object kvs)]"
  have keys: "push_key_to_jsonb ''type'' = (WJB_KEY, Some (J_string ''type''))"
    "push_key_to_jsonb ''value'' = (WJB_KEY, Some (J_string ''value''))"
    by (simp_all add: push_key_plain NUL_def)
  have "denotes_members ((WJB_KEY, Some (J_string ''type'')) # [push_string_to_jsonb name WJB_VALUE] @
      (WJB_KEY, Some (J_string ''value'')) # to_jsonb cv WJB_VALUE v @ []) ?kvs"
    using member[OF denotes_string[OF assms(5)] member[OF survivesD(1)[OF assms(6)] no_members]] .
  from object[OF this] have "denotes (to_jsonb cv token (V_variant name v)) token (J_object ?kvs)" for token
    by (simp add: keys static_variant_to_jsonb_def)
  moreover have "json_field cv ?kvs ''type'' = J_string name" "json_field cv ?kvs ''value'' = J_object kvs"
    using lawful_facts(2)[OF assms(1), of ?kvs] by (simp_all add: json_field_def)
  moreover have "set_alternative cv alts name (J_object kvs) = Inr (V_variant name v)"
    using set_alternative_found[OF assms(3,4), of cv "J_object kvs"] survivesD(2)[OF assms(6)] assms(2)
    by (simp add: fresh_defaults_def)
  ultimately show ?thesis by (simp add: survives_def is_struct_def json_object_def json_string_def)
qed

lemma survives_typed:
  assumes "lawful cv known" "fresh_defaults cv" "has_type cv v t" "wf_ty t" "plain known v" "emits v"
  shows "\<exists>j. survives cv t v j"
  using assms(3-6)
proof induction
  case (scalar s t)
  then show ?case using survives_scalar[OF assms(1)] by simp
next
  case (safe v t)
  then obtain j where "survives cv t v j" by auto
  then have "survives cv (T_safe t) (V_safe v) j"
    using assms(2) by (simp add: survives_def is_struct_def fresh_defaults_def)
  then show ?case ..
next
  case (something v t)
  then obtain j where "survives cv t v j" by auto
  then have "survives cv (T_optional t) (V_optional (Some v)) j"
    using assms(2) by (simp add: survives_def is_struct_def fresh_defaults_def)
  then show ?case ..
next
  case (pair a s b t)
  then obtain i j where ij: "survives cv s a i" "survives cv t b j" by auto
  then have "survives cv (T_pair s t) (V_pair a b) (J_array [i, j])"
    using denotes_pair[OF ij] set_pair_survive[OF assms(2) ij] by (simp add: survives_def is_struct_def)
  then show ?case ..
next
  case (vector vs t)
  then obtain js where js: "list_all2 (survives cv t) vs js" by (auto elim: survives_list[rotated])
  have "survives cv (T_vector t) (V_vector vs) (J_array js)"
    using survives_array[OF js] set_elements_survive[OF assms(2) js]
    by (auto simp: survives_def is_struct_def json_array_def fresh_simps(3) elements_of_def resize_def)
  then show ?case ..
next
  case (flat_set vs t)
  then obtain js where js: "list_all2 (survives cv t) vs js" by (auto elim: survives_list[rotated])
  have "survives cv (T_flat_set t) (V_flat_set vs) (J_array js)"
    using survives_array[OF js] insert_elements_survive[OF assms(2) js, of "[]"] flat_set.hyps(2)
    by (auto simp: survives_def is_struct_def json_array_def fresh_simps(4) elements_of_def)
  then show ?case ..
next
  case (flat_set_ex vs t)
  then obtain js where js: "list_all2 (survives cv t) vs js" by (auto elim: survives_list[rotated])
  have "survives cv (T_flat_set_ex t) (V_flat_set_ex vs) (J_array js)"
    using survives_array[OF js] insert_elements_survive[OF assms(2) js, of "[]"] flat_set_ex.hyps(2)
    by (auto simp: survives_def is_struct_def json_array_def fresh_simps(5) elements_of_def)
  then show ?case ..
next
  case (flat_map kvs s t)
  have "\<exists>i. survives cv s (fst p) i" "\<exists>j. survives cv t (snd p) j" if "p \<in> set kvs" for p
    using flat_map.IH(1)[of "fst p" "snd p"] flat_map.IH(2)[of "fst p" "snd p"] flat_map.prems that by simp_all
  then obtain js where "list_all2 (pair_survives cv s t) kvs js" using survives_pairs[of kvs cv s t] by blast
  then show ?case using survives_flat_map[OF assms(2)] flat_map.hyps(3) by blast
next
  case (struct vs ms)
  have "list_all2 (\<lambda>m x. fst m = fst x \<and> NUL \<notin> set (fst x) \<and>
      ((\<exists>j. survives cv (snd m) (snd x) j) \<or> snd x = V_optional None \<and> (\<exists>t. snd m = T_optional t))) ms vs"
    unfolding list_all2_conv_all_nth
  proof (intro conjI allI impI)
    show len: "length ms = length vs" using struct.IH by (simp add: list_all2_conv_all_nth)
    fix i assume "i < length ms"
    then have i: "fst (vs ! i) = fst (ms ! i)" "has_type cv (snd (vs ! i)) (snd (ms ! i))"
      "wf_ty (snd (ms ! i)) \<Longrightarrow> plain known (snd (vs ! i)) \<Longrightarrow> emits (snd (vs ! i)) \<Longrightarrow>
        \<exists>j. survives cv (snd (ms ! i)) (snd (vs ! i)) j" "vs ! i \<in> set vs" "ms ! i \<in> set ms"
      using struct.IH len by (auto simp: list_all2_conv_all_nth)
    have p: "wf_ty (snd (ms ! i))" "plain known (snd (vs ! i))" "NUL \<notin> set (fst (vs ! i))"
      "emits (snd (vs ! i)) \<or> snd (vs ! i) = V_optional None"
      using struct.prems i(4,5) by simp_all
    show "fst (ms ! i) = fst (vs ! i)" "NUL \<notin> set (fst (vs ! i))" using i(1) p(3) by simp_all
    have "\<exists>t. snd (ms ! i) = T_optional t" if "snd (vs ! i) = V_optional None"
      using i(2) that by (auto elim: has_type.cases)
    then show "(\<exists>j. survives cv (snd (ms ! i)) (snd (vs ! i)) j) \<or>
        snd (vs ! i) = V_optional None \<and> (\<exists>t. snd (ms ! i) = T_optional t)"
      using i(3)[OF p(1,2)] p(4) by blast
  qed
  from denotes_struct_members[OF this] struct.prems(2) obtain kvs where
    kvs: "denotes_members (concat (map (\<lambda>(name, v). push_key_to_jsonb name # to_jsonb cv WJB_VALUE v) vs)) kvs"
    "distinct (map fst kvs)" "list_all2 (\<lambda>m x. member_survives cv (map_of kvs (fst m)) m x) ms vs" by auto
  have "survives cv (T_struct ms) (V_struct vs) (J_object kvs)"
    using object[OF kvs(1,2)] fill_members_survive[of cv kvs ms vs] kvs(3) lawful_facts(2)[OF assms(1) kvs(2)]
    by (auto simp: survives_def json_object_def fresh_simps(7) members_of_def)
  then show ?case ..
next
  case (variant name t alts v)
  have "emits v" using variant.prems(2) by (cases v) (simp_all add: is_struct_def)
  then obtain j where j: "survives cv t v j" using variant.IH variant.prems variant.hyps(1) by fastforce
  then obtain kvs where "j = J_object kvs" using survivesD(4)[OF j] variant.prems(2) by auto
  then show ?case
    using survives_variant[OF assms(1,2) _ variant.hyps(1)] variant.prems(1,2) j by auto
qed simp

subsection \<open>A sample of the conversions\<close>

text \<open>A stack machine for the calls: the open containers with the pending key of an object.\<close>

datatype frame = Array_frame "jsonb list" | Object_frame "(string \<times> jsonb) list" "string option"

fun add_value :: "jsonb \<Rightarrow> frame list \<times> jsonb option \<Rightarrow> frame list \<times> jsonb option" where
  "add_value j ([], r) = ([], Some j)"
| "add_value j (Array_frame js # fs, r) = (Array_frame (js @ [j]) # fs, r)"
| "add_value j (Object_frame kvs (Some k) # fs, r) = (Object_frame (kvs @ [(k, j)]) None # fs, r)"
| "add_value j (Object_frame kvs None # fs, r) = (Object_frame kvs None # fs, r)"

fun sample_push :: "push \<Rightarrow> frame list \<times> jsonb option \<Rightarrow> frame list \<times> jsonb option" where
  "sample_push (WJB_BEGIN_ARRAY, _) (fs, r) = (Array_frame [] # fs, r)"
| "sample_push (WJB_BEGIN_OBJECT, _) (fs, r) = (Object_frame [] None # fs, r)"
| "sample_push (WJB_END_ARRAY, _) (Array_frame js # fs, r) = add_value (J_array js) (fs, r)"
| "sample_push (WJB_END_OBJECT, _) (Object_frame kvs p # fs, r) = add_value (J_object kvs) (fs, r)"
| "sample_push (WJB_KEY, Some (J_string k)) (Object_frame kvs p # fs, r) = (Object_frame kvs (Some k) # fs, r)"
| "sample_push (token, Some j) st = add_value j st"
| "sample_push _ st = st"

definition sample_parse :: "push list \<Rightarrow> jsonb" where
  "sample_parse ps = (case snd (fold sample_push ps ([], None)) of Some j \<Rightarrow> j | None \<Rightarrow> J_null)"

lemma sample_push_value: "token \<noteq> WJB_KEY \<Longrightarrow> token \<in> {WJB_VALUE, WJB_ELEM} \<Longrightarrow> sample_push (token, Some j) st = add_value j st"
  by (cases st) auto

lemma sample_push_denotes:
  "denotes ps token j \<Longrightarrow> token \<in> {WJB_VALUE, WJB_ELEM} \<Longrightarrow> fold sample_push ps st = add_value j st"
  "denotes_elems ps js \<Longrightarrow> fold sample_push ps (Array_frame bs # fs, r) = (Array_frame (bs @ js) # fs, r)"
  "denotes_members ps kvs \<Longrightarrow> \<exists>q. fold sample_push ps (Object_frame ls p # fs, r) = (Object_frame (ls @ kvs) q # fs, r)"
proof (induction arbitrary: st and bs fs r and ls p fs r rule: denotes_denotes_elems_denotes_members.inducts)
  case (scalar j token)
  then show ?case by (auto simp: sample_push_value)
next
  case (array ps js token)
  then show ?case using array.IH[of "[]"] by (cases st) simp
next
  case (object ps kvs token)
  obtain fs r where st: "st = (fs, r)" by (cases st)
  obtain q where "fold sample_push ps (Object_frame [] None # fs, r) = (Object_frame kvs q # fs, r)"
    using object.IH[of "[]" None fs r] by auto
  then show ?case using st by simp
next
  case (member ps j qs kvs k)
  have "fold sample_push ps (Object_frame ls (Some k) # fs, r) = (Object_frame (ls @ [(k, j)]) None # fs, r)"
    using member.IH(1)[of "(Object_frame ls (Some k) # fs, r)"] by simp
  then show ?case using member.IH(2)[of "ls @ [(k, j)]" None fs r] by simp
qed simp_all

lemma sample_parse_denotes: "denotes ps WJB_VALUE j \<Longrightarrow> sample_parse ps = j"
  using sample_push_denotes(1)[of ps WJB_VALUE j "([], None)"] by (simp add: sample_parse_def)

text \<open>Texts: two letters for a byte, decimal numbers, and numbers separated by a colon.\<close>

definition sample_to_hex :: "string \<Rightarrow> string" where
  "sample_to_hex b = concat (map (\<lambda>c. [char_of (of_char c div 16 + 65 :: nat), char_of (of_char c mod 16 + 65 :: nat)]) b)"

fun sample_from_hex :: "string \<Rightarrow> string" where
  "sample_from_hex (x # y # s) = char_of (((of_char x :: nat) - 65) * 16 + ((of_char y :: nat) - 65)) # sample_from_hex s"
| "sample_from_hex _ = []"

definition string_to_int :: "string \<Rightarrow> int" where
  "string_to_int s = (case s of c # cs \<Rightarrow> if c = CHR ''-'' then - int (digits_to_nat cs) else int (digits_to_nat s) | [] \<Rightarrow> 0)"

definition numbers_to_string :: "int \<Rightarrow> int \<Rightarrow> string" where
  "numbers_to_string a b = int_to_string a @ CHR '':'' # int_to_string b"

definition string_to_numbers :: "string \<Rightarrow> int \<times> int" where
  "string_to_numbers s = (string_to_int (takeWhile (\<lambda>c. c \<noteq> CHR '':'') s), string_to_int (tl (dropWhile (\<lambda>c. c \<noteq> CHR '':'') s)))"

fun sample_default :: "ty \<Rightarrow> val" where
  "sample_default (T_scalar t) = V_scalar (case t of T_bool \<Rightarrow> V_bool False | T_int16 \<Rightarrow> V_int16 0 | T_int64 \<Rightarrow> V_int64 0
     | T_uint8 \<Rightarrow> V_uint8 0 | T_uint16 \<Rightarrow> V_uint16 0 | T_uint32 \<Rightarrow> V_uint32 0 | T_uint64 \<Rightarrow> V_uint64 0 | T_string \<Rightarrow> V_string []
     | T_fixed_string n \<Rightarrow> V_fixed_string [] | T_json_string \<Rightarrow> V_json_string [] | T_public_key \<Rightarrow> V_public_key []
     | T_time_point_sec \<Rightarrow> V_time_point_sec 0 | T_bytes \<Rightarrow> V_bytes [] | T_fixed_bytes n \<Rightarrow> V_fixed_bytes (replicate n NUL)
     | T_asset \<Rightarrow> V_asset 0 0 | T_legacy_asset \<Rightarrow> V_legacy_asset 0 0 | T_legacy_hive_asset \<Rightarrow> V_legacy_hive_asset 0)"
| "sample_default (T_safe t) = V_safe (sample_default t)"
| "sample_default (T_optional t) = V_optional None"
| "sample_default (T_pair s t) = V_pair (sample_default s) (sample_default t)"
| "sample_default (T_vector t) = V_vector []"
| "sample_default (T_flat_set t) = V_flat_set []"
| "sample_default (T_flat_set_ex t) = V_flat_set_ex []"
| "sample_default (T_flat_map s t) = V_flat_map []"
| "sample_default (T_struct ms) = V_struct (map (\<lambda>m. (fst m, sample_default (snd m))) ms)"
| "sample_default (T_variant []) = V_struct []"
| "sample_default (T_variant (m # ms)) = V_variant (fst m) (sample_default (snd m))"

definition sample_less :: "val \<Rightarrow> val \<Rightarrow> bool" where
  "sample_less a b = (case (a, b) of
     (V_scalar (V_fixed_string x), V_scalar (V_fixed_string y)) \<Rightarrow> length x < length y | _ \<Rightarrow> False)"

definition sample_conversions :: conversions where
  "sample_conversions = \<lparr>legacy_enabled = False, max_positive_value = 4294967295, max_negative_value = -4294967295,
     numeric_text = (\<lambda>s. s), fc_to_uint64 = (\<lambda>s. Inr (word_of_int (string_to_int s))), fixed_from_string = (\<lambda>n s. Inr (take n s)),
     to_hex = sample_to_hex, from_hex = (\<lambda>s buf. Inr (take (length buf) (sample_from_hex s @ buf))),
     key_to_string = sample_to_hex, key_from_string = (\<lambda>s. Inr (sample_from_hex s)),
     time_to_string = (\<lambda>t. int_to_string (uint t)), time_from_iso_string = (\<lambda>s. Inr (word_of_int (string_to_int s))),
     legacy_to_string = (\<lambda>a s. numbers_to_string (uint a) (uint s)),
     legacy_from_string = (\<lambda>s. Inr (map_prod word_of_int word_of_int (string_to_numbers s))),
     hive_symbol = 35, legacy_hive_from_asset = (\<lambda>a s. Inr a), symbol_decimals = (\<lambda>s. 3),
     to_nai_string = (\<lambda>s. int_to_string (uint s)), from_nai_string = (\<lambda>s p. Inr (word_of_int (string_to_int s))),
     lexical_string = int_to_string, lexical_int64 = (\<lambda>s. Inr (string_to_int s)), val_less = sample_less,
     default_val = sample_default, get_key = map_of, parse_pushes = sample_parse\<rparr>"

lemma string_to_int_inverse [simp]: "string_to_int (int_to_string k) = k"
proof -
  obtain c cs where c: "nat_to_string (nat k) = c # cs" by (cases "nat_to_string (nat k)") simp_all
  have "is_digit c" using nat_to_string_digits[of "nat k"] c by simp
  then have "c \<noteq> CHR ''-''" using is_digit_not_sign by blast
  moreover have "digits_to_nat (c # cs) = nat k" using digits_to_nat_inverse[of "nat k"] c by simp
  ultimately show ?thesis using c by (simp add: string_to_int_def int_to_string_def)
qed

lemma sample_hex: "sample_from_hex (sample_to_hex b) = b" "length (sample_to_hex b) = 2 * length b" "NUL \<notin> set (sample_to_hex b)"
proof -
  have hi: "((of_char c :: nat) div 16 + 65) mod 256 = of_char c div 16 + 65" for c
  proof -
    have "(of_char c :: nat) div 16 < 16" using nat_of_char_less_256[of c] by (simp add: less_mult_imp_div_less)
    then show ?thesis by (intro mod_less) simp
  qed
  have lo: "((of_char c :: nat) mod 16 + 65) mod 256 = of_char c mod 16 + 65" for c
    using mod_less_divisor[of 16 "of_char c :: nat"] by (intro mod_less) simp
  show "sample_from_hex (sample_to_hex b) = b"
  proof (induction b)
    case (Cons c b)
    then show ?case by (simp add: sample_to_hex_def hi lo)
  qed (simp add: sample_to_hex_def)
  show "length (sample_to_hex b) = 2 * length b" by (induction b) (simp_all add: sample_to_hex_def)
  have "NUL \<noteq> char_of (n + 65 :: nat)" if "(n + 65) mod 256 = n + 65" for n :: nat
  proof
    assume eq: "NUL = char_of (n + 65)"
    have "(of_char NUL :: nat) = (n + 65) mod 256" unfolding eq by (rule of_char_of)
    then show False using that by (simp add: NUL_def)
  qed
  then show "NUL \<notin> set (sample_to_hex b)" using hi lo by (auto simp: sample_to_hex_def)
qed

lemma string_to_numbers_inverse [simp]: "0 \<le> a \<Longrightarrow> string_to_numbers (numbers_to_string a b) = (a, b)"
proof -
  assume a: "0 \<le> a"
  have d: "\<forall>c \<in> set (int_to_string a). c \<noteq> CHR '':''"
    using a nat_to_string_digits[of "nat a"] by (auto simp: int_to_string_def is_digit_def)
  then have "takeWhile (\<lambda>c. c \<noteq> CHR '':'') (int_to_string a @ CHR '':'' # s) = int_to_string a"
    "dropWhile (\<lambda>c. c \<noteq> CHR '':'') (int_to_string a @ CHR '':'' # s) = CHR '':'' # s" for s
    by (auto simp: takeWhile_append dropWhile_append)
  then show ?thesis by (simp add: string_to_numbers_def numbers_to_string_def)
qed

lemma numbers_to_string_no_nul: "NUL \<notin> set (numbers_to_string a b)"
  using int_to_string_no_nul by (simp add: numbers_to_string_def NUL_def)

lemma sample_lawful: "lawful sample_conversions (\<lambda>_. True)"
  unfolding lawful_def
  by (simp add: sample_conversions_def sample_parse_denotes sample_hex int_to_string_no_nul numbers_to_string_no_nul)

lemma sample_default_fresh: "fresh t (sample_default t)"
proof (induction t rule: sample_default.induct)
  case (1 t)
  then show ?case by (cases t) (auto simp: fresh_simps(1) bytes_of_def)
next
  case (9 ms)
  then show ?case by (auto simp: fresh_simps(7) list_all2_conv_all_nth)
qed (auto simp: fresh.intros fresh_simps)

lemma sample_default_typed: "wf_ty t \<Longrightarrow> has_type cv (sample_default t) t"
proof (induction t rule: sample_default.induct)
  case (1 t)
  then show ?case by (cases t) (simp_all add: has_type_simps(1) has_scalar_type_def)
next
  case (9 ms)
  then show ?case by (auto simp: has_type_simps(9) list_all2_conv_all_nth)
next
  case (11 m ms)
  then show ?case by (cases m) (auto simp: has_type_simps(10))
qed (auto simp: has_type_simps)

lemma sample_typed: "typed_conversions sample_conversions" "fresh_defaults sample_conversions"
proof -
  have "transp sample_less"
    by (rule transpI) (auto simp: sample_less_def split: prod.splits val.splits scalar.splits)
  then show "typed_conversions sample_conversions"
    by (auto simp: typed_conversions_def sample_default_typed sample_conversions_def)
  show "fresh_defaults sample_conversions" by (simp add: fresh_defaults_def sample_default_fresh sample_conversions_def)
qed

subsection \<open>Properties\<close>

text \<open>C8: Round trip.  An operation converted to JSONB is read back unchanged: every operation of the type the alternatives
  describe, with whatever members, whose strings have no NUL character and whose amounts are not negative, and in
  legacy serialization as well as in the other.\<close>

theorem operation_survives_jsonb:
  assumes "lawful cv known" "fresh_defaults cv" "wf_ty (T_variant alts)" "has_type cv op (T_variant alts)" "plain known op"
  shows "operation_from_jsonb_value cv alts (operation_to_jsonb_value cv op) = Inr op"
proof -
  obtain name t v where op: "op = V_variant name v" "(name, t) \<in> set alts" "has_type cv v t"
    using assms(4) by (auto simp: has_type_simps(10))
  have v: "NUL \<notin> set name" "is_struct v" "plain known v" "wf_ty t" "distinct (map fst alts)" "emits v"
    using assms(3,5) op(1,2) by (auto simp: is_struct_def split: val.splits)
  obtain j where "survives cv t v j" using survives_typed[OF assms(1,2) op(3) v(4,3,6)] by blast
  moreover then obtain kvs where "j = J_object kvs" using survivesD(4)[OF _ v(2)] by blast
  ultimately have s: "survives cv (T_variant alts) op (J_object [(''type'', J_string name), (''value'', J_object kvs)])"
    using survives_variant[OF assms(1,2) v(5) op(2) v(1)] op(1) by blast
  have "operation_to_jsonb_value cv op = J_object [(''type'', J_string name), (''value'', J_object kvs)]"
    using lawful_facts(1)[OF assms(1) survivesD(1)[OF s]] by (simp add: operation_to_jsonb_value_def)
  then show ?thesis
    using survivesD(2)[OF s fresh.variant] by (simp add: operation_from_jsonb_value_def)
qed

text \<open>C9: Type safety.  Whatever JSONB document an operation is read from, if reading succeeds the result has
  the type of the operations: every member has its declared type, data of fixed size its size, and sets and maps
  are sorted.\<close>

theorem read_operation_is_typed:
  assumes "typed_conversions cv" "wf_ty (T_variant alts)" "operation_from_jsonb_value cv alts json = Inr op"
  shows "has_type cv op (T_variant alts)"
  using set_member_typed_aux(1)[OF assms(1,2) default_typed[OF assms(1,2)]] assms(3) by (simp add: operation_from_jsonb_value_def)

definition sample_alternatives :: "(string \<times> ty) list" where
  "sample_alternatives = [(''vote_operation'', T_struct [(''voter'', T_scalar (T_fixed_string 16)), (''weight'', T_scalar T_int16),
     (''memo'', T_optional (T_scalar T_string)), (''tags'', T_flat_set (T_scalar (T_fixed_string 16)))])]"

definition sample_vote :: val where
  "sample_vote = V_variant ''vote_operation'' (V_struct [(''voter'', V_scalar (V_fixed_string ''alice'')),
     (''weight'', V_scalar (V_int16 (- 100))), (''memo'', V_optional None),
     (''tags'', V_flat_set [V_scalar (V_fixed_string ''a''), V_scalar (V_fixed_string ''bc'')])])"

lemma sample_vote_typed: "has_type sample_conversions sample_vote (T_variant sample_alternatives)"
  "wf_ty (T_variant sample_alternatives)" "plain (\<lambda>_. True) sample_vote"
  by (auto simp: sample_vote_def sample_alternatives_def has_type_simps has_scalar_type_def sample_conversions_def sample_less_def
      plain_scalar_def is_struct_def NUL_def)

theorem operation_survives_jsonb_witness:
  "operation_from_jsonb_value sample_conversions sample_alternatives (operation_to_jsonb_value sample_conversions sample_vote)
     = Inr sample_vote"
  by (rule operation_survives_jsonb[OF sample_lawful sample_typed(2) sample_vote_typed(2,1,3)])

theorem read_operation_is_typed_witness:
  "\<exists>op. operation_from_jsonb_value sample_conversions sample_alternatives
      (J_object [(''type'', J_string ''vote_operation''), (''value'', J_object [(''weight'', J_numeric ''70000'')])]) = Inr op
    \<and> has_type sample_conversions op (T_variant sample_alternatives)"
proof -
  let ?json = "J_object [(''type'', J_string ''vote_operation''), (''value'', J_object [(''weight'', J_numeric ''70000'')])]"
  have "\<exists>op. operation_from_jsonb_value sample_conversions sample_alternatives ?json = Inr op"
    by (simp add: operation_from_jsonb_value_def sample_conversions_def sample_alternatives_def json_object_def json_string_def
        json_field_def members_of_def bytes_of_def json_integer_def numeric_to_uint64_def)
  then show ?thesis using read_operation_is_typed[OF sample_typed(1) sample_vote_typed(2)] by blast
qed

end
