(* ===== verification/Utf8.thy ===== *)
theory Utf8
  imports Decimal
begin

text \<open>
  The UTF-8 encoding of Unicode scalar values, as the standard defines it, with a decoder that inverts it.  The texts the
  sources handle are lists of bytes; this theory says which characters such a text holds.
\<close>

definition scalar_value :: "nat \<Rightarrow> bool" where
  "scalar_value c \<longleftrightarrow> c < 0x110000 \<and> \<not> (0xD800 \<le> c \<and> c < 0xE000)"

definition utf8 :: "nat \<Rightarrow> string" where
  "utf8 c = map char_of
     (if c < 0x80 then [c]
      else if c < 0x800 then [0xC0 + c div 64, 0x80 + c mod 64]
      else if c < 0x10000 then [0xE0 + c div 4096, 0x80 + c div 64 mod 64, 0x80 + c mod 64]
      else [0xF0 + c div 262144, 0x80 + c div 4096 mod 64, 0x80 + c div 64 mod 64, 0x80 + c mod 64])"

definition utf8_text :: "nat list \<Rightarrow> string" where
  "utf8_text cs = concat (map utf8 cs)"

text \<open>The decoder: the length of the sequence is in its first byte.\<close>

fun decode_utf8 :: "string \<Rightarrow> nat list" where
  "decode_utf8 [] = []"
| "decode_utf8 (a # s) =
     (let b = of_char a :: nat in
      if b < 0x80 then b # decode_utf8 s
      else case s of
        [] \<Rightarrow> []
      | a2 # s2 \<Rightarrow>
          if b < 0xE0 then ((b - 0xC0) * 64 + (of_char a2 - 0x80)) # decode_utf8 s2
          else case s2 of
            [] \<Rightarrow> []
          | a3 # s3 \<Rightarrow>
              if b < 0xF0 then ((b - 0xE0) * 4096 + (of_char a2 - 0x80) * 64 + (of_char a3 - 0x80)) # decode_utf8 s3
              else case s3 of
                [] \<Rightarrow> []
              | a4 # s4 \<Rightarrow> ((b - 0xF0) * 262144 + (of_char a2 - 0x80) * 4096 + (of_char a3 - 0x80) * 64 + (of_char a4 - 0x80)) # decode_utf8 s4)"

declare decode_utf8.simps(2) [simp del]

lemma utf8_text_simps [simp]: "utf8_text [] = []" "utf8_text (c # cs) = utf8 c @ utf8_text cs" "utf8_text (cs @ ds) = utf8_text cs @ utf8_text ds"
  by (auto simp: utf8_text_def)

lemma utf8_ascii: "c < 0x80 \<Longrightarrow> utf8 c = [char_of c]"
  by (simp add: utf8_def)

lemma of_char_small [simp]: "n < 256 \<Longrightarrow> of_char (char_of n) = (n :: nat)"
  by (simp add: of_char_mod_256)

text \<open>The groups of six bits.\<close>

lemma six_bits:
  obtains p r where "c = p * 64 + r" "r < (64 :: nat)" "c div 64 = p" "c mod 64 = r"
  using that[of "c div 64" "c mod 64"] by simp

lemma div_groups: "(c :: nat) div 4096 = c div 64 div 64" "c div 262144 = c div 64 div 64 div 64"
  using div_mult2_eq[of c 64 64] div_mult2_eq[of c 4096 64] by simp_all

lemma decode_utf8_step:
  assumes "scalar_value c"
  shows "decode_utf8 (utf8 c @ s) = c # decode_utf8 s"
proof -
  obtain p r where c: "c = p * 64 + r" "r < 64" "c div 64 = p" "c mod 64 = r" by (rule six_bits)
  obtain k q where p: "p = k * 64 + q" "q < 64" "p div 64 = k" "p mod 64 = q" by (rule six_bits)
  obtain n m where k: "k = n * 64 + m" "m < 64" "k div 64 = n" "k mod 64 = m" by (rule six_bits)
  have small: "c < 0x110000" using assms by (simp add: scalar_value_def)
  consider "c < 0x80" | "0x80 \<le> c" "p < 32" | "32 \<le> p" "k < 16" | "16 \<le> k" "n < 8"
    using small c(1,2) p(1,2) k(1,2) by linarith
  then show ?thesis
  proof cases
    case 1
    then show ?thesis by (simp add: utf8_def decode_utf8.simps(2))
  next
    case 2
    then have "\<not> c < 0x80" "c < 0x800" using c(1,2) by linarith+
    then have "utf8 c = [char_of (0xC0 + p), char_of (0x80 + r)]" by (simp add: utf8_def c(3,4))
    then show ?thesis using 2 c(1,2) by (simp add: decode_utf8.simps(2) Let_def)
  next
    case 3
    then have "\<not> c < 0x80" "\<not> c < 0x800" "c < 0x10000" using c(1,2) p(1,2) by linarith+
    then have "utf8 c = [char_of (0xE0 + k), char_of (0x80 + q), char_of (0x80 + r)]" by (simp add: utf8_def div_groups c(3,4) p(3,4))
    then show ?thesis using 3 c(1,2) p(1,2) by (simp add: decode_utf8.simps(2) Let_def)
  next
    case 4
    then have "\<not> c < 0x80" "\<not> c < 0x800" "\<not> c < 0x10000" using c(1,2) p(1,2) by linarith+
    then have "utf8 c = [char_of (0xF0 + n), char_of (0x80 + m), char_of (0x80 + q), char_of (0x80 + r)]"
      by (simp add: utf8_def div_groups c(3,4) p(3,4) k(3,4))
    then show ?thesis using 4 c(1,2) p(1,2) k(1,2) by (simp add: decode_utf8.simps(2) Let_def)
  qed
qed

lemma decode_utf8_text: "list_all scalar_value cs \<Longrightarrow> decode_utf8 (utf8_text cs) = cs"
  by (induction cs) (auto simp: decode_utf8_step)

lemma utf8_text_inject:
  "list_all scalar_value cs \<Longrightarrow> list_all scalar_value ds \<Longrightarrow> utf8_text cs = utf8_text ds \<longleftrightarrow> cs = ds"
  using decode_utf8_text by metis

end
