(* ===== verification/Cached_Data.thy ===== *)
theory Cached_Data
  imports HafPrelude
begin

text \<open>
  The objects the serializer collects from a block and the cache that holds them until they are
  dumped (\<open>sql_serializer_objects.hpp\<close>, \<open>cached_data.h\<close>), with the operations that move block ranges
  between caches (\<open>indexation_state.cpp\<close>, lines 25--67) and the per-block snapshot.

  The C++ structs derive from \<open>block_data_base\<close>; the records do the same by record extension, so
  the template functions over \<open>block_element\<close> are polymorphic functions over record schemes.
  Hashes, keys, signatures and operations are third-party values and are kept in packed form.
\<close>

record block_data_base =
  block_number :: int

record block_data_with_hash = block_data_base +
  hash :: string

record process_block_t = block_data_with_hash +
  created_at :: u32
  prev_hash :: string
  producer_account_id :: int
  transaction_merkle_root :: string
  extensions :: "string option"
  witness_signature :: string
  signing_key :: string
  hbd_interest_rate :: "16 word"
  total_vesting_shares :: int
  total_vesting_fund_hive :: int
  total_reward_fund_hive :: int
  virtual_supply :: int
  current_supply :: int
  current_hbd_supply :: int
  dhf_interval_ledger :: int

record process_transaction_t = block_data_with_hash +
  trx_in_block :: int
  ref_block_num :: "16 word"
  ref_block_prefix :: u32
  expiration :: u32
  trx_signature :: "string option"
  rc_cost :: "int option"

record process_transaction_multisig_t = block_data_with_hash +
  multisig_signature :: string

record process_operation_t = block_data_base +
  operation_id :: int
  op_trx_in_block :: int
  op_type_id :: int
  op_in_trx :: int
  op_body :: string
  custom_json_type_id :: "int option"

record applied_hardforks_t = block_data_base +
  hardfork_num :: int
  hardfork_vop_id :: int

record account_data_t = block_data_base +
  account_data_id :: int
  account_data_name :: string

record account_operation_data_t = block_data_base +
  ao_operation_id :: int
  ao_account_id :: int
  ao_transacting_account_id :: int
  ao_operation_seq_no :: int
  ao_op_type_id :: int

text \<open>\<open>cached_data_t\<close>: the seven containers first, then the size counter and the stashed sizes.\<close>

record cached_items =
  blocks :: "process_block_t list"
  transactions :: "process_transaction_t list"
  transactions_multisig :: "process_transaction_multisig_t list"
  operations :: "process_operation_t list"
  accounts :: "account_data_t list"
  account_operations :: "account_operation_data_t list"
  applied_hardforks :: "applied_hardforks_t list"

record sizes_stash =
  stash_blocks :: nat
  stash_transactions :: nat
  stash_transactions_multisig :: nat
  stash_operations :: nat
  stash_accounts :: nat
  stash_account_operations :: nat
  stash_applied_hardforks :: nat

record cached_data_t = cached_items +
  total_size :: u64
  stash :: sizes_stash

definition empty_stash :: sizes_stash where
  "empty_stash = \<lparr>stash_blocks = 0, stash_transactions = 0, stash_transactions_multisig = 0,
     stash_operations = 0, stash_accounts = 0, stash_account_operations = 0,
     stash_applied_hardforks = 0\<rparr>"

text \<open>\<open>cached_data_t{0}\<close>; the reservation size only affects capacity.\<close>

definition empty_cached_data :: cached_data_t where
  "empty_cached_data = \<lparr>blocks = [], transactions = [], transactions_multisig = [], operations = [],
     accounts = [], account_operations = [], applied_hardforks = [], total_size = 0,
     stash = empty_stash\<rparr>"

definition snapshot_current_sizes :: "cached_data_t \<Rightarrow> cached_data_t" where
  "snapshot_current_sizes c = c\<lparr>stash :=
     \<lparr>stash_blocks = length (blocks c), stash_transactions = length (transactions c),
      stash_transactions_multisig = length (transactions_multisig c),
      stash_operations = length (operations c), stash_accounts = length (accounts c),
      stash_account_operations = length (account_operations c),
      stash_applied_hardforks = length (applied_hardforks c)\<rparr>\<rparr>"

text \<open>\<open>v.erase(v.begin() + n, v.end())\<close>; an iterator past the end is undefined behaviour.\<close>

definition erase_from :: "nat \<Rightarrow> 'a list \<Rightarrow> 'a list result" where
  "erase_from n xs = (if n \<le> length xs then Inr (take n xs) else Inl Out_of_range)"

definition revert_to_snapshot :: "cached_data_t \<Rightarrow> cached_data_t result" where
  "revert_to_snapshot c =
     rbind (erase_from (stash_blocks (stash c)) (blocks c)) (\<lambda>bs.
     rbind (erase_from (stash_transactions (stash c)) (transactions c)) (\<lambda>ts.
     rbind (erase_from (stash_transactions_multisig (stash c)) (transactions_multisig c)) (\<lambda>ms.
     rbind (erase_from (stash_operations (stash c)) (operations c)) (\<lambda>os.
     rbind (erase_from (stash_accounts (stash c)) (accounts c)) (\<lambda>as.
     rbind (erase_from (stash_account_operations (stash c)) (account_operations c)) (\<lambda>aos.
     rbind (erase_from (stash_applied_hardforks (stash c)) (applied_hardforks c)) (\<lambda>hfs.
       Inr (snapshot_current_sizes (c\<lparr>blocks := bs, transactions := ts,
         transactions_multisig := ms, operations := os, accounts := as,
         account_operations := aos, applied_hardforks := hfs\<rparr>)))))))))"

text \<open>The block number argument is a \<open>uint32_t\<close> that the comparator turns into a
  \<open>block_data_base\<close>, whose field is a signed \<open>int\<close>.\<close>

definition move_items_upto_block ::
    "'a block_data_base_scheme list \<Rightarrow> 'a block_data_base_scheme list \<Rightarrow> u32 \<Rightarrow>
     'a block_data_base_scheme list \<times> 'a block_data_base_scheme list" where
  "move_items_upto_block target source n =
     (let block_it = upper_bound (\<lambda>v x. sint v < block_number x) source n
      in (take block_it source @ target, drop block_it source))"

definition erase_items_greater_than_block ::
    "'a block_data_base_scheme list \<Rightarrow> u32 \<Rightarrow> 'a block_data_base_scheme list" where
  "erase_items_greater_than_block items n =
     (let first_after_block_it = lower_bound (\<lambda>x v. block_number x < sint v) items (n + 1)
      in take first_after_block_it items)"

text \<open>The seven calls that move one range of every container into a fresh cache.\<close>

definition move_all_items_upto_block :: "cached_data_t \<Rightarrow> u32 \<Rightarrow> cached_data_t \<times> cached_data_t" where
  "move_all_items_upto_block c n =
     (let (b1, b2) = move_items_upto_block [] (blocks c) n;
          (t1, t2) = move_items_upto_block [] (transactions c) n;
          (m1, m2) = move_items_upto_block [] (transactions_multisig c) n;
          (o1, o2) = move_items_upto_block [] (operations c) n;
          (a1, a2) = move_items_upto_block [] (accounts c) n;
          (ao1, ao2) = move_items_upto_block [] (account_operations c) n;
          (h1, h2) = move_items_upto_block [] (applied_hardforks c) n
      in (empty_cached_data\<lparr>blocks := b1, transactions := t1, transactions_multisig := m1,
            operations := o1, accounts := a1, account_operations := ao1, applied_hardforks := h1\<rparr>,
          c\<lparr>blocks := b2, transactions := t2, transactions_multisig := m2,
            operations := o2, accounts := a2, account_operations := ao2, applied_hardforks := h2\<rparr>))"

definition NO_IRREVERSIBLE_BLOCK :: int where
  "NO_IRREVERSIBLE_BLOCK = 2147483647"

definition move_irreveresible_blocks :: "cached_data_t \<Rightarrow> u32 \<Rightarrow> cached_data_t \<times> cached_data_t" where
  "move_irreveresible_blocks c irreversible_block =
     (if irreversible_block = word_of_int NO_IRREVERSIBLE_BLOCK then (empty_cached_data, c)
      else move_all_items_upto_block c irreversible_block)"

definition erase_all_items_greater_than_block :: "cached_data_t \<Rightarrow> u32 \<Rightarrow> cached_data_t" where
  "erase_all_items_greater_than_block c n =
     c\<lparr>blocks := erase_items_greater_than_block (blocks c) n,
       transactions := erase_items_greater_than_block (transactions c) n,
       transactions_multisig := erase_items_greater_than_block (transactions_multisig c) n,
       operations := erase_items_greater_than_block (operations c) n,
       accounts := erase_items_greater_than_block (accounts c) n,
       account_operations := erase_items_greater_than_block (account_operations c) n,
       applied_hardforks := erase_items_greater_than_block (applied_hardforks c) n\<rparr>"

definition clear_all_items :: "cached_data_t \<Rightarrow> cached_data_t" where
  "clear_all_items c = c\<lparr>blocks := [], transactions := [], transactions_multisig := [],
     operations := [], accounts := [], account_operations := [], applied_hardforks := []\<rparr>"


subsection \<open>Reference operations on the containers\<close>

definition items :: "cached_data_t \<Rightarrow> cached_items" where
  "items c = cached_items.truncate c"

definition items_filter :: "(int \<Rightarrow> bool) \<Rightarrow> cached_items \<Rightarrow> cached_items" where
  "items_filter P c =
     \<lparr>blocks = filter (P \<circ> block_number) (blocks c),
      transactions = filter (P \<circ> block_number) (transactions c),
      transactions_multisig = filter (P \<circ> block_number) (transactions_multisig c),
      operations = filter (P \<circ> block_number) (operations c),
      accounts = filter (P \<circ> block_number) (accounts c),
      account_operations = filter (P \<circ> block_number) (account_operations c),
      applied_hardforks = filter (P \<circ> block_number) (applied_hardforks c)\<rparr>"

definition items_append :: "cached_items \<Rightarrow> cached_items \<Rightarrow> cached_items" where
  "items_append a b =
     \<lparr>blocks = blocks a @ blocks b, transactions = transactions a @ transactions b,
      transactions_multisig = transactions_multisig a @ transactions_multisig b,
      operations = operations a @ operations b, accounts = accounts a @ accounts b,
      account_operations = account_operations a @ account_operations b,
      applied_hardforks = applied_hardforks a @ applied_hardforks b\<rparr>"

definition items_empty :: cached_items where
  "items_empty = \<lparr>blocks = [], transactions = [], transactions_multisig = [], operations = [],
     accounts = [], account_operations = [], applied_hardforks = []\<rparr>"

text \<open>Well-formed containers: ordered by block number, with \<open>int32_t\<close> numbers, one row per block.\<close>

definition block_nums :: "'a block_data_base_scheme list \<Rightarrow> int list" where
  "block_nums xs = map block_number xs"

definition ordered_items :: "'a block_data_base_scheme list \<Rightarrow> bool" where
  "ordered_items xs \<longleftrightarrow> sorted (block_nums xs) \<and> (\<forall>n \<in> set (block_nums xs). 0 < n \<and> n < 2 ^ 31)"

definition items_ok :: "cached_items \<Rightarrow> bool" where
  "items_ok c \<longleftrightarrow> ordered_items (blocks c) \<and> distinct (block_nums (blocks c)) \<and>
     ordered_items (transactions c) \<and> ordered_items (transactions_multisig c) \<and>
     ordered_items (operations c) \<and> ordered_items (accounts c) \<and>
     ordered_items (account_operations c) \<and> ordered_items (applied_hardforks c)"

lemmas items_defs = items_filter_def items_append_def items_empty_def items_def
  cached_items.truncate_def cached_items.defs


subsection \<open>Moving block ranges\<close>

lemma move_items_upto_block_filter [block_order]:
  assumes "ordered_items source"
  shows "move_items_upto_block target source n =
    (filter ((\<lambda>b. b \<le> sint n) \<circ> block_number) source @ target,
     filter ((\<lambda>b. \<not> b \<le> sint n) \<circ> block_number) source)"
proof -
  have srt: "sorted (map block_number source)"
    using assms by (simp add: ordered_items_def block_nums_def)
  have part: "partitioned (\<lambda>x. block_number x \<le> sint n) source"
    by (rule partitioned_sorted_key[OF srt]) simp
  show ?thesis
    unfolding move_items_upto_block_def upper_bound_def Let_def linorder_not_less comp_def
    by (simp add: take_partition_search[OF part] drop_partition_search[OF part]
        takeWhile_filter_sorted_key[OF srt] dropWhile_filter_sorted_key[OF srt] del: not_le)
qed

lemma erase_items_greater_than_block_filter [block_order]:
  assumes "ordered_items xs" "uint n < 2 ^ 31 - 1"
  shows "erase_items_greater_than_block xs n = filter ((\<lambda>b. b \<le> uint n) \<circ> block_number) xs"
proof -
  have srt: "sorted (map block_number xs)"
    using assms(1) by (simp add: ordered_items_def block_nums_def)
  have suc: "uint (n + 1) = uint n + 1"
    by (rule uint_u32_plus_1) (use assms(2) in simp)
  then have "sint (n + 1) = uint n + 1"
    using assms(2) by (simp add: sint_u32_small)
  then have eq: "(\<lambda>x. block_number x < sint (n + 1)) = (\<lambda>x. block_number x \<le> uint n)"
    by (simp add: fun_eq_iff)
  have part: "partitioned (\<lambda>x. block_number x \<le> uint n) xs"
    by (rule partitioned_sorted_key[OF srt]) simp
  show ?thesis
    unfolding erase_items_greater_than_block_def lower_bound_def Let_def eq comp_def
    by (simp add: take_partition_search[OF part] takeWhile_filter_sorted_key[OF srt])
qed

lemma ordered_items_filter [block_order]: "ordered_items xs \<Longrightarrow> ordered_items (filter P xs)"
  by (auto simp: ordered_items_def block_nums_def sorted_map_filter)

lemma distinct_block_nums_filter: "distinct (block_nums xs) \<Longrightarrow> distinct (block_nums (filter P xs))"
  by (simp add: block_nums_def distinct_map_filter)

lemma items_ok_filter [block_order]: "items_ok c \<Longrightarrow> items_ok (items_filter P c)"
  by (simp add: items_ok_def items_filter_def ordered_items_filter distinct_block_nums_filter)

lemma items_ok_containers:
  assumes "items_ok (items c)"
  shows "ordered_items (blocks c)" "ordered_items (transactions c)"
    "ordered_items (transactions_multisig c)" "ordered_items (operations c)"
    "ordered_items (accounts c)" "ordered_items (account_operations c)"
    "ordered_items (applied_hardforks c)"
  using assms by (simp_all add: items_ok_def items_defs)

lemma move_all_items_upto_block_spec [block_order]:
  assumes "items_ok (items c)"
  shows "items (fst (move_all_items_upto_block c n)) = items_filter (\<lambda>b. b \<le> sint n) (items c)"
    and "items (snd (move_all_items_upto_block c n)) = items_filter (\<lambda>b. \<not> b \<le> sint n) (items c)"
    and "stash (snd (move_all_items_upto_block c n)) = stash c"
  using items_ok_containers[OF assms]
  by (simp_all add: move_all_items_upto_block_def move_items_upto_block_filter items_defs
      empty_cached_data_def)

lemma erase_all_items_greater_than_block_spec [block_order]:
  assumes "items_ok (items c)" "uint n < 2 ^ 31 - 1"
  shows "items (erase_all_items_greater_than_block c n) = items_filter (\<lambda>b. b \<le> uint n) (items c)"
  using items_ok_containers[OF assms(1)] assms(2)
  by (simp add: erase_all_items_greater_than_block_def erase_items_greater_than_block_filter items_defs)

lemma ordered_items_split:
  assumes "ordered_items xs"
  shows "filter ((\<lambda>b. b \<le> n) \<circ> block_number) xs @ filter ((\<lambda>b. \<not> b \<le> n) \<circ> block_number) xs = xs"
proof -
  have srt: "sorted (map block_number xs)"
    using assms by (simp add: ordered_items_def block_nums_def)
  show ?thesis
    unfolding comp_def takeWhile_filter_sorted_key[OF srt, symmetric]
      dropWhile_filter_sorted_key[OF srt, symmetric] by simp
qed

lemma items_split [block_order]:
  "items_ok c \<Longrightarrow> items_append (items_filter (\<lambda>b. b \<le> n) c) (items_filter (\<lambda>b. \<not> b \<le> n) c) = c"
  by (cases c) (simp add: items_ok_def items_filter_def items_append_def ordered_items_split del: not_le)

lemma items_append_assoc: "items_append (items_append a b) c = items_append a (items_append b c)"
  by (simp add: items_append_def)

lemma items_append_empty [simp]: "items_append items_empty a = a" "items_append a items_empty = a"
  by (simp_all add: items_append_def items_empty_def)

lemma items_empty_cached_data [simp]: "items empty_cached_data = items_empty"
  by (simp add: empty_cached_data_def items_defs)

lemma items_clear_all [simp]: "items (clear_all_items c) = items_empty"
  by (simp add: clear_all_items_def items_defs)

lemma blocks_items [simp]: "blocks (items c) = blocks c"
  by (simp add: items_defs)


subsection \<open>Snapshots\<close>

text \<open>The operations of one block only append to the containers between the snapshot taken before
  the block and its failure; reverting then restores the containers.\<close>

lemma erase_from_append [simp]: "erase_from (length xs) (xs @ ys) = Inr xs"
  by (simp add: erase_from_def)

lemma revert_append:
  assumes "stash c' = stash (snapshot_current_sizes c)" "items c' = items_append (items c) d"
  shows "\<exists>r. revert_to_snapshot c' = Inr r \<and> items r = items c \<and> stash r = stash c'
           \<and> total_size r = total_size c'"
  using assms
  by (cases c; cases c')
    (simp add: revert_to_snapshot_def snapshot_current_sizes_def items_defs)

lemma revert_after_shrink:
  assumes "length (blocks c) < stash_blocks (stash c)"
  shows "revert_to_snapshot c = Inl Out_of_range"
  using assms by (simp add: revert_to_snapshot_def erase_from_def)

end
