(* ===== verification/Sql_Tuples.thy ===== *)
theory Sql_Tuples
  imports Utf8 Cached_Data
begin

text \<open>
  The conversion of rows to SQL text: string and binary literals (\<open>data_2_sql_tuple_base.cpp\<close>), the tuples of the seven
  tables with their column lists (\<open>tables_descriptions.h\<close>, \<open>tables_descriptions.cpp\<close>), and the removal of escaped NUL
  characters from JSON texts (\<open>tables_descriptions.cpp\<close>, \<open>strip_json_null_escapes.cpp\<close>).

  Strings are lists of bytes.  The library functions are a parameter: decoding of UTF-8 to wide characters, the hexadecimal
  digits of a byte, the texts of times and keys, the binary form of an operation and its JSON text.
\<close>

unbundle bit_operations_syntax

record fc_library =
  decodeUtf8 :: "string \<Rightarrow> int list"
  to_hex :: "8 word \<Rightarrow> string"
  to_iso_string :: "u32 \<Rightarrow> string"
  key_to_string :: "string \<Rightarrow> string"
  pack_operation :: "string \<Rightarrow> string"
  operation_value_json :: "string \<Rightarrow> string"


subsection \<open>Literals\<close>

definition hex_pairs :: "char \<Rightarrow> string" where
  "hex_pairs c = (let digits = ''0123456789abcdef''; i = of_char c :: nat in [digits ! (i div 16), digits ! (i mod 16)])"

text \<open>The size is a 32-bit number, and so is the size of the result; a size that wraps around leaves no room for the digits.\<close>

definition sql_to_hex :: "string \<Rightarrow> string result" where
  "sql_to_hex d =
     (let s = of_nat (length d) :: u32; r_size = unat (s * 2 + 4) in
      if r_size < 2 * unat s + 4 then Inl Out_of_range
      else Inr ([CHR 0x27, CHR 0x5C, CHR ''x''] @ concat (map hex_pairs (take (unat s) d)) @ [CHR 0x27]))"

definition escape_raw :: "string \<Rightarrow> string result" where
  "escape_raw binary = sql_to_hex binary"

definition escape_raw_optional :: "string option \<Rightarrow> string result" where
  "escape_raw_optional sign = (case sign of Some b \<Rightarrow> sql_to_hex b | None \<Rightarrow> Inr ''NULL'')"

definition escape_ascii :: "char \<Rightarrow> string" where
  "escape_ascii c =
     (if c = CHR 0x5C then [CHR 0x5C] @ ''134''
      else if c = CHR 0x27 then [CHR 0x5C] @ ''047''
      else if c = CHR ''%'' then [CHR 0x5C] @ ''045''
      else if c = CHR ''_'' then [CHR 0x5C] @ ''137''
      else if c = CHR '':'' then [CHR 0x5C] @ ''072''
      else [c])"

definition all_printable_ascii :: "string \<Rightarrow> bool" where
  "all_printable_ascii t \<longleftrightarrow> list_all (\<lambda>ch. \<not> ((of_char ch :: nat) < 0x20 \<or> (of_char ch :: nat) > 0x7E)) t"

text \<open>\<open>std::isprint\<close> in the "C" locale.\<close>

definition isprint :: "int \<Rightarrow> bool" where
  "isprint code \<longleftrightarrow> 0x20 \<le> code \<and> code \<le> 0x7E"

definition escape_printable :: "int \<Rightarrow> string" where
  "escape_printable c =
     (if c = 13 then [CHR 0x5C] @ ''015''
      else if c = 10 then [CHR 0x5C] @ ''012''
      else if c = 11 then [CHR 0x5C] @ ''013''
      else if c = 12 then [CHR 0x5C] @ ''014''
      else escape_ascii (char_of (nat c)))"

text \<open>The bytes of the code are read from the highest one that is needed.\<close>

definition escape_code :: "fc_library \<Rightarrow> int \<Rightarrow> string" where
  "escape_code fc i_c =
     (let c_str = (\<lambda>s. ucast (drop_bit (8 * s) (word_of_int i_c :: u32)) :: 8 word);
          s = (if i_c > 0xff then 1 else 0) + (if i_c > 0xffff then 1 else 0) + (if i_c > 0xffffff then 1 else 0 :: nat);
          u_code = concat (map (\<lambda>k. to_hex fc (c_str k)) (rev [0..<Suc s]))
      in if i_c > 0xffff then [CHR 0x5C, CHR ''U''] @ replicate (8 - length u_code) (CHR ''0'') @ u_code
         else [CHR 0x5C, CHR ''u''] @ replicate (4 - length u_code) (CHR ''0'') @ u_code)"

definition escape_wide :: "fc_library \<Rightarrow> int \<Rightarrow> string" where
  "escape_wide fc code =
     (if code = 0 then '' '' else []) @
     (if code > 0 \<and> code \<le> 0x7F \<and> isprint code then escape_printable code else escape_code fc code)"

definition escape_sql :: "fc_library \<Rightarrow> string \<Rightarrow> string" where
  "escape_sql fc t =
     (if t = [] then [CHR ''E'', CHR 0x27, CHR 0x27]
      else if all_printable_ascii t then [CHR ''E'', CHR 0x27] @ concat (map escape_ascii t) @ [CHR 0x27]
      else [CHR ''E'', CHR 0x27] @ concat (map (escape_wide fc) (decodeUtf8 fc t)) @ [CHR 0x27])"

definition escape :: "fc_library \<Rightarrow> string \<Rightarrow> string" where
  "escape fc source = escape_sql fc source"

definition escape_optional :: "fc_library \<Rightarrow> string option \<Rightarrow> string" where
  "escape_optional fc source = (case source of Some s \<Rightarrow> escape_sql fc s | None \<Rightarrow> ''NULL'')"


subsection \<open>Tuples\<close>

text \<open>\<open>result += part\<close> for each part in turn.\<close>

fun append_parts :: "string result list \<Rightarrow> string result" where
  "append_parts [] = Inr []"
| "append_parts (p # ps) = rbind p (\<lambda>s. rbind (append_parts ps) (\<lambda>t. Inr (s @ t)))"

abbreviation (input) comma :: "string result" where
  "comma \<equiv> Inr '',''"

definition blocks_tuple :: "fc_library \<Rightarrow> process_block_t \<Rightarrow> string result" where
  "blocks_tuple fc data = append_parts
     [Inr (int_to_string (block_number data)), comma,
      escape_raw (hash data), comma,
      escape_raw (prev_hash data), Inr ('','' @ [CHR 0x27]),
      Inr (to_iso_string fc (created_at data)), Inr ([CHR 0x27] @ '',''),
      Inr (int_to_string (producer_account_id data)), comma,
      escape_raw (transaction_merkle_root data), comma,
      Inr (escape_optional fc (extensions data)), comma,
      escape_raw_optional (Some (witness_signature data)), Inr ('','' @ [CHR 0x27]),
      Inr (key_to_string fc (signing_key data)), Inr ([CHR 0x27] @ '',''),
      Inr (nat_to_string (unat (hbd_interest_rate data))), comma,
      Inr (int_to_string (total_vesting_fund_hive data)), comma,
      Inr (int_to_string (total_vesting_shares data)), comma,
      Inr (int_to_string (total_reward_fund_hive data)), comma,
      Inr (int_to_string (virtual_supply data)), comma,
      Inr (int_to_string (current_supply data)), comma,
      Inr (int_to_string (current_hbd_supply data)), comma,
      Inr (int_to_string (dhf_interval_ledger data))]"

definition transactions_tuple :: "fc_library \<Rightarrow> process_transaction_t \<Rightarrow> string result" where
  "transactions_tuple fc data = append_parts
     [Inr (int_to_string (block_number data)), comma,
      Inr (int_to_string (trx_in_block data)), comma,
      escape_raw (hash data), comma,
      Inr (nat_to_string (unat (ref_block_num data))), comma,
      Inr (nat_to_string (unat (ref_block_prefix data))), Inr ('','' @ [CHR 0x27]),
      Inr (to_iso_string fc (expiration data)), Inr ([CHR 0x27] @ '',''),
      escape_raw_optional (trx_signature data), comma,
      Inr (case rc_cost data of Some c \<Rightarrow> int_to_string c | None \<Rightarrow> ''NULL'')]"

definition transactions_multisig_tuple :: "process_transaction_multisig_t \<Rightarrow> string result" where
  "transactions_multisig_tuple data = append_parts
     [escape_raw (hash data), comma, escape_raw_optional (Some (multisig_signature data))]"

definition operations_tuple :: "fc_library \<Rightarrow> process_operation_t \<Rightarrow> string result" where
  "operations_tuple fc data = append_parts
     [Inr (int_to_string (operation_id data)), comma,
      Inr (int_to_string (op_trx_in_block data)), comma,
      Inr (int_to_string (op_type_id data)), comma,
      Inr (int_to_string (op_in_trx data)), Inr '',('',
      escape_raw (pack_operation fc (op_body data)),
      Inr (''::hafd.operation::jsonb)->'' @ [CHR 0x27] @ ''value'' @ [CHR 0x27] @ '',''),
      Inr (case custom_json_type_id data of Some i \<Rightarrow> int_to_string i | None \<Rightarrow> ''NULL'')]"

definition accounts_tuple :: "fc_library \<Rightarrow> account_data_t \<Rightarrow> string" where
  "accounts_tuple fc data =
     (let block_num = (if block_number data = 0 then ''NULL'' else int_to_string (block_number data))
      in int_to_string (account_data_id data) @ '','' @ escape fc (account_data_name data) @ '','' @ block_num)"

definition account_operations_tuple :: "account_operation_data_t \<Rightarrow> string" where
  "account_operations_tuple data =
     int_to_string (ao_account_id data) @ '','' @ int_to_string (ao_transacting_account_id data) @ '','' @
     int_to_string (ao_operation_seq_no data) @ '','' @ int_to_string (ao_operation_id data) @ '','' @
     int_to_string (ao_op_type_id data)"

definition applied_hardforks_tuple :: "applied_hardforks_t \<Rightarrow> string" where
  "applied_hardforks_tuple data =
     int_to_string (hardfork_num data) @ '','' @ int_to_string (block_number data) @ '','' @ int_to_string (hardfork_vop_id data)"

definition blocks_COLS :: string where
  "blocks_COLS = ''num, hash, prev, created_at, producer_account_id, transaction_merkle_root, extensions, witness_signature, signing_key, hbd_interest_rate, total_vesting_fund_hive, total_vesting_shares, total_reward_fund_hive, virtual_supply, current_supply, current_hbd_supply, dhf_interval_ledger ''"

definition transactions_COLS :: string where
  "transactions_COLS = ''block_num, trx_in_block, trx_hash, ref_block_num, ref_block_prefix, expiration, signature, rc_cost''"

definition transactions_multisig_COLS :: string where
  "transactions_multisig_COLS = ''trx_hash, signature''"

definition operations_COLS :: string where
  "operations_COLS = ''id, trx_in_block, op_type_id, op_pos, body_value, custom_json_type_id''"

definition accounts_COLS :: string where
  "accounts_COLS = ''id, name, block_num''"

definition account_operations_COLS :: string where
  "account_operations_COLS = ''account_id, transacting_account_id, account_op_seq_no, operation_id, op_type_id''"

definition applied_hardforks_COLS :: string where
  "applied_hardforks_COLS = ''hardfork_num, block_num, hardfork_vop_id''"


subsection \<open>Escaped NUL characters in JSON texts\<close>

definition null_escape :: string where
  "null_escape = [CHR 0x5C] @ ''u0000''"

definition matches_at :: "string \<Rightarrow> nat \<Rightarrow> bool" where
  "matches_at s i \<longleftrightarrow> s ! i = CHR 0x5C \<and> i + 5 < length s
     \<and> s ! (i + 1) = CHR ''u'' \<and> s ! (i + 2) = CHR ''0'' \<and> s ! (i + 3) = CHR ''0'' \<and> s ! (i + 4) = CHR ''0'' \<and> s ! (i + 5) = CHR ''0''"

text \<open>The number of backslashes that end the first \<open>out\<close> characters, counted from \<open>bs\<close> on.\<close>

function count_backslashes :: "string \<Rightarrow> nat \<Rightarrow> nat \<Rightarrow> nat" where
  "count_backslashes dst out bs =
     (if bs < out \<and> dst ! (out - 1 - bs) = CHR 0x5C then count_backslashes dst out (bs + 1) else bs)"
  by pat_completeness auto
termination
  by (relation "measure (\<lambda>(dst, out, bs). out - bs)") auto

text \<open>The plugin works in place: what is written goes to the beginning of the string that is read.\<close>

function strip_in_place :: "nat \<Rightarrow> nat \<Rightarrow> string \<Rightarrow> string" where
  "strip_in_place i out s =
     (if i < length s
      then if matches_at s i \<and> even (count_backslashes s out 0) then strip_in_place (i + 6) out s
           else strip_in_place (i + 1) (out + 1) (s[out := s ! i])
      else take out s)"
  by pat_completeness auto
termination
  by (relation "measure (\<lambda>(i, out, s). length s - i)") auto

definition strip_json_null_escapes :: "string \<Rightarrow> string" where
  "strip_json_null_escapes s = (if CHR 0x5C \<notin> set s then s else strip_in_place 0 0 s)"

text \<open>The database function writes to a new buffer.\<close>

function strip_copying :: "string \<Rightarrow> nat \<Rightarrow> nat \<Rightarrow> string \<Rightarrow> string" where
  "strip_copying src i out dst =
     (if i < length src
      then if matches_at src i \<and> even (count_backslashes dst out 0) then strip_copying src (i + 6) out dst
           else strip_copying src (i + 1) (out + 1) (dst[out := src ! i])
      else if out = length src then src else take out dst)"
  by pat_completeness auto
termination
  by (relation "measure (\<lambda>(src, i, out, dst). length src - i)") auto

text \<open>The contents of the new buffer, which is as long as the input, are an argument.\<close>

definition strip_json_null_escapes_sql :: "string \<Rightarrow> string \<Rightarrow> string" where
  "strip_json_null_escapes_sql fresh src = (if CHR 0x5C \<notin> set src then src else strip_copying src 0 0 fresh)"

subsection \<open>Rows of a COPY stream\<close>

text \<open>The values given to \<open>stream.write_values\<close>, by their C++ types.\<close>

datatype stream_value =
    Number int
  | Hash string
  | Time u32
  | Text "string option"
  | Signature "string option"
  | Key string
  | Optional_number "int option"

definition block_to_stream :: "process_block_t \<Rightarrow> stream_value list" where
  "block_to_stream block =
     [Number (block_number block), Hash (hash block), Hash (prev_hash block), Time (created_at block), Number (producer_account_id block),
      Hash (transaction_merkle_root block), Text (extensions block), Signature (Some (witness_signature block)), Key (signing_key block),
      Number (uint (hbd_interest_rate block)), Number (total_vesting_fund_hive block), Number (total_vesting_shares block),
      Number (total_reward_fund_hive block), Number (virtual_supply block), Number (current_supply block), Number (current_hbd_supply block),
      Number (dhf_interval_ledger block)]"

definition transaction_to_stream :: "process_transaction_t \<Rightarrow> stream_value list" where
  "transaction_to_stream transaction =
     [Number (block_number transaction), Number (trx_in_block transaction), Hash (hash transaction), Number (uint (ref_block_num transaction)),
      Number (uint (ref_block_prefix transaction)), Time (expiration transaction), Signature (trx_signature transaction), Optional_number (rc_cost transaction)]"

definition transaction_multisig_to_stream :: "process_transaction_multisig_t \<Rightarrow> stream_value list" where
  "transaction_multisig_to_stream transaction_multisig =
     [Hash (hash transaction_multisig), Signature (Some (multisig_signature transaction_multisig))]"

definition operation_to_stream :: "fc_library \<Rightarrow> process_operation_t \<Rightarrow> stream_value list" where
  "operation_to_stream fc operation =
     (let body_value_json = strip_json_null_escapes (operation_value_json fc (op_body operation)) in
      [Number (operation_id operation), Number (op_trx_in_block operation), Number (op_type_id operation), Number (op_in_trx operation),
       Text (Some body_value_json), Optional_number (custom_json_type_id operation)])"

text \<open>The block number is an \<open>int\<close> that becomes an \<open>optional<uint32_t>\<close>: a negative one is written unsigned.\<close>

definition account_to_stream :: "account_data_t \<Rightarrow> stream_value list" where
  "account_to_stream account =
     [Number (account_data_id account), Text (Some (account_data_name account)),
      Optional_number (if block_number account = 0 then None else Some (uint (word_of_int (block_number account) :: u32)))]"

definition account_operation_to_stream :: "account_operation_data_t \<Rightarrow> stream_value list" where
  "account_operation_to_stream account_operation =
     [Number (ao_account_id account_operation), Number (ao_transacting_account_id account_operation),
      Number (ao_operation_seq_no account_operation), Number (ao_operation_id account_operation), Number (ao_op_type_id account_operation)]"

definition applied_hardfork_to_stream :: "applied_hardforks_t \<Rightarrow> stream_value list" where
  "applied_hardfork_to_stream applied_hardfork =
     [Number (hardfork_num applied_hardfork), Number (block_number applied_hardfork), Number (hardfork_vop_id applied_hardfork)]"

end
