(* ===== verification/Sql_Text_Properties.thy ===== *)
theory Sql_Text_Properties
  imports Sql_Tuples
begin

text \<open>
  What the database reads from the texts of \<open>Sql_Tuples\<close>: string literals give back the text, tuples have the columns
  of their table and agree with the rows of the COPY streams, and only escaped NUL characters are removed from JSON.
\<close>

subsection \<open>Escaped NUL characters\<close>

fun trailing_backslashes :: "string \<Rightarrow> nat" where
  "trailing_backslashes w = length (takeWhile (\<lambda>c. c = CHR 0x5C) (rev w))"

declare trailing_backslashes.simps [simp del]

lemma trailing_simps [simp]:
  "trailing_backslashes [] = 0" "trailing_backslashes (w @ [c]) = (if c = CHR 0x5C then Suc (trailing_backslashes w) else 0)"
  by (simp_all add: trailing_backslashes.simps)

text \<open>Both loops on lists: what was written and what is left.\<close>

function strip_list :: "string \<Rightarrow> string \<Rightarrow> string" where
  "strip_list w [] = w"
| "strip_list w (c # s) =
     (if take 6 (c # s) = null_escape \<and> even (trailing_backslashes w) then strip_list w (drop 5 s) else strip_list (w @ [c]) s)"
  by pat_completeness auto
termination
  by (relation "measure (\<lambda>(w, s). length s)") auto

declare strip_list.simps(2) [simp del]

lemma strip_list_skip: "take 6 s = null_escape \<Longrightarrow> even (trailing_backslashes w) \<Longrightarrow> strip_list w s = strip_list w (drop 6 s)"
  by (cases s) (simp_all add: null_escape_def strip_list.simps(2))

lemma strip_list_copy: "\<not> (take 6 (c # s) = null_escape \<and> even (trailing_backslashes w)) \<Longrightarrow> strip_list w (c # s) = strip_list (w @ [c]) s"
  unfolding strip_list.simps(2) by (rule if_not_P)

lemma matches_at_prefix:
  assumes "i < length s"
  shows "matches_at s i \<longleftrightarrow> take 6 (drop i s) = null_escape"
proof (cases "i + 5 < length s")
  case True
  have six: "[0..<6] = [0, 1, 2, 3, 4, 5]" by (simp add: upt_rec)
  have "take 6 (drop i s) = map (\<lambda>k. s ! (i + k)) [0..<6]" by (rule nth_equalityI) (use True in auto)
  then show ?thesis unfolding six matches_at_def null_escape_def using True by auto
next
  case False
  then have "length (take 6 (drop i s)) \<noteq> length null_escape" by (auto simp: null_escape_def)
  then have "take 6 (drop i s) \<noteq> null_escape" by metis
  then show ?thesis using False by (simp add: matches_at_def)
qed

lemma count_backslashes_rec: "out \<le> length s \<Longrightarrow> bs \<le> out \<Longrightarrow>
    count_backslashes s out bs = bs + length (takeWhile (\<lambda>c. c = CHR 0x5C) (drop bs (rev (take out s))))"
proof (induction s out bs rule: count_backslashes.induct)
  case (1 s out bs)
  show ?case
  proof (cases "bs < out")
    case True
    then have "drop bs (rev (take out s)) = s ! (out - 1 - bs) # drop (Suc bs) (rev (take out s))"
      using 1(2) by (simp add: Cons_nth_drop_Suc[symmetric] rev_nth min_absorb2 del: drop_rev)
    then show ?thesis using 1 True by (simp add: count_backslashes.simps[of s out bs] del: drop_rev count_backslashes.simps)
  next
    case False
    then show ?thesis using 1 count_backslashes.simps[of s out bs] by (simp del: count_backslashes.simps)
  qed
qed

lemma count_backslashes_trailing: "out \<le> length s \<Longrightarrow> count_backslashes s out 0 = trailing_backslashes (take out s)"
  using count_backslashes_rec[of out s 0] by (simp add: trailing_backslashes.simps)

declare count_backslashes.simps [simp del] strip_in_place.simps [simp del] strip_copying.simps [simp del]

lemma take_written: "out < length s \<Longrightarrow> take (Suc out) (s[out := c]) = take out s @ [c]"
  by (simp add: take_Suc_conv_app_nth)

lemma strip_in_place_list:
  "out \<le> i \<Longrightarrow> i \<le> length s \<Longrightarrow> strip_in_place i out s = strip_list (take out s) (drop i s)"
proof (induction i out s rule: strip_in_place.induct)
  case (1 i out s)
  show ?case
  proof (cases "i < length s")
    case True
    then have d: "drop i s = s ! i # drop (Suc i) s" by (simp add: Cons_nth_drop_Suc)
    have cond: "matches_at s i \<and> even (count_backslashes s out 0) \<longleftrightarrow> take 6 (drop i s) = null_escape \<and> even (trailing_backslashes (take out s))"
      using matches_at_prefix[OF True] count_backslashes_trailing 1(3,4) by simp
    show ?thesis
    proof (cases "matches_at s i \<and> even (count_backslashes s out 0)")
      case skip: True
      then have "i + 6 \<le> length s" by (auto simp: matches_at_def)
      then show ?thesis
        using 1(1)[OF True skip] 1(3) True skip cond strip_in_place.simps[of i out s] strip_list_skip[of "drop i s" "take out s"] by (simp add: add.commute)
    next
      case copy: False
      then have "strip_in_place i out s = strip_list (take (Suc out) (s[out := s ! i])) (drop (Suc i) (s[out := s ! i]))"
        using 1(2)[OF True copy] 1(3) True strip_in_place.simps[of i out s] by auto
      then show ?thesis
        using copy cond take_written[of out s] 1(3) True strip_list_copy[of "s ! i" "drop (Suc i) s" "take out s"] by (simp add: d)
    qed
  next
    case False
    then show ?thesis using 1(4) strip_in_place.simps[of i out s] by simp
  qed
qed

lemma strip_copying_list:
  "out \<le> i \<Longrightarrow> i \<le> length src \<Longrightarrow> length dst = length src \<Longrightarrow> (out = i \<longrightarrow> take out dst = take i src)
    \<Longrightarrow> strip_copying src i out dst = strip_list (take out dst) (drop i src)"
proof (induction src i out dst rule: strip_copying.induct)
  case (1 src i out dst)
  show ?case
  proof (cases "i < length src")
    case True
    then have d: "drop i src = src ! i # drop (Suc i) src" by (simp add: Cons_nth_drop_Suc)
    have cond: "matches_at src i \<and> even (count_backslashes dst out 0) \<longleftrightarrow> take 6 (drop i src) = null_escape \<and> even (trailing_backslashes (take out dst))"
      using matches_at_prefix[OF True] count_backslashes_trailing 1(3-5) by simp
    show ?thesis
    proof (cases "matches_at src i \<and> even (count_backslashes dst out 0)")
      case skip: True
      then have "i + 6 \<le> length src" by (auto simp: matches_at_def)
      then show ?thesis
        using 1(1)[OF True skip] 1(3,5) True skip cond strip_copying.simps[of src i out dst] strip_list_skip[of "drop i src" "take out dst"] by (simp add: add.commute)
    next
      case copy: False
      have w: "take (Suc out) (dst[out := src ! i]) = take out dst @ [src ! i]" using take_written[of out dst] 1(3,5) True by simp
      have "strip_copying src i out dst = strip_list (take (Suc out) (dst[out := src ! i])) (drop (Suc i) src)"
        using 1(2)[OF True copy] 1(3,5,6) True copy w strip_copying.simps[of src i out dst] by (auto simp: take_Suc_conv_app_nth)
      then show ?thesis using copy cond w strip_list_copy[of "src ! i" "drop (Suc i) src" "take out dst"] by (simp add: d)
    qed
  next
    case False
    then show ?thesis using 1(3-6) strip_copying.simps[of src i out dst] by auto
  qed
qed

lemma strip_list_plain: "CHR 0x5C \<notin> set s \<Longrightarrow> strip_list w s = w @ s"
proof (induction w s rule: strip_list.induct)
  case (2 w c s)
  then have "take 6 (c # s) \<noteq> null_escape" by (auto simp: null_escape_def)
  then show ?case using 2 strip_list_copy[of c s w] by simp
qed simp

lemma strip_is_list: "strip_json_null_escapes s = strip_list [] s"
  using strip_in_place_list[of 0 0 s] by (simp add: strip_json_null_escapes_def strip_list_plain)

lemma strip_sql_is_list: "length fresh = length s \<Longrightarrow> strip_json_null_escapes_sql fresh s = strip_list [] s"
  using strip_copying_list[of 0 0 s fresh] by (simp add: strip_json_null_escapes_sql_def strip_list_plain)

text \<open>A JSON text in pieces: characters, escaped characters, and escapes with a code of four digits.\<close>

datatype json_piece = Plain char | Escaped char | Coded string

fun piece_text :: "json_piece \<Rightarrow> string" where
  "piece_text (Plain c) = [c]"
| "piece_text (Escaped c) = [CHR 0x5C, c]"
| "piece_text (Coded ds) = [CHR 0x5C, CHR ''u''] @ ds"

fun wf_piece :: "json_piece \<Rightarrow> bool" where
  "wf_piece (Plain c) \<longleftrightarrow> c \<noteq> CHR 0x5C"
| "wf_piece (Escaped c) \<longleftrightarrow> c \<noteq> CHR ''u''"
| "wf_piece (Coded ds) \<longleftrightarrow> length ds = 4 \<and> CHR 0x5C \<notin> set ds"

definition pieces_text :: "json_piece list \<Rightarrow> string" where
  "pieces_text ps = concat (map piece_text ps)"

lemma strip_list_copies: "CHR 0x5C \<notin> set s \<Longrightarrow> strip_list w (s @ t) = strip_list (w @ s) t"
proof (induction s arbitrary: w)
  case (Cons c s)
  have "take 6 (c # s @ t) \<noteq> null_escape" using Cons.prems by (auto simp: null_escape_def)
  then show ?case using Cons strip_list_copy[of c "s @ t" w] by simp
qed simp

lemma strip_piece:
  assumes "wf_piece p" "even (trailing_backslashes w)" "p \<noteq> Coded ''0000''"
  shows "strip_list w (piece_text p @ t) = strip_list (w @ piece_text p) t" "even (trailing_backslashes (w @ piece_text p))"
proof -
  have tb: "trailing_backslashes (w @ [a, b]) = trailing_backslashes ((w @ [a]) @ [b])" for a b by simp
  show "strip_list w (piece_text p @ t) = strip_list (w @ piece_text p) t"
  proof (cases p)
    case (Plain c)
    then show ?thesis using assms(1) strip_list_copies[of "[c]" w t] by simp
  next
    case (Escaped c)
    have "take 6 (CHR 0x5C # c # t) \<noteq> null_escape" using Escaped assms(1) by (simp add: null_escape_def)
    then show ?thesis
      using strip_list_copy[of "CHR 0x5C" "c # t" w] strip_list_copy[of c t "w @ [CHR 0x5C]"] assms(2) Escaped by simp
  next
    case (Coded ds)
    have "take 4 (ds @ t) = ds" using Coded assms(1) by simp
    then have "take 6 (CHR 0x5C # CHR ''u'' # ds @ t) \<noteq> null_escape" using Coded assms(3) by (auto simp: null_escape_def)
    then have "strip_list w (piece_text p @ t) = strip_list (w @ [CHR 0x5C]) ((CHR ''u'' # ds) @ t)"
      using strip_list_copy[of "CHR 0x5C" "CHR ''u'' # ds @ t" w] Coded by simp
    also have "\<dots> = strip_list (w @ piece_text p) t"
      using strip_list_copies[of "CHR ''u'' # ds" "w @ [CHR 0x5C]" t] Coded assms(1) by simp
    finally show ?thesis .
  qed
  show "even (trailing_backslashes (w @ piece_text p))"
  proof (cases p)
    case (Coded ds)
    then obtain ds' d where "ds = ds' @ [d]" "d \<noteq> CHR 0x5C" using assms(1) by (cases ds rule: rev_cases) auto
    then show ?thesis using Coded trailing_simps(2)[of "w @ [CHR 0x5C, CHR ''u''] @ ds'" d] by simp
  qed (use assms tb in \<open>auto simp del: append_assoc\<close>)
qed

lemma strip_pieces:
  "list_all wf_piece ps \<Longrightarrow> even (trailing_backslashes w)
    \<Longrightarrow> strip_list w (pieces_text ps) = w @ pieces_text (filter (\<lambda>p. p \<noteq> Coded ''0000'') ps)"
proof (induction ps arbitrary: w)
  case Nil
  then show ?case by (simp add: pieces_text_def)
next
  case (Cons p ps)
  show ?case
  proof (cases "p = Coded ''0000''")
    case True
    then have "strip_list w (pieces_text (p # ps)) = strip_list w (pieces_text ps)"
      using strip_list_skip[of "pieces_text (p # ps)" w] Cons.prems(2) by (simp add: pieces_text_def null_escape_def)
    then show ?thesis using Cons True by simp
  next
    case False
    then show ?thesis
      using strip_piece(1)[of p w "pieces_text ps"] strip_piece(2)[of p w] Cons by (simp add: pieces_text_def)
  qed
qed

subsection \<open>String literals\<close>

text \<open>How the server reads the text between the quotes of a literal with escapes: octal numbers of up to three digits, codes of four or eight
  hexadecimal digits, doubled quotes.  A character with the code 0 and a code that is no character are errors.\<close>

definition is_octal :: "char \<Rightarrow> bool" where
  "is_octal c \<longleftrightarrow> 48 \<le> (of_char c :: nat) \<and> (of_char c :: nat) \<le> 55"

definition octal_number :: "string \<Rightarrow> nat" where
  "octal_number ds = foldl (\<lambda>n c. n * 8 + (of_char c - 48)) 0 ds"

definition hex_value :: "char \<Rightarrow> nat option" where
  "hex_value ch = (let c = of_char ch in
     if 48 \<le> c \<and> c \<le> 57 then Some (c - 48)
     else if 97 \<le> c \<and> c \<le> 102 then Some (c - 87)
     else if 65 \<le> c \<and> c \<le> 70 then Some (c - 55)
     else None)"

definition hex_number :: "string \<Rightarrow> nat" where
  "hex_number ds = foldl (\<lambda>n c. n * 16 + the (hex_value c)) 0 ds"

definition read_code :: "nat \<Rightarrow> string \<Rightarrow> (string \<times> string) option" where
  "read_code n s = (let ds = take n s; v = hex_number ds in
     if length ds = n \<and> list_all (\<lambda>c. hex_value c \<noteq> None) ds \<and> v \<noteq> 0 \<and> scalar_value v then Some (utf8 v, drop n s) else None)"

definition read_escape :: "string \<Rightarrow> (string \<times> string) option" where
  "read_escape s = (case s of
     [] \<Rightarrow> None
   | c # s1 \<Rightarrow>
       if is_octal c then (let ds = takeWhile is_octal (take 3 s); v = octal_number ds mod 256 in
         if v = 0 then None else Some ([char_of v], drop (length ds) s))
       else if c = CHR ''u'' then read_code 4 s1
       else if c = CHR ''U'' then read_code 8 s1
       else if c = CHR ''b'' then Some ([char_of (8 :: nat)], s1)
       else if c = CHR ''f'' then Some ([char_of (12 :: nat)], s1)
       else if c = CHR ''n'' then Some ([char_of (10 :: nat)], s1)
       else if c = CHR ''r'' then Some ([char_of (13 :: nat)], s1)
       else if c = CHR ''t'' then Some ([char_of (9 :: nat)], s1)
       else if c = CHR ''x'' then None
       else Some ([c], s1))"

lemma read_escape_shorter: "read_escape s = Some (t, r) \<Longrightarrow> length r < length s"
proof -
  have "0 < length (takeWhile is_octal (take 3 (c # cs)))" if "is_octal c" for c cs using that by simp
  then show "read_escape s = Some (t, r) \<Longrightarrow> length r < length s"
    by (cases s) (auto simp: read_escape_def read_code_def Let_def split: if_splits)
qed

function read_estring :: "string \<Rightarrow> string option" where
  "read_estring [] = Some []"
| "read_estring (c # s) =
     (if c = CHR 0x27 then (case s of d # s1 \<Rightarrow> if d = CHR 0x27 then map_option ((#) c) (read_estring s1) else None | [] \<Rightarrow> None)
      else if c = CHR 0x5C then (case read_escape s of None \<Rightarrow> None | Some (t, r) \<Rightarrow> map_option ((@) t) (read_estring r))
      else if c = CHR 0x00 then None
      else map_option ((#) c) (read_estring s))"
  by pat_completeness auto
termination
  by (relation "measure length") (auto dest: read_escape_shorter)

text \<open>The text of the hexadecimal digits of a byte.\<close>

definition hex_law :: "fc_library \<Rightarrow> bool" where
  "hex_law fc \<longleftrightarrow> (\<forall>b. length (to_hex fc b) = 2 \<and> list_all (\<lambda>c. hex_value c \<noteq> None) (to_hex fc b) \<and> hex_number (to_hex fc b) = unat b)"

definition decoding_law :: "fc_library \<Rightarrow> bool" where
  "decoding_law fc \<longleftrightarrow> (\<forall>cs. list_all scalar_value cs \<longrightarrow> decodeUtf8 fc (utf8_text cs) = map int cs)"

lemma read_octal:
  assumes "is_octal a" "is_octal b" "is_octal c" "octal_number [a, b, c] mod 256 = of_char e" "(of_char e :: nat) \<noteq> 0"
  shows "read_estring (CHR 0x5C # a # b # c # s) = map_option ((#) e) (read_estring s)"
proof -
  have "read_escape (a # b # c # s) = Some ([e], s)"
    using assms by (simp add: read_escape_def Let_def numeral_3_eq_3)
  moreover have "(@) [e] = (#) e" by auto
  ultimately show ?thesis by simp
qed

lemma read_escape_ascii:
  assumes "0x20 \<le> (of_char c :: nat)" "(of_char c :: nat) \<le> 0x7E"
  shows "read_estring (escape_ascii c @ s) = map_option ((#) c) (read_estring s)"
proof -
  have octal: "read_estring (CHR 0x5C # ''134'' @ s) = map_option ((#) (CHR 0x5C)) (read_estring s)"
    "read_estring (CHR 0x5C # ''047'' @ s) = map_option ((#) (CHR 0x27)) (read_estring s)"
    "read_estring (CHR 0x5C # ''045'' @ s) = map_option ((#) (CHR ''%'')) (read_estring s)"
    "read_estring (CHR 0x5C # ''137'' @ s) = map_option ((#) (CHR ''_'')) (read_estring s)"
    "read_estring (CHR 0x5C # ''072'' @ s) = map_option ((#) (CHR '':'')) (read_estring s)"
    using read_octal[of "CHR ''1''" "CHR ''3''" "CHR ''4''" "CHR 0x5C" s] read_octal[of "CHR ''0''" "CHR ''4''" "CHR ''7''" "CHR 0x27" s]
      read_octal[of "CHR ''0''" "CHR ''4''" "CHR ''5''" "CHR ''%''" s] read_octal[of "CHR ''1''" "CHR ''3''" "CHR ''7''" "CHR ''_''" s]
      read_octal[of "CHR ''0''" "CHR ''7''" "CHR ''2''" "CHR '':''" s]
    by (simp_all add: is_octal_def octal_number_def)
  have "c \<noteq> CHR 0x00" using assms(1) by auto
  then show ?thesis using octal by (auto simp: escape_ascii_def)
qed

lemma hex_number_append: "hex_number (xs @ ys) = hex_number xs * 16 ^ length ys + hex_number ys"
proof (induction ys rule: rev_induct)
  case (snoc y ys)
  then show ?case by (simp add: hex_number_def algebra_simps flip: append_assoc)
qed (simp add: hex_number_def)

lemma hex_number_zeros: "hex_number (replicate n (CHR ''0'')) = 0" "list_all (\<lambda>c. hex_value c \<noteq> None) (replicate n (CHR ''0''))"
  by (induction n) (simp_all add: hex_number_def hex_value_def)

lemma byte_of_code:
  assumes "i < 2 ^ 32"
  shows "unat (ucast (drop_bit k (word_of_int (int i) :: u32)) :: 8 word) = i div 2 ^ k mod 256"
proof -
  have "unat (word_of_int (int i) :: u32) = i" using assms by (simp add: unat_of_nat take_bit_nat_eq_self)
  moreover have "unat (drop_bit k w) = drop_bit k (unat w)" for w :: u32
    using unsigned_less[of w, where 'a = nat] by (simp add: unsigned_drop_bit_eq take_bit_nat_eq_self)
  ultimately have "unat (drop_bit k (word_of_int (int i) :: u32)) = i div 2 ^ k" by (simp only: drop_bit_eq_div)
  then show ?thesis by (simp add: unsigned_ucast_eq take_bit_eq_mod)
qed

lemma escape_code_text:
  assumes "hex_law fc" "c < 0x110000"
  obtains ds where "escape_code fc (int c) = [CHR 0x5C, if c > 0xffff then CHR ''U'' else CHR ''u''] @ ds"
    "length ds = (if c > 0xffff then 8 else 4)" "list_all (\<lambda>d. hex_value d \<noteq> None) ds" "hex_number ds = c"
proof -
  let ?b = "\<lambda>k. to_hex fc (ucast (drop_bit (8 * k) (word_of_int (int c) :: u32)))"
  have b: "length (?b k) = 2" "list_all (\<lambda>d. hex_value d \<noteq> None) (?b k)" "hex_number (?b k) = c div 2 ^ (8 * k) mod 256" for k
    using assms byte_of_code[of c "8 * k"] by (auto simp: hex_law_def)
  consider "c \<le> 0xff" | "0xff < c" "c \<le> 0xffff" | "0xffff < c" by linarith
  then show thesis
  proof cases
    case 1
    then have "escape_code fc (int c) = [CHR 0x5C, CHR ''u''] @ ''00'' @ ?b 0" using b(1)[of 0] by (simp add: escape_code_def Let_def numeral_2_eq_2)
    then show thesis using that[of "''00'' @ ?b 0"] 1 b[of 0] by (simp add: hex_number_append hex_value_def) (simp add: hex_number_def hex_value_def)
  next
    case 2
    then have "escape_code fc (int c) = [CHR 0x5C, CHR ''u''] @ ?b 1 @ ?b 0" using b(1)[of 0] b(1)[of 1] by (simp add: escape_code_def Let_def)
    moreover have "c div 256 < 256" using 2 by (simp add: less_mult_imp_div_less)
    then have "hex_number (?b 1 @ ?b 0) = c" using b[of 0] b[of 1] by (simp add: hex_number_append)
    ultimately show thesis using that[of "?b 1 @ ?b 0"] 2 b(1,2)[of 0] b(1,2)[of 1] by simp
  next
    case 3
    have "c div 256 div 256 = c div 65536" using div_mult2_eq[of c 256 256] by simp
    then have sum: "(c div 65536 * 256 + c div 256 mod 256) * 256 + c mod 256 = c" by (metis div_mult_mod_eq)
    have "escape_code fc (int c) = [CHR 0x5C, CHR ''U''] @ ''00'' @ ?b 2 @ ?b 1 @ ?b 0"
      using 3 assms(2) b(1)[of 0] b(1)[of 1] b(1)[of 2] by (simp add: escape_code_def Let_def numeral_2_eq_2)
    moreover have "c div 65536 < 256" using assms(2) by (simp add: less_mult_imp_div_less)
    then have "hex_number (?b 2 @ ?b 1 @ ?b 0) = (c div 65536 * 256 + c div 256 mod 256) * 256 + c mod 256"
      using b(1,3)[of 0] b(1,3)[of 1] b(1,3)[of 2] by (simp add: hex_number_append)
    then have "hex_number (''00'' @ ?b 2 @ ?b 1 @ ?b 0) = c"
      unfolding sum hex_number_append[of "''00''"] by (simp add: hex_number_def[of "''00''"] hex_value_def)
    ultimately show thesis using that[of "''00'' @ ?b 2 @ ?b 1 @ ?b 0"] 3 b(1,2)[of 0] b(1,2)[of 1] b(1,2)[of 2] by (simp add: hex_value_def)
  qed
qed

lemma read_escape_code:
  assumes "hex_law fc" "scalar_value c"
  shows "read_estring (escape_code fc (int c) @ s) = (if c = 0 then None else map_option ((@) (utf8 c)) (read_estring s))"
proof -
  obtain ds where ds: "escape_code fc (int c) = [CHR 0x5C, if c > 0xffff then CHR ''U'' else CHR ''u''] @ ds"
    "length ds = (if c > 0xffff then 8 else 4)" "list_all (\<lambda>d. hex_value d \<noteq> None) ds" "hex_number ds = c"
    using escape_code_text[OF assms(1), of c] assms(2) by (auto simp: scalar_value_def)
  have "read_escape ((if c > 0xffff then CHR ''U'' else CHR ''u'') # ds @ s) = (if c = 0 then None else Some (utf8 c, s))"
    using ds(2-4) assms(2) by (simp add: read_escape_def read_code_def is_octal_def)
  then show ?thesis using ds(1) by simp
qed

lemma read_escape_wide:
  assumes "hex_law fc" "scalar_value c"
  shows "read_estring (escape_wide fc (int c) @ s) = (if c = 0 then None else map_option ((@) (utf8 c)) (read_estring s))"
proof (cases "0x20 \<le> c \<and> c \<le> 0x7E")
  case True
  then have "escape_wide fc (int c) = escape_ascii (char_of c)" "utf8 c = [char_of c]"
    by (auto simp: escape_wide_def escape_printable_def isprint_def utf8_ascii)
  moreover have "(@) [char_of c :: char] = (#) (char_of c)" by auto
  ultimately show ?thesis using True read_escape_ascii[of "char_of c" s] by simp
next
  case False
  then have "escape_wide fc (int c) = (if c = 0 then '' '' else []) @ escape_code fc (int c)"
    by (auto simp: escape_wide_def isprint_def)
  then show ?thesis using read_escape_code[OF assms, of s] by (cases "c = 0") simp_all
qed

lemma read_escapes_wide:
  assumes "hex_law fc"
  shows "list_all scalar_value cs \<Longrightarrow> read_estring (concat (map (escape_wide fc) (map int cs))) = (if 0 \<in> set cs then None else Some (utf8_text cs))"
  by (induction cs) (auto simp: read_escape_wide[OF assms])

lemma read_escapes_ascii: "all_printable_ascii t \<Longrightarrow> read_estring (concat (map escape_ascii t)) = Some t"
  by (induction t) (auto simp: all_printable_ascii_def read_escape_ascii)

lemma printable_text: "all_printable_ascii (utf8_text cs) \<Longrightarrow> list_all scalar_value cs \<Longrightarrow> 0 \<notin> set cs"
proof
  assume "all_printable_ascii (utf8_text cs)" "0 \<in> set cs"
  then have "list_all (\<lambda>ch. (of_char ch :: nat) \<ge> 0x20) (utf8_text cs)" "CHR 0x00 \<in> set (utf8_text cs)"
    by (auto simp: all_printable_ascii_def list_all_iff utf8_text_def utf8_ascii intro!: bexI[of _ 0])
  then show False by (auto simp: list_all_iff)
qed

lemma escape_sql_body:
  assumes "hex_law fc" "decoding_law fc" "list_all scalar_value cs"
  shows "\<exists>body. escape_sql fc (utf8_text cs) = [CHR ''E'', CHR 0x27] @ body @ [CHR 0x27]
    \<and> read_estring body = (if 0 \<in> set cs then None else Some (utf8_text cs))"
proof -
  consider "utf8_text cs = []" | "utf8_text cs \<noteq> []" "all_printable_ascii (utf8_text cs)" | "utf8_text cs \<noteq> []" "\<not> all_printable_ascii (utf8_text cs)" by blast
  then show ?thesis
  proof cases
    case 1
    then have "cs = []" using decode_utf8_text[OF assms(3)] by simp
    then show ?thesis by (simp add: escape_sql_def)
  next
    case 2
    then show ?thesis
      using read_escapes_ascii[OF 2(2)] printable_text[OF 2(2) assms(3)] by (simp add: escape_sql_def)
  next
    case 3
    then have "escape_sql fc (utf8_text cs) = [CHR ''E'', CHR 0x27] @ concat (map (escape_wide fc) (map int cs)) @ [CHR 0x27]"
      using assms(2,3) by (simp add: escape_sql_def decoding_law_def)
    then show ?thesis using read_escapes_wide[OF assms(1,3)] by blast
  qed
qed


subsection \<open>Columns\<close>

text \<open>The fields of a tuple: the texts between the commas that are outside of quotes.\<close>

fun split_top :: "bool \<Rightarrow> string \<Rightarrow> string list" where
  "split_top q [] = [[]]"
| "split_top q (c # s) =
     (if c = CHR '','' \<and> \<not> q then [] # split_top q s
      else let ws = split_top (if c = CHR 0x27 then \<not> q else q) s in (c # hd ws) # tl ws)"

text \<open>A text that leaves a scanner outside of quotes and has no comma there.\<close>

fun scan_field :: "bool \<Rightarrow> string \<Rightarrow> bool option" where
  "scan_field q [] = Some q"
| "scan_field q (c # s) = (if c = CHR '','' \<and> \<not> q then None else scan_field (if c = CHR 0x27 then \<not> q else q) s)"

definition closed_field :: "string \<Rightarrow> bool" where
  "closed_field s \<longleftrightarrow> scan_field False s = Some False"

lemma split_top_nonempty [simp]: "split_top q s \<noteq> []"
  by (cases s) (simp_all add: Let_def)

lemma split_top_scanned: "scan_field q s = Some r \<Longrightarrow> split_top q (s @ t) = (s @ hd (split_top r t)) # tl (split_top r t)"
  by (induction q s rule: scan_field.induct) (auto simp: Let_def split: if_splits)

lemma split_top_field: "closed_field s \<Longrightarrow> split_top False (s @ CHR '','' # t) = s # split_top False t"
  "closed_field s \<Longrightarrow> split_top False s = [s]"
  using split_top_scanned[of False s False "CHR '','' # t"] split_top_scanned[of False s False "[]"] by (simp_all add: closed_field_def)

lemma scan_field_append: "scan_field q (s @ t) = (case scan_field q s of None \<Rightarrow> None | Some r \<Rightarrow> scan_field r t)"
  by (induction q s rule: scan_field.induct) auto

lemma scan_quoted: "CHR 0x27 \<notin> set s \<Longrightarrow> scan_field True s = Some True"
  by (induction s) auto

lemma closed_quoted: "CHR 0x27 \<notin> set s \<Longrightarrow> closed_field (CHR 0x27 # s @ [CHR 0x27])"
  by (simp add: closed_field_def scan_field_append scan_quoted)

lemma closed_plain: "CHR 0x27 \<notin> set s \<Longrightarrow> CHR '','' \<notin> set s \<Longrightarrow> closed_field s"
  unfolding closed_field_def by (induction s) auto

lemma closed_append: "closed_field s \<Longrightarrow> closed_field t \<Longrightarrow> closed_field (s @ t)"
  by (simp add: closed_field_def scan_field_append)

definition column_names :: "string \<Rightarrow> string list" where
  "column_names cols = map (filter (\<lambda>c. c \<noteq> CHR '' '')) (split_top False cols)"

text \<open>The text of a value in a tuple.\<close>

fun value_text :: "fc_library \<Rightarrow> stream_value \<Rightarrow> string result" where
  "value_text fc (Number n) = Inr (int_to_string n)"
| "value_text fc (Hash h) = escape_raw h"
| "value_text fc (Time t) = Inr ([CHR 0x27] @ to_iso_string fc t @ [CHR 0x27])"
| "value_text fc (Text t) = Inr (escape_optional fc t)"
| "value_text fc (Signature s) = escape_raw_optional s"
| "value_text fc (Key k) = Inr ([CHR 0x27] @ key_to_string fc k @ [CHR 0x27])"
| "value_text fc (Optional_number n) = Inr (case n of Some i \<Rightarrow> int_to_string i | None \<Rightarrow> ''NULL'')"

text \<open>Times and keys are printed without quotes.\<close>

definition quoteless :: "fc_library \<Rightarrow> bool" where
  "quoteless fc \<longleftrightarrow> (\<forall>t. CHR 0x27 \<notin> set (to_iso_string fc t)) \<and> (\<forall>k. CHR 0x27 \<notin> set (key_to_string fc k))"

lemma closed_number: "closed_field (int_to_string n)"
proof -
  have "c \<noteq> CHR 0x27 \<and> c \<noteq> CHR '',''" if "c \<in> set (int_to_string n)" for c
    using that nat_to_string_digits by (fastforce simp: int_to_string_def is_digit_def split: if_splits)
  then show ?thesis by (intro closed_plain) auto
qed

lemma closed_hex: "sql_to_hex d = Inr t \<Longrightarrow> closed_field t"
proof -
  have "CHR 0x27 \<notin> set (hex_pairs c)" for c
  proof -
    have "n < 16 \<Longrightarrow> ''0123456789abcdef'' ! n \<in> set ''0123456789abcdef''" for n by (rule nth_mem) simp
    then have "set (hex_pairs c) \<subseteq> set ''0123456789abcdef''" by (simp add: hex_pairs_def Let_def less_mult_imp_div_less)
    then show ?thesis by auto
  qed
  then have "CHR 0x27 \<notin> set ([CHR 0x5C, CHR ''x''] @ concat (map hex_pairs s))" for s by auto
  then show "sql_to_hex d = Inr t \<Longrightarrow> closed_field t"
    using closed_quoted by (fastforce simp: sql_to_hex_def Let_def split: if_splits)
qed

lemma closed_escape:
  assumes "hex_law fc"
  shows "closed_field (escape_sql fc t)"
proof -
  have ascii: "CHR 0x27 \<notin> set (escape_ascii c)" for c by (auto simp: escape_ascii_def)
  have "CHR 0x27 \<notin> set (to_hex fc b)" for b
    using assms by (fastforce simp: hex_law_def list_all_iff hex_value_def)
  then have "CHR 0x27 \<notin> set (escape_code fc i)" for i by (auto simp: escape_code_def Let_def)
  then have wide: "CHR 0x27 \<notin> set (escape_wide fc i)" for i using ascii by (auto simp: escape_wide_def escape_printable_def)
  have E: "closed_field (CHR ''E'' # CHR 0x27 # s @ [CHR 0x27])" if "CHR 0x27 \<notin> set s" for s
    using closed_append[of "''E''"] closed_plain[of "''E''"] closed_quoted[OF that] by simp
  show ?thesis
    using E[of "[]"] E[of "concat (map escape_ascii t)"] E[of "concat (map (escape_wide fc) (decodeUtf8 fc t))"] ascii wide
    by (auto simp: escape_sql_def)
qed

lemma closed_value:
  assumes "hex_law fc" "quoteless fc" "value_text fc v = Inr t"
  shows "closed_field t"
proof (cases v)
  case (Time x)
  then show ?thesis using assms closed_quoted[of "to_iso_string fc x"] by (auto simp: quoteless_def)
next
  case (Key x)
  then show ?thesis using assms closed_quoted[of "key_to_string fc x"] by (auto simp: quoteless_def)
qed (use assms closed_number closed_hex closed_escape closed_plain[of "''NULL''"] in
    \<open>auto simp: escape_raw_def escape_raw_optional_def escape_optional_def split: option.splits\<close>)

fun value_texts :: "fc_library \<Rightarrow> stream_value list \<Rightarrow> string list result" where
  "value_texts fc [] = Inr []"
| "value_texts fc (v # vs) = rbind (value_text fc v) (\<lambda>t. rbind (value_texts fc vs) (\<lambda>ts. Inr (t # ts)))"

fun join_fields :: "string list \<Rightarrow> string" where
  "join_fields [] = []"
| "join_fields [t] = t"
| "join_fields (t # u # ts) = t @ CHR '','' # join_fields (u # ts)"

lemma split_joined: "list_all closed_field ts \<Longrightarrow> ts \<noteq> [] \<Longrightarrow> split_top False (join_fields ts) = ts"
  by (induction ts rule: join_fields.induct) (auto simp: split_top_field)

lemma value_texts_closed:
  assumes "hex_law fc" "quoteless fc"
  shows "value_texts fc vs = Inr ts \<Longrightarrow> list_all closed_field ts \<and> length ts = length vs"
  by (induction vs arbitrary: ts) (auto simp: rbind_eq_Inr_iff dest: closed_value[OF assms])

text \<open>A row is written as its values joined by commas.\<close>

definition joined_values :: "fc_library \<Rightarrow> stream_value list \<Rightarrow> string result" where
  "joined_values fc vs = rbind (value_texts fc vs) (\<lambda>ts. Inr (join_fields ts))"

lemma joined_values_split:
  assumes "hex_law fc" "quoteless fc" "joined_values fc vs = Inr t" "vs \<noteq> []"
  shows "value_texts fc vs = Inr (split_top False t)"
proof -
  obtain ts where ts: "value_texts fc vs = Inr ts" "t = join_fields ts"
    using assms(3) by (auto simp: joined_values_def rbind_eq_Inr_iff)
  moreover have "ts \<noteq> []" using value_texts_closed[OF assms(1,2) ts(1)] assms(4) by auto
  ultimately show ?thesis using value_texts_closed[OF assms(1,2) ts(1)] split_joined[of ts] by simp
qed

lemma nat_is_int_text: "nat_to_string (unat w) = int_to_string (uint w)"
  by (simp add: int_to_string_def)

lemma blocks_tuple_joined: "blocks_tuple fc data = joined_values fc (block_to_stream data)"
  unfolding blocks_tuple_def block_to_stream_def joined_values_def nat_is_int_text
  by (cases "escape_raw (hash data)"; cases "escape_raw (prev_hash data)"; cases "escape_raw (transaction_merkle_root data)";
      cases "escape_raw_optional (Some (witness_signature data))"; simp)

lemma transactions_tuple_joined: "transactions_tuple fc data = joined_values fc (transaction_to_stream data)"
  unfolding transactions_tuple_def transaction_to_stream_def joined_values_def nat_is_int_text
  by (cases "escape_raw (hash data)"; cases "escape_raw_optional (trx_signature data)"; simp)

lemma transactions_multisig_tuple_joined: "transactions_multisig_tuple data = joined_values fc (transaction_multisig_to_stream data)"
  unfolding transactions_multisig_tuple_def transaction_multisig_to_stream_def joined_values_def
  by (cases "escape_raw (hash data)"; cases "escape_raw_optional (Some (multisig_signature data))"; simp)

lemma accounts_tuple_joined:
  "0 \<le> block_number data \<Longrightarrow> block_number data < 2 ^ 31 \<Longrightarrow>
   Inr (accounts_tuple fc data) = joined_values fc (account_to_stream data)"
  by (simp add: unsigned_of_int take_bit_int_eq_self accounts_tuple_def account_to_stream_def joined_values_def escape_def escape_optional_def)

lemma account_operations_tuple_joined: "Inr (account_operations_tuple data) = joined_values fc (account_operation_to_stream data)"
  by (simp add: account_operations_tuple_def account_operation_to_stream_def joined_values_def)

lemma applied_hardforks_tuple_joined: "Inr (applied_hardforks_tuple data) = joined_values fc (applied_hardfork_to_stream data)"
  by (simp add: applied_hardforks_tuple_def applied_hardfork_to_stream_def joined_values_def)

lemma operations_tuple_split:
  assumes "hex_law fc" "operations_tuple fc data = Inr t"
  shows "\<exists>packed. escape_raw (pack_operation fc (op_body data)) = Inr packed
    \<and> split_top False t = [int_to_string (operation_id data), int_to_string (op_trx_in_block data), int_to_string (op_type_id data),
        int_to_string (op_in_trx data), CHR ''('' # packed @ ''::hafd.operation::jsonb)->'' @ [CHR 0x27] @ ''value'' @ [CHR 0x27],
        case custom_json_type_id data of Some i \<Rightarrow> int_to_string i | None \<Rightarrow> ''NULL'']"
proof -
  obtain packed where p: "escape_raw (pack_operation fc (op_body data)) = Inr packed"
    using assms(2) by (cases "escape_raw (pack_operation fc (op_body data))") (auto simp: operations_tuple_def)
  let ?body = "CHR ''('' # packed @ ''::hafd.operation::jsonb)->'' @ [CHR 0x27] @ ''value'' @ [CHR 0x27]"
  let ?cj = "case custom_json_type_id data of Some i \<Rightarrow> int_to_string i | None \<Rightarrow> ''NULL''"
  have "closed_field ([CHR ''(''] @ packed @ ''::hafd.operation::jsonb)->'' @ (CHR 0x27 # ''value'' @ [CHR 0x27]))"
  proof -
    have "closed_field packed" using closed_hex p by (simp add: escape_raw_def)
    moreover have "closed_field [CHR ''('']" "closed_field ''::hafd.operation::jsonb)->''" by (auto intro: closed_plain)
    moreover have "closed_field (CHR 0x27 # ''value'' @ [CHR 0x27])" by (rule closed_quoted) simp
    ultimately show ?thesis by (intro closed_append)
  qed
  then have body: "closed_field ?body" by simp
  have "closed_field ?cj" using closed_number closed_plain[of "''NULL''"] by (auto split: option.splits)
  then have "split_top False (join_fields [int_to_string (operation_id data), int_to_string (op_trx_in_block data), int_to_string (op_type_id data),
      int_to_string (op_in_trx data), ?body, ?cj]) = [int_to_string (operation_id data), int_to_string (op_trx_in_block data), int_to_string (op_type_id data),
      int_to_string (op_in_trx data), ?body, ?cj]"
    using body closed_number by (intro split_joined) simp_all
  then show ?thesis using assms(2) p by (auto simp: operations_tuple_def)
qed

lemma column_counts:
  "length (column_names blocks_COLS) = 17" "length (column_names transactions_COLS) = 8" "length (column_names transactions_multisig_COLS) = 2"
  "length (column_names operations_COLS) = 6" "length (column_names accounts_COLS) = 3" "length (column_names account_operations_COLS) = 5"
  "length (column_names applied_hardforks_COLS) = 3"
  by code_simp+

subsection \<open>Properties\<close>

text \<open>A library that satisfies the laws.\<close>

definition sample_hex :: "8 word \<Rightarrow> string" where
  "sample_hex b = [''0123456789abcdef'' ! (unat b div 16), ''0123456789abcdef'' ! (unat b mod 16)]"

definition sample_library :: fc_library where
  "sample_library = \<lparr>decodeUtf8 = (\<lambda>t. map int (decode_utf8 t)), to_hex = sample_hex, to_iso_string = (\<lambda>_. ''1970-01-01T00:00:00''),
     key_to_string = (\<lambda>_. ''STM8''), pack_operation = (\<lambda>b. b), operation_value_json = (\<lambda>b. b)\<rparr>"

lemma sample_digit: "n < 16 \<Longrightarrow> hex_value (''0123456789abcdef'' ! n) = Some n"
proof -
  have "list_all (\<lambda>n. hex_value (''0123456789abcdef'' ! n) = Some n) [0..<16]" by code_simp
  then show "n < 16 \<Longrightarrow> hex_value (''0123456789abcdef'' ! n) = Some n" by (simp add: list_all_iff)
qed

lemma sample_laws: "hex_law sample_library" "decoding_law sample_library" "quoteless sample_library"
proof -
  have "unat (b :: 8 word) div 16 < 16" for b using unsigned_less[of b, where 'a = nat] by (simp add: less_mult_imp_div_less)
  then show "hex_law sample_library"
    by (simp add: hex_law_def sample_library_def sample_hex_def hex_number_def sample_digit)
  show "decoding_law sample_library" by (simp add: decoding_law_def sample_library_def decode_utf8_text)
  show "quoteless sample_library" by (simp add: quoteless_def sample_library_def)
qed

text \<open>C10: Round trip.  The server reads a string literal as exactly the text it was made from: nothing in the text ends the literal or
  is changed, whichever of the two escaping routines was used.  The one exception is a text with a NUL character: its literal has a
  blank and the escape of the character, which the server rejects.\<close>

theorem string_literal_is_read_back:
  assumes "hex_law fc" "decoding_law fc" "list_all scalar_value cs"
  shows "\<exists>body. escape fc (utf8_text cs) = [CHR ''E'', CHR 0x27] @ body @ [CHR 0x27]
    \<and> read_estring body = (if 0 \<in> set cs then None else Some (utf8_text cs))"
  using escape_sql_body[OF assms] by (simp add: escape_def)

theorem string_literal_is_read_back_witness:
  "\<exists>body. escape sample_library (utf8_text [0x27, 0x20AC, 0x5C]) = [CHR ''E'', CHR 0x27] @ body @ [CHR 0x27]
    \<and> read_estring body = Some (utf8_text [0x27, 0x20AC, 0x5C])"
  using string_literal_is_read_back[OF sample_laws(1,2), of "[0x27, 0x20AC, 0x5C]"] by (simp add: scalar_value_def)

text \<open>C11: Equivalence of the two ways to write a row.  The fields of an INSERT tuple, between its top-level commas, are as many as the
  columns of the table and are the texts of the values of the COPY row, in the same order; in the tuple of an operation the
  body is the packed operation instead of its JSON text.  A row of an account must have a block number that is not negative:
  COPY writes that number unsigned.  Of the library is assumed that a byte becomes two hexadecimal digits and that texts of times
  and keys have no quote.\<close>

theorem tuples_agree_with_copy_rows:
  assumes "hex_law fc" "quoteless fc"
  shows "(blocks_tuple fc b = Inr t \<longrightarrow> value_texts fc (block_to_stream b) = Inr (split_top False t) \<and> length (split_top False t) = length (column_names blocks_COLS))
    \<and> (transactions_tuple fc x = Inr t \<longrightarrow> value_texts fc (transaction_to_stream x) = Inr (split_top False t) \<and> length (split_top False t) = length (column_names transactions_COLS))
    \<and> (transactions_multisig_tuple m = Inr t \<longrightarrow> value_texts fc (transaction_multisig_to_stream m) = Inr (split_top False t) \<and> length (split_top False t) = length (column_names transactions_multisig_COLS))
    \<and> (operations_tuple fc p = Inr t \<longrightarrow> (\<exists>body packed texts. escape_raw (pack_operation fc (op_body p)) = Inr packed \<and> body = CHR ''('' # packed @ ''::hafd.operation::jsonb)->'' @ [CHR 0x27] @ ''value'' @ [CHR 0x27]
          \<and> value_texts fc (operation_to_stream fc p) = Inr texts \<and> split_top False t = texts[4 := body] \<and> length texts = length (column_names operations_COLS)))
    \<and> (0 \<le> block_number a \<and> block_number a < 2 ^ 31 \<longrightarrow> value_texts fc (account_to_stream a) = Inr (split_top False (accounts_tuple fc a)))
    \<and> length (account_to_stream a) = length (column_names accounts_COLS)
    \<and> value_texts fc (account_operation_to_stream ao) = Inr (split_top False (account_operations_tuple ao)) \<and> length (account_operation_to_stream ao) = length (column_names account_operations_COLS)
    \<and> value_texts fc (applied_hardfork_to_stream h) = Inr (split_top False (applied_hardforks_tuple h)) \<and> length (applied_hardfork_to_stream h) = length (column_names applied_hardforks_COLS)"
proof -
  note split = joined_values_split[OF assms] and size = value_texts_closed[OF assms]
  have "value_texts fc (block_to_stream b) = Inr (split_top False t) \<and> length (split_top False t) = 17" if "blocks_tuple fc b = Inr t"
    using split[of "block_to_stream b" t] size[of "block_to_stream b"] that unfolding blocks_tuple_joined by (simp add: block_to_stream_def)
  moreover have "value_texts fc (transaction_to_stream x) = Inr (split_top False t) \<and> length (split_top False t) = 8" if "transactions_tuple fc x = Inr t"
    using split[of "transaction_to_stream x" t] size[of "transaction_to_stream x"] that unfolding transactions_tuple_joined by (simp add: transaction_to_stream_def)
  moreover have "value_texts fc (transaction_multisig_to_stream m) = Inr (split_top False t) \<and> length (split_top False t) = 2" if "transactions_multisig_tuple m = Inr t"
    using split[of "transaction_multisig_to_stream m" t] size[of "transaction_multisig_to_stream m"] that
    unfolding transactions_multisig_tuple_joined[of m fc] by (simp add: transaction_multisig_to_stream_def)
  moreover have "value_texts fc (account_to_stream a) = Inr (split_top False (accounts_tuple fc a))"
    if "0 \<le> block_number a" "block_number a < 2 ^ 31"
    using split[OF accounts_tuple_joined[OF that, symmetric]] by (simp add: account_to_stream_def)
  moreover have "value_texts fc (account_operation_to_stream ao) = Inr (split_top False (account_operations_tuple ao))"
    using split[OF account_operations_tuple_joined[symmetric]] by (simp add: account_operation_to_stream_def)
  moreover have "value_texts fc (applied_hardfork_to_stream h) = Inr (split_top False (applied_hardforks_tuple h))"
    using split[OF applied_hardforks_tuple_joined[symmetric]] by (simp add: applied_hardfork_to_stream_def)
  moreover have "\<exists>body packed texts. escape_raw (pack_operation fc (op_body p)) = Inr packed \<and> body = CHR ''('' # packed @ ''::hafd.operation::jsonb)->'' @ [CHR 0x27] @ ''value'' @ [CHR 0x27]
      \<and> value_texts fc (operation_to_stream fc p) = Inr texts \<and> split_top False t = texts[4 := body] \<and> length texts = 6" if "operations_tuple fc p = Inr t"
    using operations_tuple_split[OF assms(1) that] by (auto simp: operation_to_stream_def Let_def)
  ultimately show ?thesis
    unfolding column_counts by (simp add: account_to_stream_def account_operation_to_stream_def applied_hardfork_to_stream_def)
qed

definition sample_account :: account_data_t where
  "sample_account = \<lparr>block_number = 0, account_data_id = 7, account_data_name = ''o,neil''\<rparr>"

theorem tuples_agree_with_copy_rows_witness:
  "value_texts sample_library (account_to_stream sample_account) = Inr (split_top False (accounts_tuple sample_library sample_account))"
  using tuples_agree_with_copy_rows[OF sample_laws(1,3), where a = sample_account] by (simp add: sample_account_def)

text \<open>C15: Both versions of the removal of NUL escapes, the one of the plugin that works in place and the one of the database that copies,
  remove from a JSON text exactly the escapes of the NUL character, and keep an escaped backslash that is followed by \<open>u0000\<close>.\<close>

theorem only_null_escapes_are_stripped:
  assumes "list_all wf_piece ps" "length fresh = length (pieces_text ps)"
  shows "strip_json_null_escapes (pieces_text ps) = pieces_text (filter (\<lambda>p. p \<noteq> Coded ''0000'') ps)
    \<and> strip_json_null_escapes_sql fresh (pieces_text ps) = strip_json_null_escapes (pieces_text ps)"
  using strip_pieces[OF assms(1), of "[]"] strip_sql_is_list[OF assms(2)] by (simp add: strip_is_list)

theorem only_null_escapes_are_stripped_witness:
  "strip_json_null_escapes (pieces_text [Plain (CHR ''a''), Coded ''0000'', Escaped (CHR 0x5C), Plain (CHR ''u''), Plain (CHR ''0'')])
    = pieces_text [Plain (CHR ''a''), Escaped (CHR 0x5C), Plain (CHR ''u''), Plain (CHR ''0'')]"
  using only_null_escapes_are_stripped[of "[Plain (CHR ''a''), Coded ''0000'', Escaped (CHR 0x5C), Plain (CHR ''u''), Plain (CHR ''0'')]" "''***********''"]
  by (simp add: pieces_text_def)

end
