(* ===== verification/Pqxx_Conversions.thy ===== *)
theory Pqxx_Conversions
  imports Decimal "HOL-Library.Monad_Syntax"
begin

text \<open>
  The texts of hashes, signatures, operations, public keys and times that are sent to the database
  (\<open>pqxx_conversions.hpp\<close>): hexadecimal data, base 58 and calendar dates.

  A buffer is a list of bytes, a pointer an index relative to the beginning of the buffer.  A read or write outside
  of the buffer is the value \<open>None\<close>, so a lemma that a conversion gives \<open>Some\<close> says that it stays in its buffer and that
  its loops end.  The integers have the width of the code.  The hash function, the prefix of keys and the
  binary form of an operation are arguments.
\<close>

unbundle bit_operations_syntax

type_synonym byte = "8 word"

definition chr :: "char \<Rightarrow> byte" where
  "chr c = of_nat (of_char c)"

definition get :: "byte list \<Rightarrow> int \<Rightarrow> byte option" where
  "get buf i = (if 0 \<le> i \<and> i < int (length buf) then Some (buf ! nat i) else None)"

definition put :: "byte list \<Rightarrow> int \<Rightarrow> byte \<Rightarrow> byte list option" where
  "put buf i b = (if 0 \<le> i \<and> i < int (length buf) then Some (buf[nat i := b]) else None)"

definition conversion_overrun :: "string \<Rightarrow> haf_error" where
  "conversion_overrun what = Sql_failure (''Could not write '' @ what @ '': buffer too small.'')"

text \<open>What a conversion does in the buffer: leaving the buffer is an error of its own.\<close>

definition in_buffer :: "'a option \<Rightarrow> 'a result" where
  "in_buffer r = (case r of None \<Rightarrow> Inl Out_of_range | Some x \<Rightarrow> Inr x)"


subsection \<open>Hexadecimal data\<close>

definition size_esc_bin :: "nat \<Rightarrow> nat" where
  "size_esc_bin binary_bytes = 2 + (2 * binary_bytes) + 1"

definition hex_digits :: "char list" where
  "hex_digits = ''0123456789abcdef''"

text \<open>The table of 16-bit numbers: the first digit in the low half, which a copy of two bytes puts first.\<close>

definition hex_lut :: "byte \<Rightarrow> 16 word" where
  "hex_lut i = (let lo = chr (hex_digits ! unat (i AND 0x0f)); hi = chr (hex_digits ! unat (drop_bit 4 i))
     in ucast hi OR push_bit 8 (ucast lo))"

definition nibble :: "int \<Rightarrow> int" where
  "nibble c =
     (if c \<ge> 48 \<and> c \<le> 57 then c - 48
      else if c \<ge> 97 \<and> c \<le> 102 then 10 + (c - 97)
      else if c \<ge> 65 \<and> c \<le> 70 then 10 + (c - 65)
      else -1)"

fun esc_bytes :: "byte list \<Rightarrow> int \<Rightarrow> byte list \<Rightarrow> byte list option" where
  "esc_bytes [] here buf = put buf here 0"
| "esc_bytes (uc # data) here buf =
     do { buf \<leftarrow> put buf here (ucast (hex_lut uc));
          buf \<leftarrow> put buf (here + 1) (ucast (drop_bit 8 (hex_lut uc)));
          esc_bytes data (here + 2) buf }"

definition esc_bin :: "byte list \<Rightarrow> byte list \<Rightarrow> byte list option" where
  "esc_bin binary_data buf =
     do { buf \<leftarrow> put buf 0 (chr (CHR 0x5C));
          buf \<leftarrow> put buf 1 (chr CHR ''x'');
          esc_bytes binary_data 2 buf }"

text \<open>Reading: the bytes of the text are signed characters.\<close>

fun unesc_bytes :: "byte list \<Rightarrow> int \<Rightarrow> byte list \<Rightarrow> byte list result" where
  "unesc_bytes (a # b # rest) out buf =
     (let hi = nibble (sint a); lo = nibble (sint b) in
      if hi < 0 then Inl (Sql_failure ''Invalid hex-escaped data.'')
      else if lo < 0 then Inl (Sql_failure ''Invalid hex-escaped data.'')
      else rbind (in_buffer (put buf out (word_of_int (push_bit 4 hi OR lo)))) (unesc_bytes rest (out + 1)))"
| "unesc_bytes _ out buf = Inr buf"

definition unesc_bin :: "byte list \<Rightarrow> byte list \<Rightarrow> byte list result" where
  "unesc_bin escaped_data buf =
     (if length escaped_data < 2 then Inl (Sql_failure ''Binary data appears truncated.'')
      else if length escaped_data mod 2 \<noteq> 0 then Inl (Sql_failure ''Invalid escaped binary length.'')
      else if escaped_data ! 0 \<noteq> chr (CHR 0x5C) \<or> escaped_data ! 1 \<noteq> chr CHR ''x''
        then Inl (Sql_failure ''Escaped binary data did not start with x'')
      else unesc_bytes (drop 2 escaped_data) 0 buf)"

text \<open>\<open>into_buf\<close> gives the buffer and the end of what was written.\<close>

definition ripemd160_into_buf :: "byte list \<Rightarrow> byte list \<Rightarrow> (byte list \<times> nat) result" where
  "ripemd160_into_buf value buf =
     (if length buf < size_esc_bin 20 then Inl (conversion_overrun ''fc::ripemd160'')
      else in_buffer (do { buf \<leftarrow> esc_bin value buf; Some (buf, size_esc_bin 20) }))"

text \<open>The bytes of the fresh object that is filled are an argument.\<close>

definition ripemd160_from_string :: "byte list \<Rightarrow> byte list \<Rightarrow> byte list result" where
  "ripemd160_from_string fresh txt = unesc_bin txt fresh"

definition signature_into_buf :: "byte list \<Rightarrow> byte list \<Rightarrow> (byte list \<times> nat) result" where
  "signature_into_buf value buf =
     (if length buf < size_esc_bin 65 then Inl (conversion_overrun ''fc::ecc::compact_signature'')
      else in_buffer (do { buf \<leftarrow> esc_bin value buf; Some (buf, size_esc_bin 65) }))"

definition signature_from_string :: "byte list \<Rightarrow> byte list \<Rightarrow> byte list result" where
  "signature_from_string fresh txt = unesc_bin txt fresh"

text \<open>An operation is serialized to the beginning of the buffer and then encoded in place, from its last byte
  on; the first argument counts the bytes that are left.\<close>

fun encode_backwards :: "nat \<Rightarrow> int \<Rightarrow> int \<Rightarrow> byte list \<Rightarrow> (int \<times> byte list) option" where
  "encode_backwards 0 raw_pointer cooked_pointer buf = Some (cooked_pointer, buf)"
| "encode_backwards (Suc n) raw_pointer cooked_pointer buf =
     do { as_unsigned \<leftarrow> get buf raw_pointer;
          let pair = hex_lut as_unsigned;
          buf \<leftarrow> put buf cooked_pointer (ucast (drop_bit 8 pair));
          buf \<leftarrow> put buf (cooked_pointer - 1) (ucast (pair AND 0xff));
          encode_backwards n (raw_pointer - 1) (cooked_pointer - 2) buf }"

definition operation_into_buf :: "byte list \<Rightarrow> byte list \<Rightarrow> (byte list \<times> nat) result" where
  "operation_into_buf packed buf =
     (let raw_size = length packed in
      if length buf < raw_size then Inl (conversion_overrun ''hive::protocol::operation'')
      else if length buf < size_esc_bin raw_size then Inl (conversion_overrun ''hive::protocol::operation'')
      else in_buffer (
        let end_of_data = raw_size * 2 + 3; null_terminator = int end_of_data - 1 in
        do { buf \<leftarrow> put (packed @ drop raw_size buf) null_terminator 0;
             (cooked_pointer, buf) \<leftarrow> encode_backwards raw_size (int raw_size - 1) (null_terminator - 1) buf;
             buf \<leftarrow> put buf cooked_pointer (chr CHR ''x'');
             buf \<leftarrow> put buf (cooked_pointer - 1) (chr (CHR 0x5C));
             Some (buf, end_of_data) }))"


subsection \<open>Public keys in base 58\<close>

definition b58_alphabet :: string where
  "b58_alphabet = ''123456789ABCDEFGHJKLMNPQRSTUVWXYZabcdefghijkmnopqrstuvwxyz''"

text \<open>The loops of \<open>encode\<close>.  The digits of the number so far are in the buffer behind \<open>b58_begin_minus1\<close>.\<close>

partial_function (option) multiply_digits :: "int \<Rightarrow> u64 \<Rightarrow> int \<Rightarrow> u64 \<Rightarrow> byte list \<Rightarrow> (int \<times> u64 \<times> byte list) option" where
  "multiply_digits b58_begin_minus1 multiplier it carry buf =
     (if it > b58_begin_minus1
      then do { d \<leftarrow> get buf it;
                let carry = carry + multiplier * ucast d;
                buf \<leftarrow> put buf it (ucast (carry mod 58));
                multiply_digits b58_begin_minus1 multiplier (it - 1) (carry div 58) buf }
      else Some (it, carry, buf))"

partial_function (option) finish_unrolled :: "int \<Rightarrow> u64 \<Rightarrow> byte list \<Rightarrow> (int \<times> u64 \<times> byte list) option" where
  "finish_unrolled it carry buf =
     (if carry > 58 * 58
      then do { buf \<leftarrow> put buf it (ucast (carry mod 58));
                let carry = carry div 58;
                buf \<leftarrow> put buf (it - 1) (ucast (carry mod 58));
                let carry = carry div 58;
                buf \<leftarrow> put buf (it - 2) (ucast (carry mod 58));
                finish_unrolled (it - 3) (carry div 58) buf }
      else Some (it, carry, buf))"

partial_function (option) finish_carry :: "int \<Rightarrow> u64 \<Rightarrow> byte list \<Rightarrow> (int \<times> byte list) option" where
  "finish_carry it carry buf =
     (if carry \<noteq> 0
      then do { buf \<leftarrow> put buf it (ucast (carry mod 58));
                finish_carry (it - 1) (carry div 58) buf }
      else Some (it, buf))"

definition take_bytes :: "byte list \<Rightarrow> u64" where
  "take_bytes bytes = foldl (\<lambda>carry b. push_bit 8 carry + ucast b) 0 bytes"

partial_function (option) process_bytes :: "byte list \<Rightarrow> nat \<Rightarrow> int \<Rightarrow> int \<Rightarrow> byte list \<Rightarrow> (int \<times> byte list) option" where
  "process_bytes input num_bytes_to_process b58_end b58_begin_minus1 buf =
     (if input = [] then Some (b58_begin_minus1, buf)
      else do {
        let carry = take_bytes (take num_bytes_to_process input);
        let multiplier = push_bit (num_bytes_to_process * 8) 1;
        (it, carry, buf) \<leftarrow> multiply_digits b58_begin_minus1 multiplier (b58_end - 1) carry buf;
        (it, carry, buf) \<leftarrow> finish_unrolled it carry buf;
        (it, buf) \<leftarrow> finish_carry it carry buf;
        process_bytes (drop num_bytes_to_process input) 7 b58_end it buf })"

partial_function (option) translate_digits :: "int \<Rightarrow> int \<Rightarrow> int \<Rightarrow> byte list \<Rightarrow> (int \<times> byte list) option" where
  "translate_digits b58_end it b58_text_it buf =
     (if it < b58_end
      then do { d \<leftarrow> get buf it;
                c \<leftarrow> (if unat d < length b58_alphabet then Some (b58_alphabet ! unat d) else None);
                buf \<leftarrow> put buf b58_text_it (chr c);
                translate_digits b58_end (it + 1) (b58_text_it + 1) buf }
      else Some (b58_text_it, buf))"

definition expected_encoded_size :: "u64 \<Rightarrow> u64" where
  "expected_encoded_size input_size = drop_bit 8 (input_size * 350) + 1"

text \<open>Gives the buffer and the position after the terminating zero.\<close>

definition encode :: "byte list \<Rightarrow> byte list \<Rightarrow> (int \<times> byte list) option" where
  "encode input_data buf =
     (let input = dropWhile (\<lambda>b. b = 0) input_data;
          input_size = of_nat (length input) :: u64;
          b58_end = uint (expected_encoded_size input_size);
          num_bytes_to_process = unat ((input_size - 1) mod 7 + 1)
      in do {
        (b58_begin_minus1, buf) \<leftarrow> process_bytes input num_bytes_to_process b58_end (b58_end - 1) buf;
        (b58_text_it, buf) \<leftarrow> translate_digits b58_end (b58_begin_minus1 + 1) 0 buf;
        buf \<leftarrow> put buf b58_text_it 0;
        Some (b58_text_it + 1, buf) })"

definition public_key_size_buffer :: "byte list \<Rightarrow> nat" where
  "public_key_size_buffer HIVE_ADDRESS_PREFIX = 51 + length HIVE_ADDRESS_PREFIX + 1"

text \<open>The check sum is copied as the machine stores it, its low byte first.\<close>

definition u32_bytes :: "u32 \<Rightarrow> byte list" where
  "u32_bytes w = [ucast w, ucast (drop_bit 8 w), ucast (drop_bit 16 w), ucast (drop_bit 24 w)]"

definition public_key_into_buf :: "(byte list \<Rightarrow> u32) \<Rightarrow> byte list \<Rightarrow> byte list \<Rightarrow> byte list \<Rightarrow> (byte list \<times> nat) result" where
  "public_key_into_buf hash HIVE_ADDRESS_PREFIX key_data buf =
     (let prefix_length = length HIVE_ADDRESS_PREFIX in
      if length buf < public_key_size_buffer HIVE_ADDRESS_PREFIX then Inl (conversion_overrun ''hive::protocol::public_key_type'')
      else in_buffer (do {
        (end_of_text, written) \<leftarrow> encode (key_data @ u32_bytes (hash key_data)) (drop prefix_length buf);
        Some (HIVE_ADDRESS_PREFIX @ written, prefix_length + nat end_of_text) }))"


subsection \<open>Times\<close>

definition to_ymd_hms :: "u32 \<Rightarrow> u32 \<times> u32 \<times> u32 \<times> u32 \<times> u32 \<times> u32" where
  "to_ymd_hms seconds_since_epoch =
     (let z = seconds_since_epoch div 86400 + 719468;
          era = z div 146097;
          doe = z - era * 146097;
          yoe = (doe - doe div 1460 + doe div 36524 - doe div 146096) div 365;
          y = yoe + era * 400;
          doy = doe - (365 * yoe + yoe div 4 - yoe div 100);
          mp = (5 * doy + 2) div 153;
          d = doy - (153 * mp + 2) div 5 + 1;
          m = mp + (if mp < 10 then 3 else -9);
          seconds_since_day = seconds_since_epoch mod 86400;
          hours = seconds_since_day div 3600;
          seconds_since_hour = seconds_since_day mod 3600;
          minutes = seconds_since_hour div 60;
          seconds = seconds_since_hour mod 60
      in (y + (if m \<le> 2 then 1 else 0), m, d, hours, minutes, seconds))"

text \<open>The table of \<open>write_two_digits\<close>, the numbers from 00 to 99; an index behind it is outside of the table.\<close>

definition two_digits_table :: string where
  "two_digits_table = concat (map (\<lambda>n. [digit_char (n div 10), digit_char (n mod 10)]) [0..<100])"

definition write_two_digits :: "int \<Rightarrow> u32 \<Rightarrow> byte list \<Rightarrow> byte list option" where
  "write_two_digits s n buf =
     do { digits \<leftarrow> (if 2 * unat n + 1 < length two_digits_table then Some (drop (2 * unat n) two_digits_table) else None);
          buf \<leftarrow> put buf s (chr (digits ! 0));
          put buf (s + 1) (chr (digits ! 1)) }"

definition time_into_buf :: "u32 \<Rightarrow> byte list \<Rightarrow> (byte list \<times> nat) result" where
  "time_into_buf sec_since_epoch buf =
     (if length buf < 20 then Inl (conversion_overrun ''fc::time_point_sec'')
      else case to_ymd_hms sec_since_epoch of (year, month, day, hour, minute, second) \<Rightarrow>
        in_buffer (do {
          buf \<leftarrow> write_two_digits 0 (year div 100) buf;
          buf \<leftarrow> write_two_digits 2 (year mod 100) buf;
          buf \<leftarrow> put buf 4 (chr CHR ''-'');
          buf \<leftarrow> write_two_digits 5 month buf;
          buf \<leftarrow> put buf 7 (chr CHR ''-'');
          buf \<leftarrow> write_two_digits 8 day buf;
          buf \<leftarrow> put buf 10 (chr CHR ''T'');
          buf \<leftarrow> write_two_digits 11 hour buf;
          buf \<leftarrow> put buf 13 (chr CHR '':'');
          buf \<leftarrow> write_two_digits 14 minute buf;
          buf \<leftarrow> put buf 16 (chr CHR '':'');
          buf \<leftarrow> write_two_digits 17 second buf;
          buf \<leftarrow> put buf 19 0;
          Some (buf, 20) }))"

end
