(* ===== verification/Hex_Texts.thy ===== *)
theory Hex_Texts
  imports Pqxx_Conversions
begin

text \<open>
  The hexadecimal texts of hashes, signatures and operations: every conversion stays in its buffer and writes the
  text of a plain description of the format, also the one that encodes in place; reading gives the bytes back.
\<close>

named_theorems buffer_simps "accesses to a buffer at a known place"

lemma put_at [buffer_simps]: "i = int (length xs) \<Longrightarrow> put (xs @ y # ys) i v = Some (xs @ v # ys)"
  by (simp add: put_def)

lemma get_at [buffer_simps]: "i = int (length xs) \<Longrightarrow> get (xs @ y # ys) i = Some y"
  by (simp add: get_def)

lemma split_at:
  assumes "i < length xs"
  obtains u g where "xs = u @ g # drop (Suc i) xs" "length u = i"
  using id_take_nth_drop[OF assms] assms by (metis length_take min.absorb4)

lemma put_within: "i < length buf \<Longrightarrow> put buf (int i) v = Some (buf[i := v])"
  by (simp add: put_def)


lemma unat_chr [simp]: "unat (chr c) = of_char c"
  by (simp add: chr_def unat_of_nat take_bit_nat_eq_self)

lemma chr_inject [simp]: "chr c = chr d \<longleftrightarrow> c = d"
  by (auto simp: word_unat_eq_iff)


subsection \<open>Hexadecimal data\<close>

definition hex_pair :: "byte \<Rightarrow> byte list" where
  "hex_pair b = [chr (hex_digits ! unat (drop_bit 4 b)), chr (hex_digits ! unat (b AND 0x0f))]"

definition hex_text :: "byte list \<Rightarrow> byte list" where
  "hex_text data = [chr (CHR 0x5C), chr CHR ''x''] @ concat (map hex_pair data)"

lemma length_hex_pairs [simp]: "length (concat (map hex_pair data)) = 2 * length data"
  by (induction data) (auto simp: hex_pair_def)

lemma length_hex_text [simp]: "length (hex_text data) = 2 * length data + 2"
  by (simp add: hex_text_def)

lemma low_half: "(ucast (ucast (a :: byte) OR push_bit 8 (ucast (b :: byte)) :: 16 word) :: byte) = a"
  by (rule bit_word_eqI) (auto simp: bit_simps)

lemma high_half: "(ucast (drop_bit 8 (ucast (a :: byte) OR push_bit 8 (ucast (b :: byte)) :: 16 word)) :: byte) = b"
  by (rule bit_word_eqI) (auto simp: bit_simps dest: bit_imp_le_length)

lemma low_half_masked: "(ucast ((w :: 16 word) AND 0xff) :: byte) = ucast w"
proof -
  have "w AND 0xff = take_bit 8 w" by (simp add: take_bit_eq_mask mask_eq_exp_minus_1)
  then show ?thesis by (auto intro!: bit_word_eqI simp: bit_simps)
qed

lemma hex_lut_pair: "[ucast (hex_lut b), ucast (drop_bit 8 (hex_lut b))] = hex_pair b"
  unfolding hex_lut_def hex_pair_def Let_def low_half high_half ..

lemma esc_bytes_writes:
  assumes "length gap = 2 * length data + 1"
  shows "esc_bytes data (int (length front)) (front @ gap @ rest) = Some (front @ concat (map hex_pair data) @ 0 # rest)"
  using assms
proof (induction data arbitrary: front gap)
  case Nil
  then obtain g where "gap = [g]" by (cases gap) auto
  then show ?case by (simp add: buffer_simps)
next
  case (Cons b data)
  then obtain g h gap' where g: "gap = g # h # gap'" "length gap' = 2 * length data + 1"
    by (cases gap; cases "tl gap") auto
  let ?x = "ucast (hex_lut b) :: byte" and ?y = "ucast (drop_bit 8 (hex_lut b)) :: byte"
  have "esc_bytes (b # data) (int (length front)) (front @ gap @ rest)
    = esc_bytes data (int (length (front @ [?x, ?y]))) ((front @ [?x, ?y]) @ gap' @ rest)"
    using put_at[of "int (length front) + 1" "front @ [?x]" h "gap' @ rest" ?y] by (simp add: g(1) buffer_simps algebra_simps)
  then show ?case
    using Cons.IH[OF g(2), of "front @ [?x, ?y]"] by (simp add: hex_lut_pair[of b, symmetric])
qed

lemma esc_bin_writes:
  assumes "size_esc_bin (length data) \<le> length buf"
  shows "esc_bin data buf = Some (hex_text data @ 0 # drop (size_esc_bin (length data)) buf)"
proof -
  let ?n = "2 * length data + 1"
  obtain a b c where buf: "buf = a # b # c" "?n \<le> length c"
    using assms by (cases buf; cases "tl buf") (auto simp: size_esc_bin_def)
  have "put (chr (CHR 0x5C) # b # c) 1 (chr CHR ''x'') = Some ([chr (CHR 0x5C), chr CHR ''x''] @ c)"
    using put_at[of 1 "[chr (CHR 0x5C)]" b c] by simp
  moreover have "put buf 0 (chr (CHR 0x5C)) = Some (chr (CHR 0x5C) # b # c)"
    using put_at[of 0 "[]" a "b # c"] by (simp add: buf(1))
  ultimately show ?thesis
    using esc_bytes_writes[of "take ?n c" data "[chr (CHR 0x5C), chr CHR ''x'']" "drop ?n c"] buf(2)
    by (simp add: esc_bin_def buf(1) size_esc_bin_def hex_text_def)
qed

lemma encode_backwards_writes:
  assumes "length packed + 2 \<le> length rest"
  shows "encode_backwards (length packed) (int (length packed) - 1) (2 * int (length packed) + 1) (packed @ rest)
    = Some (1, take 2 (packed @ rest) @ concat (map hex_pair packed) @ drop (length packed + 2) rest)"
  using assms
proof (induction packed arbitrary: rest rule: rev_induct)
  case Nil
  then show ?case using append_take_drop_id[of 2 rest] by (simp add: numeral_2_eq_2)
next
  case (snoc b packed)
  let ?k = "length packed"
  let ?x = "ucast (hex_lut b) :: byte" and ?y = "ucast (drop_bit 8 (hex_lut b)) :: byte"
  have "rest = take (?k + 1) rest @ rest ! (?k + 1) # rest ! (?k + 2) # drop (?k + 3) rest"
    using snoc.prems by (simp add: Cons_nth_drop_Suc numeral_3_eq_3)
  moreover have "length (take (?k + 1) rest) = ?k + 1" using snoc.prems by simp
  ultimately obtain u g h v where r: "rest = u @ g # h # v" "length u = ?k + 1" by blast
  have "encode_backwards (length (packed @ [b])) (int (length (packed @ [b])) - 1) (2 * int (length (packed @ [b])) + 1) ((packed @ [b]) @ rest)
    = encode_backwards ?k (int ?k - 1) (2 * int ?k + 1) (packed @ (b # u @ ?x # ?y # v))"
    using put_at[of "2 * int ?k + 3" "packed @ b # u @ [g]" h v ?y] put_at[of "2 * int ?k + 2" "packed @ b # u" g "?y # v" ?x]
      get_at[of "int ?k" packed b rest]
    by (simp add: r algebra_simps low_half_masked Let_def)
  also have "\<dots> = Some (1, take 2 (packed @ b # u @ ?x # ?y # v) @ concat (map hex_pair packed) @ ?x # ?y # v)"
    using snoc.IH[of "b # u @ ?x # ?y # v"] by (simp add: r(2))
  also have "take 2 (packed @ b # u @ ?x # ?y # v) = take 2 ((packed @ [b]) @ rest)"
    using r by (cases packed; cases "tl packed"; cases u) auto
  finally show ?case
    using hex_lut_pair[of b, symmetric] r by simp
qed

lemma operation_into_buf_writes:
  assumes "size_esc_bin (length packed) \<le> length buf"
  shows "operation_into_buf packed buf
    = Inr (hex_text packed @ 0 # drop (size_esc_bin (length packed)) buf, size_esc_bin (length packed))"
proof -
  let ?n = "length packed" and ?h = "concat (map hex_pair packed)" and ?rest = "drop (size_esc_bin (length packed)) buf"
  let ?start = "drop ?n buf"
  have "drop (Suc (?n + 2)) ?start = ?rest" by (simp add: size_esc_bin_def mult_2)
  then obtain u g where u: "?start = u @ g # ?rest" "length u = ?n + 2"
    using assms by (auto intro: split_at[of "?n + 2" ?start] simp: size_esc_bin_def)
  have terminated: "put (packed @ ?start) (int (?n * 2 + 3) - 1) 0 = Some (packed @ u @ 0 # ?rest)"
    using put_at[of "int (?n * 2 + 3) - 1" "packed @ u" g ?rest 0] u by simp
  obtain a b where ab: "take 2 (packed @ u @ 0 # ?rest) = [a, b]"
    using u(2) by (cases packed; cases "tl packed"; cases u; cases "tl u") auto
  have encoded: "encode_backwards ?n (int ?n - 1) (2 * int ?n + 1) (packed @ u @ 0 # ?rest) = Some (1, [a, b] @ ?h @ 0 # ?rest)"
    using encode_backwards_writes[of packed "u @ 0 # ?rest"] u(2) ab by simp
  have "put (a # b # ?h @ 0 # ?rest) 1 (chr CHR ''x'') = Some (a # chr CHR ''x'' # ?h @ 0 # ?rest)"
    using put_at[of 1 "[a]" b] by simp
  moreover have "put (a # chr CHR ''x'' # ?h @ 0 # ?rest) 0 (chr (CHR 0x5C)) = Some (hex_text packed @ 0 # ?rest)"
    using put_at[of 0 "[]" a] by (simp add: hex_text_def)
  ultimately show ?thesis
    using assms terminated encoded by (simp add: operation_into_buf_def size_esc_bin_def Let_def in_buffer_def algebra_simps)
qed

lemma nibble_of_digit:
  assumes "n < 16"
  shows "nibble (sint (chr (hex_digits ! n))) = int n"
proof -
  have "list_all (\<lambda>n. nibble (sint (chr (hex_digits ! n))) = int n) [0..<16]"
    by code_simp
  then show ?thesis using assms by (simp add: list_all_iff)
qed

lemma halves_of_byte: "word_of_int (push_bit 4 (uint (drop_bit 4 b)) OR uint (b AND 0x0f)) = (b :: byte)"
proof -
  have "b AND 0x0f = take_bit 4 b" by (simp add: take_bit_eq_mask mask_eq_exp_minus_1)
  then show ?thesis by (auto intro!: bit_word_eqI simp: bit_simps)
qed

lemma nibbles_of_pair:
  assumes "hex_pair b = [x, y]"
  shows "nibble (sint x) = uint (drop_bit 4 b)" "nibble (sint y) = uint (b AND 0x0f)"
proof -
  have "unat b < 256" using unsigned_less[of b] by simp
  then have "unat (drop_bit 4 b) < 16" "unat (b AND 0x0f) < 16"
    using word_and_le1[of b 15] by (auto simp: drop_bit_eq_div unat_div word_le_nat_alt)
  then show "nibble (sint x) = uint (drop_bit 4 b)" "nibble (sint y) = uint (b AND 0x0f)"
    using assms nibble_of_digit by (auto simp: hex_pair_def)
qed

lemma unesc_bytes_reads:
  "length gap = length data \<Longrightarrow> unesc_bytes (concat (map hex_pair data)) (int (length front)) (front @ gap @ rest) = Inr (front @ data @ rest)"
proof (induction data arbitrary: front gap)
  case Nil
  then show ?case by simp
next
  case (Cons b data)
  then obtain g gap' where g: "gap = g # gap'" "length gap' = length data" by (cases gap) auto
  obtain x y where xy: "hex_pair b = [x, y]" by (simp add: hex_pair_def)
  show ?case
    using Cons.IH[OF g(2), of "front @ [b]"] nibbles_of_pair[OF xy]
    by (simp add: g(1) xy halves_of_byte buffer_simps in_buffer_def Let_def algebra_simps)
qed

lemma unesc_bin_reads: "length buf = length data \<Longrightarrow> unesc_bin (hex_text data) buf = Inr data"
  using unesc_bytes_reads[of buf data "[]" "[]"] by (simp add: unesc_bin_def hex_text_def)

subsection \<open>Properties\<close>

text \<open>C14: Equivalence.  Encoding an operation in place, from its last byte on and over its own binary data, gives the text that
  the straightforward encoder writes to a separate buffer, with the same end and the same untouched rest of the buffer.\<close>

theorem in_place_encoding_is_esc_bin:
  assumes "size_esc_bin (length packed) \<le> length buf"
  shows "operation_into_buf packed buf = in_buffer (map_option (\<lambda>written. (written, size_esc_bin (length packed))) (esc_bin packed buf))"
  using operation_into_buf_writes[OF assms] esc_bin_writes[OF assms] by (simp add: in_buffer_def)

theorem in_place_encoding_is_esc_bin_witness:
  "operation_into_buf [0x00, 0xfa, 0x41] (replicate 12 7) = in_buffer (map_option (\<lambda>written. (written, 9)) (esc_bin [0x00, 0xfa, 0x41] (replicate 12 7)))"
  using in_place_encoding_is_esc_bin[of "[0x00, 0xfa, 0x41]" "replicate 12 7"] by (simp add: size_esc_bin_def)

text \<open>Round trip.  The text written for a hash or a signature is read back as the same bytes.\<close>

theorem binary_texts_are_read_back:
  assumes "length h = 20" "length sig = 65" "length fresh = 20" "length fresh' = 65" "43 \<le> length buf" "133 \<le> length buf'"
  shows "(\<exists>t. ripemd160_into_buf h buf = Inr (t @ 0 # drop 43 buf, 43) \<and> ripemd160_from_string fresh t = Inr h)
    \<and> (\<exists>t. signature_into_buf sig buf' = Inr (t @ 0 # drop 133 buf', 133) \<and> signature_from_string fresh' t = Inr sig)"
proof
  show "\<exists>t. ripemd160_into_buf h buf = Inr (t @ 0 # drop 43 buf, 43) \<and> ripemd160_from_string fresh t = Inr h"
    using esc_bin_writes[of h buf] unesc_bin_reads[of fresh h] assms
    by (intro exI[of _ "hex_text h"]) (simp add: ripemd160_into_buf_def ripemd160_from_string_def size_esc_bin_def in_buffer_def)
  show "\<exists>t. signature_into_buf sig buf' = Inr (t @ 0 # drop 133 buf', 133) \<and> signature_from_string fresh' t = Inr sig"
    using esc_bin_writes[of sig buf'] unesc_bin_reads[of fresh' sig] assms
    by (intro exI[of _ "hex_text sig"]) (simp add: signature_into_buf_def signature_from_string_def size_esc_bin_def in_buffer_def)
qed

theorem binary_texts_are_read_back_witness:
  "\<exists>t. ripemd160_into_buf (replicate 20 0xab) (replicate 43 7) = Inr (t @ [0], 43) \<and> ripemd160_from_string (replicate 20 0) t = Inr (replicate 20 0xab)"
  using binary_texts_are_read_back[of "replicate 20 0xab" "replicate 65 1" "replicate 20 0" "replicate 65 0" "replicate 43 7" "replicate 133 7"] by simp

end
