(* ===== verification/Time_Texts.thy ===== *)
theory Time_Texts
  imports Hex_Texts
begin

text \<open>
  The texts of times.  The reference is the calendar itself: dates that follow one another from 1 January 1970 by the lengths
  of the months.  The arithmetic of \<open>to_ymd_hms\<close> gives the date of every second a 32-bit time can name, and \<open>into_buf\<close>
  writes it in the ISO 8601 form.
\<close>

subsection \<open>The calendar\<close>

definition leap_year :: "nat \<Rightarrow> bool" where
  "leap_year y \<longleftrightarrow> y mod 4 = 0 \<and> (y mod 100 \<noteq> 0 \<or> y mod 400 = 0)"

definition days_in_month :: "nat \<Rightarrow> nat \<Rightarrow> nat" where
  "days_in_month y m = (if m = 2 then (if leap_year y then 29 else 28) else if m \<in> {4, 6, 9, 11} then 30 else 31)"

fun next_day :: "nat \<times> nat \<times> nat \<Rightarrow> nat \<times> nat \<times> nat" where
  "next_day (y, m, d) =
     (if d < days_in_month y m then (y, m, d + 1)
      else if m < 12 then (y, m + 1, 1)
      else (y + 1, 1, 1))"

text \<open>The date some days after 1 January 1970.\<close>

definition civil_date :: "nat \<Rightarrow> nat \<times> nat \<times> nat" where
  "civil_date n = (next_day ^^ n) (1970, 1, 1)"

fun valid_date :: "nat \<times> nat \<times> nat \<Rightarrow> bool" where
  "valid_date (y, m, d) \<longleftrightarrow> 1 \<le> y \<and> 1 \<le> m \<and> m \<le> 12 \<and> 1 \<le> d \<and> d \<le> days_in_month y m"

text \<open>Days are counted from 1 March of the year 0, in years that start in March.\<close>

definition march_month :: "nat \<Rightarrow> nat" where
  "march_month m = (if m \<le> 2 then m + 9 else m - 3)"

definition march_year :: "nat \<Rightarrow> nat \<Rightarrow> nat" where
  "march_year y m = (if m \<le> 2 then y - 1 else y)"

definition day_of_year :: "nat \<Rightarrow> nat \<Rightarrow> nat" where
  "day_of_year m d = (153 * march_month m + 2) div 5 + d - 1"

definition year_start :: "nat \<Rightarrow> nat" where
  "year_start y = 365 * y + y div 4 - y div 100 + y div 400"

fun day_number :: "nat \<times> nat \<times> nat \<Rightarrow> nat" where
  "day_number (y, m, d) = year_start (march_year y m) + day_of_year m d"

lemma leap_year_dvd: "leap_year y \<longleftrightarrow> 4 dvd y \<and> (100 dvd y \<longrightarrow> 400 dvd y)"
  by (auto simp: leap_year_def mod_eq_0_iff_dvd)

lemma div_Suc_dvd: "Suc y div k = y div k + (if k dvd Suc y then 1 else 0)"
  by (simp add: div_Suc mod_eq_0_iff_dvd)

lemma year_start_Suc: "year_start (Suc y) = year_start y + 365 + (if leap_year (Suc y) then 1 else 0)"
proof -
  have "4 dvd Suc y" if "100 dvd Suc y" using dvd_trans[OF _ that, of 4] by simp
  moreover have "100 dvd Suc y" if "400 dvd Suc y" using dvd_trans[OF _ that, of 100] by simp
  moreover have "y div 100 \<le> y" by simp
  ultimately show ?thesis
    unfolding year_start_def leap_year_dvd div_Suc_dvd by (cases "4 dvd Suc y"; cases "100 dvd Suc y"; cases "400 dvd Suc y") simp_all
qed

lemma months:
  assumes "1 \<le> (m :: nat)" "m \<le> 12"
  obtains "m = 1" | "m = 2" | "m = 3" | "m = 4" | "m = 5" | "m = 6" | "m = 7" | "m = 8" | "m = 9" | "m = 10" | "m = 11" | "m = 12"
proof -
  have "m = 1 \<or> m = 2 \<or> m = 3 \<or> m = 4 \<or> m = 5 \<or> m = 6 \<or> m = 7 \<or> m = 8 \<or> m = 9 \<or> m = 10 \<or> m = 11 \<or> m = 12"
    using assms by arith
  then show thesis using that by blast
qed

lemma next_day_number:
  assumes "valid_date x"
  shows "day_number (next_day x) = day_number x + 1" "valid_date (next_day x)"
proof -
  obtain y m d where x: "x = (y, m, d)" by (cases x) auto
  have v: "1 \<le> y" "1 \<le> m" "m \<le> 12" "1 \<le> d" "d \<le> days_in_month y m" using assms x by auto
  obtain y' where y': "y = Suc y'" using v(1) by (cases y) auto
  show "day_number (next_day x) = day_number x + 1"
    using v(2,3) by (rule months) (use v year_start_Suc[of y'] y' in \<open>auto simp: x days_in_month_def march_month_def march_year_def day_of_year_def split: if_splits\<close>)
  show "valid_date (next_day x)"
    using v(2,3) by (rule months) (use v in \<open>auto simp: x days_in_month_def split: if_splits\<close>)
qed

lemma civil_date_number: "day_number (civil_date n) = n + 719468 \<and> valid_date (civil_date n)"
proof (induction n)
  case 0
  then show ?case by (simp add: civil_date_def march_year_def day_of_year_def march_month_def year_start_def days_in_month_def)
next
  case (Suc n)
  then show ?case using next_day_number[of "civil_date n"] by (simp add: civil_date_def)
qed

subsection \<open>Dates from day numbers\<close>

text \<open>The calculation of the code on natural numbers.\<close>

definition year_of_era :: "nat \<Rightarrow> nat" where
  "year_of_era doe = (doe - doe div 1460 + doe div 36524 - doe div 146096) div 365"

lemma year_start_era: "r < 400 \<Longrightarrow> year_start (400 * q + r) = 146097 * q + year_start r"
proof -
  have "(400 * q + r) div 4 = 100 * q + r div 4" "(400 * q + r) div 100 = 4 * q + r div 100"
    "(400 * q + r) div 400 = q + r div 400"
    using div_mult_self3[of 4 "100 * q" r] div_mult_self3[of 100 "4 * q" r] div_mult_self3[of 400 q r] by (simp_all add: algebra_simps)
  moreover have "r div 100 \<le> r" by simp
  ultimately show ?thesis unfolding year_start_def by (simp add: add.assoc)
qed

text \<open>The years of an era in centuries and groups of four years.\<close>

lemma year_start_parts:
  assumes "b < 25" "c < 4"
  shows "(100 * a + 4 * b + c) div 4 = 25 * a + b" "(100 * a + 4 * b + c) div 100 = a"
    "a < 4 \<Longrightarrow> year_start (100 * a + 4 * b + c) = 36524 * a + 1461 * b + 365 * c"
proof -
  show four: "(100 * a + 4 * b + c) div 4 = 25 * a + b" using assms by simp
  show hundred: "(100 * a + 4 * b + c) div 100 = a" using assms by simp
  assume "a < 4"
  then have "(100 * a + 4 * b + c) div 400 = 0" using assms by simp
  then show "year_start (100 * a + 4 * b + c) = 36524 * a + 1461 * b + 365 * c"
    unfolding year_start_def four hundred by simp
qed

lemma leap_parts:
  assumes "a < 4" "b < 25" "c < 4" "leap_year (Suc (100 * a + 4 * b + c))"
  shows "c = 3 \<and> (b < 24 \<or> a = 3)"
proof -
  let ?y = "Suc (100 * a + 4 * b + c)"
  have y: "?y = 4 * (25 * a + b) + Suc c" by simp
  have "4 dvd ?y" and century: "100 dvd ?y \<longrightarrow> 400 dvd ?y" using assms(4) by (auto simp: leap_year_dvd)
  then have "4 dvd 4 * (25 * a + b) + Suc c" unfolding y by blast
  then have "4 dvd Suc c" by (rule iffD1[OF dvd_add_right_iff[OF dvd_triv_left]])
  moreover have "c = 0 \<or> c = 1 \<or> c = 2 \<or> c = 3" using assms(3) by arith
  ultimately have c: "c = 3" by (elim disjE) (auto dest: dvd_imp_le)
  have "a = 3" if "b = 24"
  proof -
    have "?y = 100 * Suc a" using that c by simp
    then have "400 dvd 100 * Suc a" using century by (metis dvd_triv_left)
    moreover have "a = 0 \<or> a = 1 \<or> a = 2 \<or> a = 3" using assms(1) by arith
    ultimately show ?thesis by (elim disjE) (auto dest: dvd_imp_le)
  qed
  then show ?thesis using c assms(2) by (cases "b = 24") auto
qed

lemma year_of_era_parts:
  assumes "a < 4" "b < 25" "c < 4" "doy \<le> 364 \<or> doy = 365 \<and> c = 3 \<and> (b < 24 \<or> a = 3)"
  shows "year_of_era (36524 * a + 1461 * b + 365 * c + doy) = 100 * a + 4 * b + c"
    "36524 * a + 1461 * b + 365 * c + doy < 146097"
proof -
  let ?doe = "36524 * a + 1461 * b + 365 * c + doy"
  let ?last = "a = 3 \<and> b = 24 \<and> c = 3 \<and> doy = 365"
  let ?l = "if ?last then 1 else 0" and ?e = "if 1460 \<le> 24 * a + b + 365 * c + doy then 1 else (0 :: nat)"
  have b: "b \<le> 24" "c \<le> 3" "a \<le> 3" using assms by auto
  show "?doe < 146097" using assms(4) b by (elim disjE conjE) linarith+
  have century: "?doe div 36524 = a + ?l"
    using assms(4) b by (intro div_nat_eqI; cases ?last) auto
  have era: "?doe div 146096 = ?l"
    using assms(4) b by (intro div_nat_eqI; cases ?last) auto
  have four: "?doe div 1460 = 25 * a + b + ?e"
    using assms(4) b by (intro div_nat_eqI) auto
  have "?doe - ?doe div 1460 + ?doe div 36524 - ?doe div 146096 = 365 * (100 * a + 4 * b + c) + doy - ?e"
    unfolding century era four by simp
  also have "\<dots> div 365 = 100 * a + 4 * b + c"
    using assms(4) b by (intro div_nat_eqI) auto
  finally show "year_of_era ?doe = 100 * a + 4 * b + c" unfolding year_of_era_def .
qed

lemma year_le_start: "y \<le> year_start y"
  by (induction y) (auto simp: year_start_Suc year_start_def[of 0])

lemma day_of_year_bound:
  assumes "valid_date (y, m, d)"
  shows "day_of_year m d \<le> 364 \<or> day_of_year m d = 365 \<and> leap_year (Suc (march_year y m))"
proof -
  have v: "1 \<le> y" "1 \<le> m" "m \<le> 12" "1 \<le> d" "d \<le> days_in_month y m" using assms by auto
  then obtain y' where "y = Suc y'" by (cases y) auto
  then show ?thesis
    by (rule_tac months[OF v(2,3)]) (use v(4,5) in \<open>auto simp: day_of_year_def march_month_def march_year_def days_in_month_def split: if_splits\<close>)
qed

lemma month_of_day:
  assumes "1 \<le> m" "m \<le> 12" "1 \<le> d" "d \<le> days_in_month y m"
  shows "(5 * day_of_year m d + 2) div 153 = march_month m" "day_of_year m d - (153 * march_month m + 2) div 5 + 1 = d"
    "(if march_month m < 10 then march_month m + 3 else march_month m - 9) = m"
proof -
  show "(5 * day_of_year m d + 2) div 153 = march_month m"
    using assms(1,2) by (rule months) (use assms(3,4) in \<open>auto intro!: div_nat_eqI simp: day_of_year_def march_month_def days_in_month_def split: if_splits\<close>)
  show "day_of_year m d - (153 * march_month m + 2) div 5 + 1 = d"
    using assms(3) by (simp add: day_of_year_def)
  show "(if march_month m < 10 then march_month m + 3 else march_month m - 9) = m"
    using assms(1,2) by (auto simp: march_month_def)
qed

lemma year_parts:
  obtains a b c where "a < 4" "b < 25" "c < 4" "Y mod 400 = 100 * a + 4 * b + (c :: nat)"
proof -
  have "Y mod 400 = 100 * (Y mod 400 div 100) + Y mod 400 mod 100" by (rule mult_div_mod_eq[symmetric])
  moreover have "Y mod 400 mod 100 = Y mod 100" "Y mod 100 mod 4 = Y mod 4" by (simp_all add: mod_mod_cancel)
  moreover have "Y mod 100 = 4 * (Y mod 100 div 4) + Y mod 100 mod 4" by (rule mult_div_mod_eq[symmetric])
  ultimately have "Y mod 400 = 100 * (Y mod 400 div 100) + 4 * (Y mod 100 div 4) + Y mod 4" by simp
  then show thesis using that[of "Y mod 400 div 100" "Y mod 100 div 4" "Y mod 4"] by (auto simp: less_mult_imp_div_less)
qed

lemma leap_year_era: "leap_year (Suc (Y mod 400)) \<longleftrightarrow> leap_year (Suc Y)"
proof -
  have "Suc (Y mod 400) mod k = Suc Y mod k" if "k dvd 400" for k
    using mod_Suc_eq[of "Y mod 400" k] mod_Suc_eq[of Y k] that by (simp add: mod_mod_cancel)
  from this[of 4] this[of 100] this[of 400] show ?thesis unfolding leap_year_def by simp
qed

text \<open>What the calculation finds in the number of a day.\<close>

lemma day_number_parts:
  assumes "valid_date (y, m, d)"
  defines "D \<equiv> day_number (y, m, d)" and "Y \<equiv> march_year y m"
  shows "D div 146097 = Y div 400" "year_of_era (D mod 146097) = Y mod 400"
    "D mod 146097 = (365 * (Y mod 400) + Y mod 400 div 4 - Y mod 400 div 100) + day_of_year m d"
proof -
  obtain a b c where parts: "a < 4" "b < 25" "c < 4" and r: "Y mod 400 = 100 * a + 4 * b + c" by (rule year_parts)
  let ?doe = "36524 * a + 1461 * b + 365 * c + day_of_year m d"
  have "day_of_year m d \<le> 364 \<or> day_of_year m d = 365 \<and> c = 3 \<and> (b < 24 \<or> a = 3)"
    using day_of_year_bound[OF assms(1), folded Y_def] leap_parts[OF parts] leap_year_era[of Y, unfolded r] by auto
  note yoe = year_of_era_parts[OF parts this]
  have "year_start (Y mod 400) = 36524 * a + 1461 * b + 365 * c" using year_start_parts(3)[OF parts(2,3,1)] r by simp
  then have number: "D = 146097 * (Y div 400) + ?doe"
    using year_start_era[of "Y mod 400" "Y div 400"] by (simp add: D_def Y_def)
  have mod: "D mod 146097 = ?doe" unfolding number using yoe(2) by simp
  show "D div 146097 = Y div 400" unfolding number using yoe(2) by simp
  show "year_of_era (D mod 146097) = Y mod 400" unfolding mod r by (rule yoe(1))
  show "D mod 146097 = (365 * (Y mod 400) + Y mod 400 div 4 - Y mod 400 div 100) + day_of_year m d"
    unfolding mod r using year_start_parts(1,2)[OF parts(2,3)] by simp
qed

subsection \<open>The calculation on 32-bit words\<close>

named_theorems unat_intros "the number of a word expression"

lemma unat_plusI [unat_intros]: "unat (a :: u32) = m \<Longrightarrow> unat b = n \<Longrightarrow> m + n < 2 ^ 32 \<Longrightarrow> unat (a + b) = m + n"
  by (simp add: unat_word_ariths)

lemma unat_minusI [unat_intros]: "unat (a :: u32) = m \<Longrightarrow> unat b = n \<Longrightarrow> n \<le> m \<Longrightarrow> unat (a - b) = m - n"
  by (simp add: unat_sub word_le_nat_alt)

lemma unat_timesI [unat_intros]: "unat (a :: u32) = m \<Longrightarrow> unat b = n \<Longrightarrow> m * n < 2 ^ 32 \<Longrightarrow> unat (a * b) = m * n"
  by (simp add: unat_word_ariths)

lemma unat_divI [unat_intros]: "unat (a :: u32) = m \<Longrightarrow> unat b = n \<Longrightarrow> unat (a div b) = m div n"
  by (simp add: unat_div)

lemma unat_modI [unat_intros]: "unat (a :: u32) = m \<Longrightarrow> unat b = n \<Longrightarrow> unat (a mod b) = m mod n"
  by (simp add: unat_mod)

lemma year_of_era_words:
  assumes "unat (doe :: u32) = n" "n < 146097"
  shows "unat ((doe - doe div 1460 + doe div 36524 - doe div 146096) div 365) = year_of_era n"
proof -
  have "n div 1460 \<le> n" "n div 36524 \<le> n" "n div 146096 \<le> n div 36524" by (auto intro: div_le_mono2)
  then show ?thesis
    unfolding year_of_era_def using assms
    by (intro unat_intros assms(1)) (simp_all add: unsigned_numeral)
qed

text \<open>The fields of the day, given the date it should be.\<close>

lemma to_ymd_hms_date:
  assumes date: "civil_date (unat s div 86400) = (y, m, d)" and fields: "to_ymd_hms s = (year, month, day, hour, minute, second)"
  shows "unat year = y" "unat month = m" "unat day = d"
proof -
  let ?z = "s div 86400 + 719468" and ?D = "day_number (y, m, d)" and ?Y = "march_year y m" and ?M = "march_month m"
  define doe where "doe = ?z - ?z div 146097 * 146097"
  define yoe where "yoe = (doe - doe div 1460 + doe div 36524 - doe div 146096) div 365"
  define doy where "doy = doe - (365 * yoe + yoe div 4 - yoe div 100)"
  define mp where "mp = (5 * doy + 2) div 153"
  define mon where "mon = mp + (if mp < 10 then 3 else -9)"
  have result: "yoe + ?z div 146097 * 400 + (if mon \<le> 2 then 1 else 0) = year" "mon = month" "doy - (153 * mp + 2) div 5 + 1 = day"
    using fields unfolding to_ymd_hms_def Let_def doe_def yoe_def doy_def mp_def mon_def prod.inject by blast+
  have valid: "valid_date (y, m, d)" and D: "?D = unat s div 86400 + 719468"
    using civil_date_number[of "unat s div 86400"] date by auto
  then have v: "1 \<le> y" "1 \<le> m" "m \<le> 12" "1 \<le> d" "d \<le> days_in_month y m" by auto
  note parts = day_number_parts[OF valid]
  have "unat s < 2 ^ 32" using unsigned_less[of s] by simp
  then have small: "?D < 800000" unfolding D by simp
  have z: "unat ?z = ?D" using small unfolding D by (intro unat_intros) (simp_all add: unsigned_numeral)
  have era: "unat (?z div 146097) = ?Y div 400" unfolding parts(1)[symmetric] by (intro unat_intros z) simp
  have "?D div 146097 * 146097 \<le> ?D" by simp
  then have "unat doe = ?D - ?D div 146097 * 146097"
    unfolding doe_def using small by (intro unat_intros z) (simp_all add: unsigned_numeral)
  then have doe: "unat doe = ?D mod 146097" by (simp only: minus_div_mult_eq_mod)
  have yoe: "unat yoe = ?Y mod 400"
    using year_of_era_words[OF doe] parts(2) unfolding yoe_def by simp
  let ?start = "365 * (?Y mod 400) + ?Y mod 400 div 4 - ?Y mod 400 div 100"
  have "?Y mod 400 < 400" "?Y mod 400 div 4 < 400" "?Y mod 400 div 100 \<le> ?Y mod 400" by (simp_all add: less_mult_imp_div_less)
  then have start: "unat (365 * yoe + yoe div 4 - yoe div 100) = ?start"
    by (intro unat_intros yoe) (simp_all add: unsigned_numeral)
  have "unat doy = ?D mod 146097 - ?start"
    unfolding doy_def using parts(3) by (intro unat_minusI doe start) linarith
  then have doy: "unat doy = day_of_year m d" using parts(3) by simp
  have bound: "day_of_year m d \<le> 365" using day_of_year_bound[OF valid] by auto
  note month = month_of_day[OF v(2-5)]
  have "unat mp = (5 * day_of_year m d + 2) div 153"
    unfolding mp_def using bound by (intro unat_intros doy) (simp_all add: unsigned_numeral)
  then have mp: "unat mp = ?M" using month(1) by simp
  have M: "?M \<le> 11" using v(2,3) by (auto simp: march_month_def)
  have "unat mon = (if ?M < 10 then ?M + 3 else ?M - 9)"
  proof (cases "?M < 10")
    case True
    then have "mp < 10" using mp by (simp add: word_less_nat_alt)
    then show ?thesis unfolding mon_def using True by simp (intro unat_intros mp, simp_all add: unsigned_numeral)
  next
    case False
    then have "\<not> mp < 10" "mon = mp - 9" using mp by (simp_all add: mon_def word_less_nat_alt)
    then show ?thesis using False by simp (intro unat_intros mp, simp_all add: unsigned_numeral)
  qed
  then have mon: "unat mon = m" using month(3) by simp
  then show "unat month = m" using result(2) by simp
  have "(153 * ?M + 2) div 5 \<le> day_of_year m d" using v(4) by (simp add: day_of_year_def)
  then have "unat day = day_of_year m d - (153 * ?M + 2) div 5 + 1"
    unfolding result(3)[symmetric] using M bound by (intro unat_intros mp doy) (simp_all add: unsigned_numeral)
  then show "unat day = d" using month(2) by simp
  have "?Y \<le> ?D" using year_le_start[of ?Y] by simp
  moreover have "mon \<le> 2 \<longleftrightarrow> m \<le> 2" using mon by (simp add: word_le_nat_alt)
  ultimately have "unat year = ?Y mod 400 + ?Y div 400 * 400 + (if m \<le> 2 then 1 else 0)"
    unfolding result(1)[symmetric] using small by (intro unat_intros yoe era) (simp_all add: unsigned_numeral)
  then show "unat year = y" using v(1) by (auto simp: march_year_def)
qed

lemma to_ymd_hms_time:
  assumes "to_ymd_hms s = (year, month, day, hour, minute, second)"
  shows "unat hour = unat s mod 86400 div 3600" "unat minute = unat s mod 3600 div 60" "unat second = unat s mod 60"
    "unat s mod 86400 div 3600 < 24" "unat s mod 3600 div 60 < 60"
proof -
  have "hour = s mod 86400 div 3600" "minute = s mod 86400 mod 3600 div 60" "second = s mod 86400 mod 3600 mod 60"
    using assms unfolding to_ymd_hms_def Let_def prod.inject by blast+
  then show "unat hour = unat s mod 86400 div 3600" "unat minute = unat s mod 3600 div 60" "unat second = unat s mod 60"
    by (simp_all add: unat_div unat_mod mod_mod_cancel)
qed (simp_all add: less_mult_imp_div_less)


subsection \<open>The text of a time\<close>

definition two_digits :: "nat \<Rightarrow> byte list" where
  "two_digits n = [chr (digit_char (n div 10)), chr (digit_char (n mod 10))]"

text \<open>The ISO 8601 text: the date of the calendar and the time of day.\<close>

definition iso_text :: "nat \<Rightarrow> byte list" where
  "iso_text seconds = (case civil_date (seconds div 86400) of (y, m, d) \<Rightarrow>
     two_digits (y div 100) @ two_digits (y mod 100) @ [chr CHR ''-''] @ two_digits m @ [chr CHR ''-''] @ two_digits d
     @ [chr CHR ''T''] @ two_digits (seconds mod 86400 div 3600)
     @ [chr CHR '':''] @ two_digits (seconds mod 3600 div 60) @ [chr CHR '':''] @ two_digits (seconds mod 60))"

lemma nth_pairs: "n < length xs \<Longrightarrow> concat (map (\<lambda>x. [f x, g x]) xs) ! (2 * n) = f (xs ! n)
    \<and> concat (map (\<lambda>x. [f x, g x]) xs) ! Suc (2 * n) = g (xs ! n)"
proof (induction xs arbitrary: n)
  case (Cons x xs)
  then show ?case by (cases n) auto
qed simp

lemma length_pairs: "length (concat (map (\<lambda>x. [f x, g x]) xs)) = 2 * length xs"
  by (induction xs) auto

lemma write_two_digits_writes:
  assumes "unat n < 100" "i = int (length front)"
  shows "write_two_digits i n (front @ a # b # rest) = Some (front @ two_digits (unat n) @ rest)"
proof -
  have len: "length two_digits_table = 200" by (simp add: two_digits_table_def length_pairs)
  have digits: "two_digits_table ! (2 * unat n) = digit_char (unat n div 10)" "two_digits_table ! Suc (2 * unat n) = digit_char (unat n mod 10)"
    using nth_pairs[of "unat n" "[0..<100]" "\<lambda>n. digit_char (n div 10)" "\<lambda>n. digit_char (n mod 10)"] assms(1) by (simp_all add: two_digits_table_def)
  have "put (front @ x # b # rest) (int (length front) + 1) y = Some (front @ x # y # rest)" for x y
    using put_at[of "int (length front) + 1" "front @ [x]" b rest y] by simp
  then show ?thesis
    using assms len digits by (simp add: write_two_digits_def two_digits_def buffer_simps)
qed

lemma civil_year_bound:
  assumes "n < 60000" "civil_date n = (y, m, d)"
  shows "y < 10000"
proof -
  have "y \<le> march_year y m + 1" by (auto simp: march_year_def)
  have "365 * march_year y m \<le> day_number (y, m, d)"
  proof -
    have "365 * k \<le> year_start k" for k by (induction k) (auto simp: year_start_Suc year_start_def[of 0])
    then show ?thesis by (simp add: trans_le_add1)
  qed
  moreover have "day_number (y, m, d) = n + 719468" using civil_date_number[of n] assms(2) by simp
  ultimately show ?thesis using assms(1) \<open>y \<le> march_year y m + 1\<close> by linarith
qed

text \<open>An operation that writes a text behind the \<open>k\<close> bytes written so far; the rest of the buffer is left as it was.\<close>

definition writes :: "(byte list \<Rightarrow> byte list option) \<Rightarrow> byte list \<Rightarrow> nat \<Rightarrow> byte list \<Rightarrow> bool" where
  "writes prog t k buf \<longleftrightarrow> (\<forall>f. length f = k \<longrightarrow> prog (f @ drop k buf) = Some (f @ t @ drop (k + length t) buf))"

lemma writes_put: "i = int k \<Longrightarrow> k < length buf \<Longrightarrow> writes (\<lambda>b. put b i v) [v] k buf"
  by (auto simp: writes_def put_at simp flip: Cons_nth_drop_Suc)

lemma writes_digits:
  assumes "i = int k" "k + 2 \<le> length buf" "unat n = m" "m < 100"
  shows "writes (write_two_digits i n) (two_digits m) k buf"
proof -
  have "drop k buf = buf ! k # buf ! Suc k # drop (k + 2) buf"
    using assms(2) Cons_nth_drop_Suc[of k buf] Cons_nth_drop_Suc[of "Suc k" buf] by simp
  then have "write_two_digits i n (f @ drop k buf) = Some (f @ two_digits m @ drop (k + 2) buf)" if "length f = k" for f
    using write_two_digits_writes[of n i f] assms that by (simp only:)
  then show ?thesis by (simp add: writes_def two_digits_def)
qed

lemma writes_bind:
  assumes "writes p t k buf" "writes q u (k + length t) buf"
  shows "writes (\<lambda>b. p b \<bind> q) (t @ u) k buf"
  unfolding writes_def
proof (intro allI impI)
  fix f :: "byte list"
  assume "length f = k"
  then have "p (f @ drop k buf) = Some ((f @ t) @ drop (k + length t) buf)" "length (f @ t) = k + length t"
    using assms(1) by (simp_all add: writes_def)
  then show "p (f @ drop k buf) \<bind> q = Some (f @ (t @ u) @ drop (k + length (t @ u)) buf)"
    using assms(2) unfolding writes_def by (auto dest!: spec[of _ "f @ t"] simp: add.assoc)
qed

lemma writesD: "writes p t 0 buf \<Longrightarrow> p buf = Some (t @ drop (length t) buf)"
  by (simp add: writes_def)

lemma time_into_buf_writes:
  assumes "20 \<le> length buf"
  shows "time_into_buf s buf = Inr (iso_text (unat s) @ 0 # drop 20 buf, 20)"
proof -
  obtain year month day hour minute second where t: "to_ymd_hms s = (year, month, day, hour, minute, second)" by (metis prod_cases6)
  obtain y m d where date: "civil_date (unat s div 86400) = (y, m, d)" by (metis prod_cases3)
  have "unat s < 2 ^ 32" using unsigned_less[of s] by simp
  then have y: "y < 10000" using civil_year_bound[OF _ date] by simp
  have "valid_date (y, m, d)" using civil_date_number[of "unat s div 86400"] date by simp
  then have md: "m < 100" "d < 100" by (auto simp: days_in_month_def split: if_splits)
  note ymd = to_ymd_hms_date[OF date t] and hms = to_ymd_hms_time[OF t]
  have two: "length (two_digits n) = 2" for n by (simp add: two_digits_def)
  have n: "unat (year div 100) = y div 100" "unat (year mod 100) = y mod 100" "y div 100 < 100"
    using ymd(1) y by (simp_all add: unat_div unat_mod)
  let ?prog = "\<lambda>buf. do {
      buf \<leftarrow> write_two_digits 0 (year div 100) buf;
      buf \<leftarrow> write_two_digits 2 (year mod 100) buf;
      buf \<leftarrow> put buf 4 (chr CHR ''-'');
      buf \<leftarrow> write_two_digits 5 month buf;
      buf \<leftarrow> put buf 7 (chr CHR ''-'');
      buf \<leftarrow> write_two_digits 8 day buf;
      buf \<leftarrow> put buf 10 (chr CHR ''T'');
      buf \<leftarrow> write_two_digits 11 hour buf;
      buf \<leftarrow> put buf 13 (chr CHR '':'');
      buf \<leftarrow> write_two_digits 14 minute buf;
      buf \<leftarrow> put buf 16 (chr CHR '':'');
      buf \<leftarrow> write_two_digits 17 second buf;
      put buf 19 0 }"
  have "writes ?prog (two_digits (y div 100) @ two_digits (y mod 100) @ [chr CHR ''-''] @ two_digits m @ [chr CHR ''-''] @ two_digits d
     @ [chr CHR ''T''] @ two_digits (unat s mod 86400 div 3600) @ [chr CHR '':''] @ two_digits (unat s mod 3600 div 60)
     @ [chr CHR '':''] @ two_digits (unat s mod 60) @ [0]) 0 buf"
    by (intro writes_bind writes_digits writes_put n(1,2) ymd(2,3) hms(1,2,3)) (use assms n(3) hms(4,5) md in \<open>simp_all add: two\<close>)
  from writesD[OF this] have "?prog buf = Some (iso_text (unat s) @ 0 # drop 20 buf)"
    by (simp add: iso_text_def date two)
  moreover have "time_into_buf s buf = in_buffer (?prog buf \<bind> (\<lambda>buf. Some (buf, 20)))"
    using assms by (simp add: time_into_buf_def t)
  ultimately show ?thesis by (simp add: in_buffer_def)
qed

subsection \<open>Properties\<close>

text \<open>C13: The text of a time is the ISO 8601 text of its date in the Gregorian calendar and its time of day, for
  every 32-bit time: the conversion succeeds in every buffer of at least 20 bytes and leaves what follows untouched.\<close>

theorem time_text_is_calendar_date:
  assumes "20 \<le> length buf"
  shows "time_into_buf s buf = Inr (iso_text (unat s) @ 0 # drop 20 buf, 20)"
  using assms by (rule time_into_buf_writes)

theorem time_text_is_calendar_date_witness:
  "time_into_buf 172799 (replicate 20 7) = Inr (map chr ''1970-01-02T23:59:59'' @ [0], 20)"
proof -
  have "iso_text 172799 = map chr ''1970-01-02T23:59:59''"
    by (simp add: iso_text_def civil_date_def days_in_month_def two_digits_def digit_char_def chr_def)
  then show ?thesis using time_text_is_calendar_date[of "replicate 20 7" 172799] by (simp add: unsigned_numeral)
qed

end
