(* ===== verification/Base58_Texts.thy ===== *)
theory Base58_Texts
  imports Hex_Texts
begin

text \<open>
  The base-58 texts of public keys.  The loops of \<open>encode\<close> work on a region of digits at the end of the buffer; the lemmas
  follow that region.  They show that no 64-bit carry overflows, that the region never outgrows the estimated size, and that
  the text is the numeral, without leading zeros, of the bytes read as one big-endian number.
\<close>

subsection \<open>Numerals\<close>

definition b58_digits :: "byte list \<Rightarrow> bool" where
  "b58_digits ds \<longleftrightarrow> (\<forall>d \<in> set ds. unat d < 58)"

definition b58_number :: "byte list \<Rightarrow> nat" where
  "b58_number ds = foldl (\<lambda>n d. n * 58 + unat d) 0 ds"

definition bytes_number :: "byte list \<Rightarrow> nat" where
  "bytes_number bs = foldl (\<lambda>n b. n * 256 + unat b) 0 bs"

text \<open>The number of base-58 digits.\<close>

fun digit_count :: "nat \<Rightarrow> nat" where
  "digit_count n = (if n = 0 then 0 else Suc (digit_count (n div 58)))"

declare digit_count.simps [simp del]

definition canonical :: "byte list \<Rightarrow> bool" where
  "canonical ds \<longleftrightarrow> b58_digits ds \<and> length ds = digit_count (b58_number ds)"

lemma digit_count_0 [simp]: "digit_count 0 = 0"
  by (simp add: digit_count.simps)

lemma digit_count_step: "0 < n \<Longrightarrow> digit_count n = Suc (digit_count (n div 58))"
  by (simp add: digit_count.simps[of n])

lemma digit_count_le: "digit_count n \<le> k \<longleftrightarrow> n < 58 ^ k"
proof (induction n arbitrary: k rule: digit_count.induct)
  case (1 n)
  then show ?case
    by (cases k) (auto simp: digit_count.simps[of n] div_less_iff_less_mult mult.commute)
qed

lemma digit_count_mono: "m \<le> n \<Longrightarrow> digit_count m \<le> digit_count n"
  using digit_count_le[of m "digit_count n"] digit_count_le[of n "digit_count n"] by simp

lemma digit_count_shift: "0 < c \<Longrightarrow> r < 58 ^ k \<Longrightarrow> digit_count (c * 58 ^ k + r) = digit_count c + k"
proof (induction k arbitrary: r)
  case 0
  then show ?case by simp
next
  case (Suc k)
  have "(c * 58 ^ Suc k + r) div 58 = c * 58 ^ k + r div 58"
    by (simp add: algebra_simps)
  moreover have "r div 58 < 58 ^ k" using Suc.prems(2) by (simp add: div_less_iff_less_mult mult.commute)
  ultimately show ?case using Suc digit_count_step[of "c * 58 ^ Suc k + r"] by simp
qed

lemma b58_number_simps [simp]:
  "b58_number [] = 0" "b58_number (ds @ [d]) = b58_number ds * 58 + unat d"
  by (auto simp: b58_number_def)

lemma b58_number_append: "b58_number (xs @ ys) = b58_number xs * 58 ^ length ys + b58_number ys"
proof (induction ys rule: rev_induct)
  case (snoc y ys)
  then show ?case by (simp flip: append_assoc add: algebra_simps)
qed simp

lemma b58_number_less: "b58_digits ds \<Longrightarrow> b58_number ds < 58 ^ length ds"
proof (induction ds rule: rev_induct)
  case (snoc d ds)
  then have "b58_number ds + 1 \<le> 58 ^ length ds" "unat d < 58" by (auto simp: b58_digits_def)
  then have "b58_number ds * 58 + unat d < (b58_number ds + 1) * 58" "(b58_number ds + 1) * 58 \<le> 58 ^ length ds * 58"
    by (simp, intro mult_right_mono) auto
  then show ?case by (simp add: mult.commute)
qed simp

lemma bytes_number_simps [simp]:
  "bytes_number [] = 0" "bytes_number (bs @ [b]) = bytes_number bs * 256 + unat b"
  by (auto simp: bytes_number_def)

lemma bytes_number_append: "bytes_number (xs @ ys) = bytes_number xs * 256 ^ length ys + bytes_number ys"
proof (induction ys rule: rev_induct)
  case (snoc y ys)
  then show ?case by (simp flip: append_assoc add: algebra_simps)
qed simp

lemma bytes_number_less: "bytes_number bs < 256 ^ length bs"
proof (induction bs rule: rev_induct)
  case (snoc b bs)
  have "unat b < 256" using unsigned_less[of b] by simp
  then have "bytes_number bs * 256 + unat b < (bytes_number bs + 1) * 256" by simp
  also have "\<dots> \<le> 256 ^ length bs * 256" using snoc by (intro mult_right_mono) auto
  finally show ?case by (simp add: mult.commute)
qed simp

lemma bytes_number_skip_zeros: "bytes_number (dropWhile (\<lambda>b. b = 0) bs) = bytes_number bs"
proof (induction bs)
  case (Cons b bs)
  then show ?case using bytes_number_append[of "[0]" bs] by (simp add: bytes_number_def[of "[0]"])
qed simp

text \<open>The estimate of the size: 350 digits are enough for 256 bytes, and so in every proportion.\<close>

lemma power_ratio:
  assumes le: "a ^ k \<le> (b :: nat) ^ l" and b: "1 < b" and k: "0 < k"
  shows "a ^ s < b ^ (s * l div k + 1)"
proof -
  let ?L = "s * l div k + 1"
  have "(a ^ s) ^ k = (a ^ k) ^ s" by (simp only: power_mult[symmetric] mult.commute)
  also have "\<dots> \<le> (b ^ l) ^ s" by (rule power_mono[OF le]) simp
  also have "\<dots> = b ^ (s * l)" by (simp only: power_mult[symmetric] mult.commute)
  also have "\<dots> < b ^ (?L * k)"
    using b k dividend_less_times_div[OF k, of "s * l"] by (intro power_strict_increasing) (auto simp: algebra_simps)
  also have "\<dots> = (b ^ ?L) ^ k" by (simp only: power_mult)
  finally show ?thesis by (rule power_less_imp_less_base) simp
qed

lemma estimate_ratio: "(256 :: nat) ^ 256 \<le> 58 ^ 350"
proof -
  have powers: "(x ^ 8) ^ 256 = (x ^ 16) ^ 2 * (x ^ 144) ^ 14" "(y ^ 7) ^ 2 * z ^ 14 = (y * z) ^ 14" "(x ^ 25) ^ 14 = x ^ 350"
    for x y z :: nat by (simp_all add: power_mult_distrib flip: power_mult power_add)
  have five: "(2 :: nat) ^ 16 \<le> 5 ^ 7" and base: "5 * (2 :: nat) ^ 144 \<le> 58 ^ 25" by simp_all
  have "((2 :: nat) ^ 8) ^ 256 = (2 ^ 16) ^ 2 * (2 ^ 144) ^ 14" by (rule powers)
  also have "\<dots> \<le> (5 ^ 7) ^ 2 * (2 ^ 144) ^ 14" by (rule mult_right_mono[OF power_mono[OF five]]) (rule zero_le)+
  also have "\<dots> = (5 * 2 ^ 144) ^ 14" by (rule powers)
  also have "\<dots> \<le> (58 ^ 25) ^ 14" by (rule power_mono[OF base]) (rule zero_le)
  also have "\<dots> = 58 ^ 350" by (rule powers)
  also have "(2 :: nat) ^ 8 = 256" by simp
  finally show ?thesis .
qed

lemma estimate_suffices: "(256 :: nat) ^ s < 58 ^ (s * 350 div 256 + 1)"
  by (rule power_ratio[OF estimate_ratio]) simp_all

subsection \<open>The loops\<close>

lemma unat_58 [simp]: "unat (c mod 58 :: u64) = unat c mod 58" "unat (c div 58 :: u64) = unat c div 58"
  by (simp_all add: unat_mod unat_div)

lemma unat_digit [simp]: "unat (ucast (c mod 58 :: u64) :: byte) = unat c mod 58"
proof -
  have "unat (c mod 58) < 2 ^ 8" by (simp add: less_le_trans[OF mod_less_divisor])
  then show ?thesis by (simp add: unsigned_ucast_eq take_bit_nat_eq_self)
qed

lemma unat_multiply_add:
  assumes "unat (multiplier :: u64) \<le> 2 ^ 56" "unat carry < unat multiplier" "unat (d :: byte) < 58"
  shows "unat (carry + multiplier * ucast d) = unat carry + unat multiplier * unat d"
    "unat (carry + multiplier * ucast d) div 58 < unat multiplier"
proof -
  have less: "unat carry + unat multiplier * unat d < unat multiplier * 58"
  proof -
    have "unat multiplier * unat d \<le> unat multiplier * 57" using assms(3) by (intro mult_left_mono) auto
    then show ?thesis using assms(2) by linarith
  qed
  also have "\<dots> < 2 ^ 64" using assms(1) by simp
  finally have bound: "unat carry + unat multiplier * unat d < 2 ^ 64" .
  have d: "unat (ucast d :: u64) = unat d" using assms(3) by (simp add: unsigned_ucast_eq take_bit_nat_eq_self)
  show eq: "unat (carry + multiplier * ucast d) = unat carry + unat multiplier * unat d"
    using bound by (simp add: unat_word_ariths d)
  show "unat (carry + multiplier * ucast d) div 58 < unat multiplier"
    unfolding eq using less by (simp add: div_less_iff_less_mult)
qed

lemma multiply_digits_in_place:
  assumes "unat multiplier \<le> 2 ^ 56" "unat carry < unat multiplier" "b58_digits ds"
  shows "\<exists>carry' ds'. multiply_digits (int (length front) - 1) multiplier (int (length front + length ds) - 1) carry (front @ ds @ rest)
      = Some (int (length front) - 1, carry', front @ ds' @ rest)
    \<and> length ds' = length ds \<and> b58_digits ds' \<and> unat carry' < unat multiplier
    \<and> unat carry' * 58 ^ length ds + b58_number ds' = unat multiplier * b58_number ds + unat carry"
  using assms(2,3)
proof (induction ds arbitrary: carry rest rule: rev_induct)
  case Nil
  then show ?case by (subst multiply_digits.simps) (simp add: b58_digits_def)
next
  case (snoc d ds)
  let ?c = "carry + multiplier * ucast d" and ?x = "ucast ((carry + multiplier * ucast d) mod 58) :: byte"
  have digits: "unat d < 58" "b58_digits ds" using snoc.prems(2) by (auto simp: b58_digits_def)
  note sum = unat_multiply_add[OF assms(1) snoc.prems(1) digits(1)]
  have step: "multiply_digits (int (length front) - 1) multiplier (int (length front + length (ds @ [d])) - 1) carry (front @ (ds @ [d]) @ rest)
    = multiply_digits (int (length front) - 1) multiplier (int (length front + length ds) - 1) (?c div 58) (front @ ds @ ?x # rest)"
    using get_at[of "int (length front + length ds)" "front @ ds" d rest] put_at[of "int (length front + length ds)" "front @ ds" d rest ?x]
    by (subst multiply_digits.simps) (simp add: Let_def)
  obtain carry' ds' where IH: "multiply_digits (int (length front) - 1) multiplier (int (length front + length ds) - 1) (?c div 58) (front @ ds @ ?x # rest)
      = Some (int (length front) - 1, carry', front @ ds' @ ?x # rest)" "length ds' = length ds" "b58_digits ds'" "unat carry' < unat multiplier"
    "unat carry' * 58 ^ length ds + b58_number ds' = unat multiplier * b58_number ds + unat (?c div 58)"
    using snoc.IH[of "?c div 58" "?x # rest"] sum(2) digits(2) by auto
  have "(unat carry' * 58 ^ length ds + b58_number ds') * 58 + unat ?c mod 58 = (unat multiplier * b58_number ds) * 58 + unat ?c"
    unfolding IH(5) by (simp add: algebra_simps)
  then have "unat carry' * 58 ^ length (ds @ [d]) + b58_number (ds' @ [?x]) = unat multiplier * b58_number (ds @ [d]) + unat carry"
    by (simp add: sum(1) algebra_simps)
  moreover have "b58_digits (ds' @ [?x])" using IH(3) by (auto simp: b58_digits_def)
  ultimately show ?case
    using step IH(1,2,4) by (intro exI[of _ carry'] exI[of _ "ds' @ [?x]"]) simp
qed

text \<open>Finishing with the carry: one digit at a time, or three.\<close>

lemma put_before: "xs \<noteq> [] \<Longrightarrow> put (xs @ ys) (int (length xs) - 1) v = Some (butlast xs @ v # ys)"
  using put_at[of "int (length xs) - 1" "butlast xs" "last xs" ys v] by (cases xs rule: rev_cases) auto

lemma finish_carry_in_place:
  assumes "digit_count (unat carry) \<le> length front"
  shows "\<exists>ws. finish_carry (int (length front) - 1) carry (front @ rest)
      = Some (int (length front - length ws) - 1, take (length front - length ws) front @ ws @ rest)
    \<and> b58_digits ws \<and> b58_number ws = unat carry \<and> length ws = digit_count (unat carry)"
  using assms
proof (induction "unat carry" arbitrary: carry front rest rule: less_induct)
  case less
  show ?case
  proof (cases "carry = 0")
    case True
    then show ?thesis by (subst finish_carry.simps) (simp add: b58_digits_def)
  next
    case False
    let ?x = "ucast (carry mod 58) :: byte"
    have pos: "0 < unat carry" using False by (simp add: unat_gt_0)
    have front: "front \<noteq> []" "digit_count (unat (carry div 58)) \<le> length (butlast front)"
      using less.prems digit_count_step[OF pos] by auto
    have step: "finish_carry (int (length front) - 1) carry (front @ rest)
      = finish_carry (int (length (butlast front)) - 1) (carry div 58) (butlast front @ ?x # rest)"
      using False put_before[OF front(1)] front(1) by (subst finish_carry.simps) (simp add: of_nat_diff Suc_leI)
    have "unat (carry div 58) < unat carry" using pos by simp
    from less.hyps[OF this front(2), of "?x # rest"] obtain ws where ws:
      "finish_carry (int (length (butlast front)) - 1) (carry div 58) (butlast front @ ?x # rest)
        = Some (int (length (butlast front) - length ws) - 1, take (length (butlast front) - length ws) (butlast front) @ ws @ ?x # rest)"
      "b58_digits ws" "b58_number ws = unat carry div 58" "length ws = digit_count (unat carry div 58)" by auto
    have "take (length (butlast front) - length ws) (butlast front) = take (length front - length (ws @ [?x])) front"
      by (simp add: take_butlast butlast_conv_take min_def)
    then show ?thesis
      using step ws digit_count_step[OF pos] by (intro exI[of _ "ws @ [?x]"]) (auto simp: b58_digits_def)
  qed
qed

lemma three_digits_shift: "n * 58 ^ 3 + b58_number [a, b, c] = ((n * 58 + unat a) * 58 + unat b) * 58 + unat c"
  by (simp add: b58_number_def power3_eq_cube algebra_simps)

lemma last_three:
  assumes "3 \<le> length xs"
  obtains ys a b c where "xs = ys @ [a, b, c]"
proof -
  obtain c b a zs where "rev xs = c # b # a # zs"
    using assms by (cases "rev xs"; cases "tl (rev xs)"; cases "tl (tl (rev xs))") (auto simp flip: length_rev[of xs])
  then have "xs = rev zs @ [a, b, c]" by (metis append_assoc rev.simps append_Cons append_Nil rev_rev_ident)
  then show thesis by (rule that)
qed

lemma finish_unrolled_in_place:
  assumes "digit_count (unat carry) \<le> length front"
  shows "\<exists>carry' ws. finish_unrolled (int (length front) - 1) carry (front @ rest)
      = Some (int (length front - length ws) - 1, carry', take (length front - length ws) front @ ws @ rest)
    \<and> b58_digits ws \<and> unat carry' * 58 ^ length ws + b58_number ws = unat carry
    \<and> digit_count (unat carry') + length ws = digit_count (unat carry)"
  using assms
proof (induction "unat carry" arbitrary: carry front rest rule: less_induct)
  case less
  show ?case
  proof (cases "carry > 58 * 58")
    case False
    then show ?thesis by (subst finish_unrolled.simps) (simp add: b58_digits_def)
  next
    case True
    let ?c1 = "carry div 58" let ?c2 = "?c1 div 58" let ?c3 = "?c2 div 58"
    let ?ws = "[ucast (?c2 mod 58), ucast (?c1 mod 58), ucast (carry mod 58)] :: byte list"
    have big: "58 * 58 < unat carry" using True by (simp add: word_less_nat_alt)
    have count: "digit_count (unat carry) = digit_count (unat ?c3) + 3"
      using big digit_count_step[of "unat carry"] digit_count_step[of "unat carry div 58"] digit_count_step[of "unat carry div 58 div 58"]
      by (simp add: div_greater_zero_iff div_mult2_eq[symmetric])
    have "3 \<le> length front" using less.prems count by simp
    then obtain front' a b c where front: "front = front' @ [a, b, c]" by (rule last_three)
    have step: "finish_unrolled (int (length front) - 1) carry (front @ rest)
      = finish_unrolled (int (length front') - 1) ?c3 (front' @ ?ws @ rest)"
      using True put_at[of "2 + int (length front')" "front' @ [a, b]" c rest "ucast (carry mod 58)"]
        put_at[of "1 + int (length front')" "front' @ [a]" b "ucast (carry mod 58) # rest" "ucast (?c1 mod 58)"]
        put_at[of "int (length front')" front' a "ucast (?c1 mod 58) # ucast (carry mod 58) # rest" "ucast (?c2 mod 58)"]
      by (subst finish_unrolled.simps) (simp add: front Let_def)
    have "unat ?c3 < unat carry" using big by (simp add: div_mult2_eq[symmetric])
    moreover have "digit_count (unat ?c3) \<le> length front'" using less.prems count front by simp
    ultimately obtain carry' ws where ws: "finish_unrolled (int (length front') - 1) ?c3 (front' @ ?ws @ rest)
        = Some (int (length front' - length ws) - 1, carry', take (length front' - length ws) front' @ ws @ ?ws @ rest)"
      "b58_digits ws" "unat carry' * 58 ^ length ws + b58_number ws = unat ?c3"
      "digit_count (unat carry') + length ws = digit_count (unat ?c3)"
      using less.hyps[of ?c3 front' "?ws @ rest"] by auto
    have "unat ?c3 * 58 ^ 3 + b58_number ?ws = unat carry"
      unfolding three_digits_shift by (simp only: unat_digit unat_58 div_mult_mod_eq)
    then have "unat carry' * 58 ^ length (ws @ ?ws) + b58_number (ws @ ?ws) = unat carry"
      unfolding b58_number_append ws(3)[symmetric] by (simp add: power_add power3_eq_cube algebra_simps)
    moreover have "b58_digits (ws @ ?ws)" using ws(2) by (auto simp: b58_digits_def)
    ultimately show ?thesis
      using step ws(1,4) count by (intro exI[of _ carry'] exI[of _ "ws @ ?ws"]) (simp add: front)
  qed
qed

text \<open>One round: the digits of \<open>v\<close> become the digits of \<open>v * multiplier + carry\<close>.\<close>

lemma canonical_extended:
  assumes "canonical ds" "b58_digits ds'" "length ds' = length ds" "b58_digits ws" "b58_number ws = c" "length ws = digit_count c"
    and number: "c * 58 ^ length ds + b58_number ds' = v" and grown: "b58_number ds \<le> v"
  shows "canonical (ws @ ds')" "b58_number (ws @ ds') = v" "length (ws @ ds') = digit_count v"
proof -
  have less: "b58_number ds' < 58 ^ length ds" using b58_number_less[OF assms(2)] assms(3) by simp
  have "digit_count v = digit_count c + length ds"
  proof (cases "c = 0")
    case True
    then have "digit_count v \<le> length ds" using number less by (simp add: digit_count_le)
    moreover have "length ds \<le> digit_count v" using digit_count_mono[OF grown] assms(1) by (simp add: canonical_def)
    ultimately show ?thesis using True by simp
  next
    case False
    then show ?thesis using digit_count_shift[of c "b58_number ds'" "length ds"] number less by simp
  qed
  then show len: "length (ws @ ds') = digit_count v" using assms(3,6) by simp
  show v: "b58_number (ws @ ds') = v" using assms(3,5) number by (simp add: b58_number_append)
  show "canonical (ws @ ds')" using assms(2,4) len unfolding canonical_def v by (auto simp: b58_digits_def)
qed

lemma take_bytes_number: "length bs \<le> 7 \<Longrightarrow> unat (take_bytes bs) = bytes_number bs"
proof (induction bs rule: rev_induct)
  case Nil
  then show ?case by (simp add: take_bytes_def)
next
  case (snoc b bs)
  have "bytes_number (bs @ [b]) < 256 ^ 7"
    using bytes_number_less[of "bs @ [b]"] power_increasing[of "length (bs @ [b])" 7 "256 :: nat"] snoc.prems by simp
  moreover have "unat b < 256" using unsigned_less[of b] by simp
  ultimately show ?case
    using snoc by (simp add: take_bytes_def push_bit_eq_mult unat_word_ariths unsigned_ucast_eq take_bit_nat_eq_self)
qed

lemma unat_multiplier:
  assumes "k \<le> 7"
  shows "unat (push_bit (k * 8) 1 :: u64) = 256 ^ k"
proof -
  have "k = 0 \<or> k = 1 \<or> k = 2 \<or> k = 3 \<or> k = 4 \<or> k = 5 \<or> k = 6 \<or> k = 7" using assms by arith
  then show ?thesis by (elim disjE) simp_all
qed

lemma canonical_Nil [simp]: "canonical []"
  by (simp add: canonical_def b58_digits_def)

lemma round_in_place:
  assumes m: "unat m = 256 ^ k" and "canonical ds" "k \<le> 7" "length chunk = k" "0 < k"
    and v: "v = b58_number ds * 256 ^ k + bytes_number chunk" and fits: "digit_count v \<le> length front + length ds"
  shows "\<exists>front' ds' it carry buf it' carry' buf'.
      multiply_digits (int (length front) - 1) m (int (length front + length ds) - 1) (take_bytes chunk) (front @ ds @ rest)
        = Some (it, carry, buf)
    \<and> finish_unrolled it carry buf = Some (it', carry', buf')
    \<and> finish_carry it' carry' buf' = Some (int (length front') - 1, front' @ ds' @ rest)
    \<and> canonical ds' \<and> b58_number ds' = v \<and> length front' + length ds' = length front + length ds"
proof -
  have "(256 :: nat) ^ k \<le> 256 ^ 7" using assms(3) by (intro power_increasing) auto
  then have "unat m \<le> 2 ^ 56" unfolding m by simp
  moreover have c: "unat (take_bytes chunk) = bytes_number chunk" using assms(3,4) by (simp add: take_bytes_number)
  moreover have "unat (take_bytes chunk) < unat m" unfolding m c using bytes_number_less[of chunk] assms(4) by simp
  moreover have "b58_digits ds" using assms(2) by (simp add: canonical_def)
  ultimately obtain carry ds1 where one: "multiply_digits (int (length front) - 1) m (int (length front + length ds) - 1) (take_bytes chunk) (front @ ds @ rest)
      = Some (int (length front) - 1, carry, front @ ds1 @ rest)" "length ds1 = length ds" "b58_digits ds1"
    "unat carry * 58 ^ length ds + b58_number ds1 = v"
    using multiply_digits_in_place[of m "take_bytes chunk" ds front rest] by (auto simp: m v algebra_simps)
  have grown: "b58_number ds \<le> v" unfolding v by (rule trans_le_add1) simp
  have room: "digit_count (unat carry) \<le> length front"
  proof (cases "unat carry = 0")
    case False
    moreover have "b58_number ds1 < 58 ^ length ds" using b58_number_less[OF one(3)] one(2) by simp
    ultimately show ?thesis using digit_count_shift[of "unat carry" "b58_number ds1" "length ds"] one(4) fits by simp
  qed simp
  from finish_unrolled_in_place[OF this, of "ds1 @ rest"] obtain carry' ws where two:
    "finish_unrolled (int (length front) - 1) carry (front @ ds1 @ rest)
      = Some (int (length front - length ws) - 1, carry', take (length front - length ws) front @ ws @ ds1 @ rest)"
    "b58_digits ws" "unat carry' * 58 ^ length ws + b58_number ws = unat carry" "digit_count (unat carry') + length ws = digit_count (unat carry)" by auto
  let ?front = "take (length front - length ws) front"
  have "digit_count (unat carry') \<le> length ?front" "length ?front = length front - length ws" using two(4) room by auto
  with finish_carry_in_place[of carry' ?front "ws @ ds1 @ rest"] obtain us where three:
    "finish_carry (int (length front - length ws) - 1) carry' (?front @ ws @ ds1 @ rest)
      = Some (int (length ?front - length us) - 1, take (length ?front - length us) ?front @ us @ ws @ ds1 @ rest)"
    "b58_digits us" "b58_number us = unat carry'" "length us = digit_count (unat carry')" by auto
  have digits: "b58_digits (us @ ws)" "b58_number (us @ ws) = unat carry" "length (us @ ws) = digit_count (unat carry)"
    using two three by (auto simp: b58_digits_def b58_number_append)
  note ext = canonical_extended[OF assms(2) one(3,2) digits one(4) grown]
  let ?front' = "take (length ?front - length us) ?front"
  have "length ?front' = length ?front - length us" "length us + length ws \<le> length front" using digits(3) room by auto
  then show ?thesis
    using one(1) two(1) three(1) ext(1,2) one(2)
    by (intro exI[of _ ?front'] exI[of _ "(us @ ws) @ ds1"] exI conjI) (assumption | simp)+
qed

lemma shifted_less:
  assumes "(v :: nat) * 256 ^ n + r < b"
  shows "v < b"
proof -
  have "v \<le> v * 256 ^ n + r" by (rule trans_le_add1) simp
  then show ?thesis using assms by (rule le_less_trans)
qed

lemma process_bytes_Nil [simp]: "process_bytes [] k b58_end b58_begin_minus1 buf = Some (b58_begin_minus1, buf)"
  by (subst process_bytes.simps) simp

lemma process_bytes_in_place:
  assumes "canonical ds" "length front + length ds = L" "b58_number ds * 256 ^ length input + bytes_number input < 58 ^ L"
    and "0 < k" "k \<le> 7" "input \<noteq> [] \<Longrightarrow> k \<le> length input \<and> 7 dvd length input - k"
  shows "\<exists>front' ds'. process_bytes input k (int L) (int (length front) - 1) (front @ ds @ rest)
      = Some (int (length front') - 1, front' @ ds' @ rest)
    \<and> canonical ds' \<and> b58_number ds' = b58_number ds * 256 ^ length input + bytes_number input \<and> length front' + length ds' = L"
  using assms
proof (induction "length input" arbitrary: input ds front k rule: less_induct)
  case less
  show ?case
  proof (cases "input = []")
    case True
    then show ?thesis
      using less.prems by (intro exI[of _ front] exI[of _ ds]) simp
  next
    case False
    let ?chunk = "take k input" and ?input = "drop k input"
    let ?v = "b58_number ds * 256 ^ k + bytes_number ?chunk"
    have k: "k \<le> length input" "7 dvd length input - k" using less.prems(6) False by auto
    have "bytes_number input = bytes_number ?chunk * 256 ^ (length input - k) + bytes_number ?input"
      using bytes_number_append[of ?chunk ?input] k(1) by simp
    then have total: "b58_number ds * 256 ^ length input + bytes_number input = ?v * 256 ^ length ?input + bytes_number ?input"
      using k(1) by (simp add: algebra_simps flip: power_add)
    have "?v < 58 ^ L" using less.prems(3) unfolding total by (rule shifted_less)
    then have "digit_count ?v \<le> length front + length ds"
      using less.prems(2) by (simp add: digit_count_le)
    from round_in_place[OF unat_multiplier[OF less.prems(5)] less.prems(1,5) _ less.prems(4) refl this, of rest] k(1)
    obtain front1 ds1 it carry buf it' carry' buf' where one:
      "multiply_digits (int (length front) - 1) (push_bit (k * 8) 1) (int L - 1) (take_bytes ?chunk) (front @ ds @ rest) = Some (it, carry, buf)"
      "finish_unrolled it carry buf = Some (it', carry', buf')"
      "finish_carry it' carry' buf' = Some (int (length front1) - 1, front1 @ ds1 @ rest)"
      "canonical ds1" "b58_number ds1 = ?v" "length front1 + length ds1 = L"
      unfolding less.prems(2) by auto
    have step: "process_bytes input k (int L) (int (length front) - 1) (front @ ds @ rest)
      = process_bytes ?input 7 (int L) (int (length front1) - 1) (front1 @ ds1 @ rest)"
      using False one(1-3) by (subst process_bytes.simps) (simp add: Let_def del: push_bit_of_1)
    have "length ?input < length input" using less.prems(4) False by simp
    moreover have "7 \<le> length ?input \<and> 7 dvd length ?input - 7" if "?input \<noteq> []"
    proof -
      have "7 dvd length ?input" using k(2) by simp
      then show ?thesis using that by (auto dest!: dvd_imp_le simp del: length_drop)
    qed
    moreover have "b58_number ds1 * 256 ^ length ?input + bytes_number ?input < 58 ^ L"
      using less.prems(3) total one(5) by simp
    ultimately show ?thesis
      using less.hyps[of ?input ds1 front1 7] one(4,5,6) unfolding step total by simp
  qed
qed

lemma translate_digits_in_place:
  assumes "b58_digits ds" "end_of_digits = int (length written + length mid + length ds)"
  shows "\<exists>mid'. translate_digits end_of_digits (int (length written + length mid)) (int (length written)) (written @ mid @ ds @ rest)
      = Some (int (length written + length ds), written @ map (\<lambda>d. chr (b58_alphabet ! unat d)) ds @ mid' @ rest) \<and> length mid' = length mid"
  using assms
proof (induction ds arbitrary: written mid)
  case Nil
  then show ?case by (intro exI[of _ mid]) (subst translate_digits.simps, simp)
next
  case (Cons d ds)
  let ?c = "chr (b58_alphabet ! unat d)"
  obtain mid1 where mid1: "put (written @ mid @ d # ds @ rest) (int (length written)) ?c = Some (written @ ?c # mid1 @ ds @ rest)" "length mid1 = length mid"
  proof (cases mid)
    case Nil
    then show thesis using that[of "[]"] by (simp add: buffer_simps)
  next
    case (Cons m mid0)
    then show thesis using that[of "mid0 @ [d]"] by (simp add: buffer_simps)
  qed
  have "unat d < length b58_alphabet" using Cons.prems(1) by (simp add: b58_digits_def b58_alphabet_def)
  then have "translate_digits end_of_digits (int (length written + length mid)) (int (length written)) (written @ mid @ (d # ds) @ rest)
    = translate_digits end_of_digits (int (length (written @ [?c]) + length mid1)) (int (length (written @ [?c]))) ((written @ [?c]) @ mid1 @ ds @ rest)"
    using Cons.prems(2) mid1 get_at[of "int (length written + length mid)" "written @ mid" d "ds @ rest"]
    by (subst translate_digits.simps) (simp add: add.commute)
  moreover have "b58_digits ds" "end_of_digits = int (length (written @ [?c]) + length mid1 + length ds)"
    using Cons.prems mid1(2) by (auto simp: b58_digits_def)
  ultimately show ?case
    using Cons.IH[of "written @ [?c]" mid1] mid1(2) by auto
qed

subsection \<open>The text\<close>

text \<open>The base-58 numeral of a number, most significant digit first and without leading zeros.\<close>

fun b58_numeral :: "nat \<Rightarrow> byte list" where
  "b58_numeral n = (if n = 0 then [] else b58_numeral (n div 58) @ [chr (b58_alphabet ! (n mod 58))])"

declare b58_numeral.simps [simp del]

lemma b58_numeral_0 [simp]: "b58_numeral 0 = []"
  by (simp add: b58_numeral.simps)

lemma length_b58_numeral: "length (b58_numeral n) = digit_count n"
proof (induction n rule: b58_numeral.induct)
  case (1 n)
  then show ?case by (cases "n = 0") (simp_all add: b58_numeral.simps[of n] digit_count.simps[of n])
qed

lemma canonical_numeral: "canonical ds \<Longrightarrow> map (\<lambda>d. chr (b58_alphabet ! unat d)) ds = b58_numeral (b58_number ds)"
proof (induction ds rule: rev_induct)
  case Nil
  then show ?case by (simp add: b58_numeral.simps)
next
  case (snoc d ds)
  let ?n = "b58_number ds * 58 + unat d"
  have d: "unat d < 58" "b58_digits ds" "digit_count ?n = Suc (length ds)"
    using snoc.prems by (auto simp: canonical_def b58_digits_def)
  then have "0 < ?n" "?n div 58 = b58_number ds" "?n mod 58 = unat d" by (cases "?n = 0", auto)
  moreover then have "canonical ds" using d digit_count_step[of ?n] by (simp add: canonical_def)
  ultimately show ?case using snoc.IH by (simp add: b58_numeral.simps[of ?n])
qed

text \<open>What the numeral of a given size is good for: different numbers have different numerals.\<close>

lemma alphabet_distinct:
  assumes "i < 58" "j < 58" "chr (b58_alphabet ! i) = chr (b58_alphabet ! j)"
  shows "i = j"
proof -
  have "distinct b58_alphabet" by code_simp
  moreover have "length b58_alphabet = 58" by (simp add: b58_alphabet_def)
  ultimately show ?thesis using assms by (simp add: nth_eq_iff_index_eq)
qed

lemma b58_numeral_inject: "b58_numeral m = b58_numeral n \<Longrightarrow> m = n"
proof (induction m arbitrary: n rule: b58_numeral.induct)
  case (1 m)
  show ?case
  proof (cases "m = 0 \<or> n = 0")
    case True
    then show ?thesis using 1(2) by (auto simp: b58_numeral.simps split: if_splits)
  next
    case False
    then have "b58_numeral (m div 58) = b58_numeral (n div 58)" "chr (b58_alphabet ! (m mod 58)) = chr (b58_alphabet ! (n mod 58))"
      using 1(2) by (simp_all add: b58_numeral.simps[of m] b58_numeral.simps[of n])
    then have "m div 58 = n div 58" "m mod 58 = n mod 58" using 1(1) False alphabet_distinct by auto
    then show ?thesis by (metis div_mult_mod_eq)
  qed
qed

lemma expected_size:
  assumes "length bs < 2 ^ 55"
  shows "unat (expected_encoded_size (of_nat (length bs))) = length bs * 350 div 256 + 1"
proof -
  have "unat (of_nat (length bs) * 350 :: u64) = length bs * 350"
    using assms by (simp add: unat_word_ariths unat_of_nat take_bit_nat_eq_self)
  moreover have "length bs * 350 div 256 + 1 < 2 ^ 64" using assms by simp
  ultimately show ?thesis
    by (simp add: expected_encoded_size_def drop_bit_eq_div unat_word_ariths unat_div)
qed

lemma process_input_in_place:
  assumes short: "length input < 2 ^ 55" and L: "L = length input * 350 div 256 + 1" "L \<le> length buf"
  shows "\<exists>front ds. process_bytes input (unat ((of_nat (length input) - 1 :: u64) mod 7 + 1)) (int L) (int L - 1) buf
      = Some (int (length front) - 1, front @ ds @ drop L buf)
    \<and> canonical ds \<and> b58_number ds = bytes_number input \<and> length front + length ds = L"
proof (cases "input = []")
  case True
  then show ?thesis using L by (intro exI[of _ "take L buf"] exI[of _ "[]"]) simp
next
  case False
  let ?k = "unat ((of_nat (length input) - 1 :: u64) mod 7 + 1)"
  have "unat (of_nat (length input) :: u64) = length input" using short by (simp add: unat_of_nat take_bit_nat_eq_self)
  then have "unat (of_nat (length input) - 1 :: u64) = length input - 1"
    using False by (subst unat_sub) (auto simp: word_le_nat_alt Suc_leI)
  then have "?k = (length input - 1) mod 7 + 1"
    by (simp add: unat_word_ariths unat_mod)
  then have k: "0 < ?k" "?k \<le> 7" "?k \<le> length input \<and> 7 dvd length input - ?k"
    using False by (cases "length input"; auto simp: minus_mod_eq_mult_div)+
  have "bytes_number input < 58 ^ L" using less_trans[OF bytes_number_less estimate_suffices] L(1) by simp
  then show ?thesis
    using process_bytes_in_place[of "[]" "take L buf" L input ?k "drop L buf"] k L(2) by simp
qed

lemma encode_writes:
  assumes "length input_data < 2 ^ 55" and fits: "length (dropWhile (\<lambda>b. b = 0) input_data) * 350 div 256 + 2 \<le> length buf"
  shows "\<exists>buf'. encode input_data buf = Some (int (length (b58_numeral (bytes_number input_data))) + 1, buf') \<and> length buf' = length buf
    \<and> take (length (b58_numeral (bytes_number input_data)) + 1) buf' = b58_numeral (bytes_number input_data) @ [0]"
proof -
  obtain input where input: "dropWhile (\<lambda>b. b = 0) input_data = input" by simp
  obtain L where L: "L = length input * 350 div 256 + 1" by simp
  let ?n = "b58_numeral (bytes_number input_data)"
  have short: "length input < 2 ^ 55" using assms(1) length_dropWhile_le[of "\<lambda>b. b = 0" input_data] input by simp
  obtain front ds where one: "process_bytes input (unat ((of_nat (length input) - 1 :: u64) mod 7 + 1)) (int L) (int L - 1) buf
      = Some (int (length front) - 1, front @ ds @ drop L buf)"
    "canonical ds" "b58_number ds = bytes_number input" "length front + length ds = L"
    using process_input_in_place[OF short L, of buf] fits input L by auto
  have numeral: "map (\<lambda>d. chr (b58_alphabet ! unat d)) ds = ?n"
    using canonical_numeral[OF one(2)] one(3) bytes_number_skip_zeros[of input_data] input by simp
  then have len: "length ?n = length ds" by (metis length_map)
  from translate_digits_in_place[of ds "int L" "[]" front "drop L buf"] one(2,4)
  obtain mid where two: "translate_digits (int L) (int (length front)) 0 (front @ ds @ drop L buf) = Some (int (length ds), ?n @ mid @ drop L buf)"
    "length mid = length front" by (auto simp: canonical_def numeral)
  have room: "L < length buf" using fits input L by simp
  then obtain m tail where three: "mid @ drop L buf = m # tail" by (cases "mid @ drop L buf") auto
  have "put (?n @ mid @ drop L buf) (int (length ds)) 0 = Some (?n @ 0 # tail)" unfolding three using len by (simp add: buffer_simps)
  moreover have "length (?n @ 0 # tail) = length buf"
    using arg_cong[OF three, of length] two(2) one(4) len room by simp
  moreover have "uint (expected_encoded_size (of_nat (length input))) = int L"
    using arg_cong[OF expected_size[OF short], of int] L by simp
  ultimately show ?thesis
    using one(1) two(1) len unfolding encode_def Let_def input by (intro exI[of _ "?n @ 0 # tail"]) simp
qed

subsection \<open>Public keys\<close>

lemma bytes_number_inject: "length xs = length ys \<Longrightarrow> bytes_number xs = bytes_number ys \<Longrightarrow> xs = ys"
proof (induction xs arbitrary: ys rule: rev_induct)
  case (snoc x xs)
  then obtain ys' y where ys: "ys = ys' @ [y]" by (cases ys rule: rev_cases) auto
  have "unat x < 256" "unat y < 256" using unsigned_less[of x] unsigned_less[of y] by simp_all
  moreover have eq: "bytes_number xs * 256 + unat x = bytes_number ys' * 256 + unat y" using snoc.prems(2) ys by simp
  ultimately have "bytes_number xs = bytes_number ys'"
    using arg_cong[OF eq, of "\<lambda>n. n div 256"] by simp
  moreover have "unat x = unat y" using eq calculation by simp
  ultimately show ?case using snoc.IH[of ys'] snoc.prems(1) ys by (simp add: word_unat_eq_iff)
qed simp

text \<open>The 33 bytes of a compressed key, which start with 2 or 3.\<close>

definition compressed_key :: "byte list \<Rightarrow> bool" where
  "compressed_key key_data \<longleftrightarrow> length key_data = 33 \<and> hd key_data \<in> {2, 3}"

lemma compressed_key_size:
  assumes "compressed_key key" "length check = 4"
  shows "digit_count (bytes_number (key @ check)) = 50"
proof -
  obtain b bs where key: "key @ check = [b] @ bs" "b \<in> {2, 3}" "length bs = 36"
    using assms by (cases key) (auto simp: compressed_key_def)
  let ?n = "bytes_number (key @ check)"
  have "?n = unat b * 256 ^ 36 + bytes_number bs" unfolding key(1) bytes_number_append key(3) by (simp add: bytes_number_def[of "[b]"])
  moreover have "bytes_number bs < 256 ^ 36" using bytes_number_less[of bs] key(3) by simp
  ultimately have "?n < 58 ^ 50" "\<not> ?n < 58 ^ 49" using key(2) by auto
  then show ?thesis using digit_count_le[of ?n 50] digit_count_le[of ?n 49] by simp
qed

lemma public_key_into_buf_writes:
  assumes "compressed_key key" "public_key_size_buffer prefix \<le> length buf"
  shows "\<exists>buf'. public_key_into_buf hash prefix key buf = Inr (buf', length prefix + 51)
    \<and> take (length prefix + 51) buf' = prefix @ b58_numeral (bytes_number (key @ u32_bytes (hash key))) @ [0] \<and> length buf' = length buf"
proof -
  obtain data where data: "key @ u32_bytes (hash key) = data" by simp
  have size: "length (b58_numeral (bytes_number data)) = 50" and len: "length data = 37"
    using compressed_key_size[OF assms(1), of "u32_bytes (hash key)"] assms(1)
    by (simp_all add: length_b58_numeral u32_bytes_def compressed_key_def flip: data)
  have "dropWhile (\<lambda>b. b = 0) data = data" using assms(1) by (cases key) (auto simp: compressed_key_def simp flip: data)
  moreover have "52 \<le> length (drop (length prefix) buf)" using assms(2) by (simp add: public_key_size_buffer_def)
  ultimately obtain buf' where "encode data (drop (length prefix) buf) = Some (51, buf')" "length buf' = length buf - length prefix"
      "take 51 buf' = b58_numeral (bytes_number data) @ [0]"
    using encode_writes[of data "drop (length prefix) buf"] by (auto simp: len size)
  then show ?thesis
    using assms(2) by (simp add: public_key_into_buf_def in_buffer_def public_key_size_buffer_def data)
qed

lemma public_key_texts_differ:
  assumes "compressed_key k" "compressed_key l" "length (c :: byte list) = 4" "length d = 4"
    and "b58_numeral (bytes_number (k @ c)) = b58_numeral (bytes_number (l @ d))"
  shows "k = l"
  using bytes_number_inject[of "k @ c" "l @ d"] b58_numeral_inject[OF assms(5)] assms(1-4) by (auto simp: compressed_key_def)

subsection \<open>Properties\<close>

text \<open>C12: The text of a public key is the address prefix and the base-58 numeral of its 33 bytes and its check sum, 50 digits in
  all; the conversion ends, no carry overflows, it stays in a buffer of the announced size, and another key has another text.\<close>

theorem public_key_text_is_base58:
  assumes "compressed_key key" "public_key_size_buffer prefix \<le> length buf"
  shows "\<exists>buf'. public_key_into_buf hash prefix key buf = Inr (buf', length prefix + 51) \<and> length buf' = length buf
    \<and> take (length prefix + 51) buf' = prefix @ b58_numeral (bytes_number (key @ u32_bytes (hash key))) @ [0]
    \<and> (\<forall>key'. compressed_key key' \<longrightarrow> key' \<noteq> key
          \<longrightarrow> b58_numeral (bytes_number (key' @ u32_bytes (hash key'))) \<noteq> b58_numeral (bytes_number (key @ u32_bytes (hash key))))"
proof -
  have "length (u32_bytes w) = 4" for w by (simp add: u32_bytes_def)
  then have "key' = key" if "compressed_key key'" "b58_numeral (bytes_number (key' @ u32_bytes (hash key'))) = b58_numeral (bytes_number (key @ u32_bytes (hash key)))" for key'
    using public_key_texts_differ[OF that(1) assms(1) _ _ that(2)] by simp
  then show ?thesis using public_key_into_buf_writes[OF assms, of hash] by blast
qed

theorem public_key_text_is_base58_witness:
  "\<exists>buf'. public_key_into_buf (\<lambda>_. 0x01020304) [83, 84, 77] (2 # replicate 32 0xff) (replicate 55 7) = Inr (buf', 54)
    \<and> take 54 buf' = [83, 84, 77] @ b58_numeral (bytes_number (2 # replicate 32 0xff @ u32_bytes 0x01020304)) @ [0]"
  using public_key_text_is_base58[of "2 # replicate 32 0xff" "[83, 84, 77]" "replicate 55 7" "\<lambda>_. 0x01020304"]
  by (auto simp: compressed_key_def public_key_size_buffer_def)

end
