(* ===== verification/Accounts_Collector.thy ===== *)
theory Accounts_Collector
  imports Cached_Data
begin

text \<open>
  What an operation contributes to the tables \<open>accounts\<close> and \<open>account_operations\<close>
  (\<open>accounts_collector.cpp\<close>, \<open>accounts_collector.h\<close>), with the filters the collector asks
  (\<open>filter_collector.cpp\<close>, \<open>blockchain_data_filter.cpp\<close>).

  Of an operation only what the code looks at is kept: its type number, the fields of the variants with
  a visitor of their own, and its packed form.  Which accounts an operation concerns is computed by the
  protocol library (\<open>operation_get_owner_impacted_accounts\<close>) and is a parameter, two ordered lists
  without duplicates.  Of the chain database the collector uses the account index (name to id) and its
  own index of operation counters (id to \<open>operation_count\<close>).  The references to the chain database and to
  the cache are members of the collector, and fields of its record.

  Shown: the numbers an account's operations get are consecutive without a filter and increasing with
  one; rows only name accounts that were registered before; a new account gets the operation that
  created it.
\<close>

type_synonym account_name = string

datatype pow2_work = Pow2_work account_name | Equihash_pow_work account_name

datatype op_payload =
    Account_create account_name
  | Account_create_with_delegation account_name
  | Create_claimed_account account_name
  | Pow account_name
  | Pow2 pow2_work
  | Account_created account_name account_name
  | Hardfork int
  | Custom_json string
  | Other_operation

record hive_operation =
  op_which :: int
  op_payload :: op_payload
  op_packed :: string

record chain_db =
  chain_accounts :: "account_name \<rightharpoonup> int"
  operation_count :: "int \<rightharpoonup> u32"


subsection \<open>The filter\<close>

text \<open>The three trackers are objects of the node's filter library; an absent one tracks everything.\<close>

record blockchain_filter =
  filter_enabled :: bool
  trx_in_block_filter_accepted :: "int set"
  accounts_filter_tracker :: "(account_name \<Rightarrow> bool) option"
  operations_filter_tracker :: "(hive_operation \<Rightarrow> bool) option"
  operations_body_filter_tracker :: "(hive_operation \<Rightarrow> bool) option"

definition new_filter :: "bool \<Rightarrow> blockchain_filter" where
  "new_filter enabled = \<lparr>filter_enabled = enabled, trx_in_block_filter_accepted = {}, accounts_filter_tracker = None,
     operations_filter_tracker = None, operations_body_filter_tracker = None\<rparr>"

definition is_trx_accepted :: "blockchain_filter \<Rightarrow> int \<Rightarrow> bool" where
  "is_trx_accepted f trx \<longleftrightarrow> \<not> filter_enabled f \<or> trx \<in> trx_in_block_filter_accepted f"

definition is_tracked_account :: "blockchain_filter \<Rightarrow> account_name \<Rightarrow> bool" where
  "is_tracked_account f name = (case accounts_filter_tracker f of None \<Rightarrow> True | Some tracked \<Rightarrow> tracked name)"

definition is_tracked_operation :: "blockchain_filter \<Rightarrow> hive_operation \<Rightarrow> bool" where
  "is_tracked_operation f op \<longleftrightarrow>
     (case operations_filter_tracker f of None \<Rightarrow> True | Some tracked \<Rightarrow> tracked op) \<and>
     (case operations_body_filter_tracker f of None \<Rightarrow> True | Some tracked \<Rightarrow> tracked op)"

definition remember_trx_id :: "blockchain_filter \<Rightarrow> int \<Rightarrow> blockchain_filter" where
  "remember_trx_id f trx =
     (if filter_enabled f \<and> trx \<noteq> -1
      then f\<lparr>trx_in_block_filter_accepted := insert trx (trx_in_block_filter_accepted f)\<rparr> else f)"

text \<open>\<open>fill\<close>: what the options give for each tracker, absent when it is empty.\<close>

definition fill_filter ::
    "(account_name \<Rightarrow> bool) option \<Rightarrow> (hive_operation \<Rightarrow> bool) option \<Rightarrow> (hive_operation \<Rightarrow> bool) option \<Rightarrow>
     blockchain_filter \<Rightarrow> blockchain_filter" where
  "fill_filter af of' obf f =
     (if \<not> filter_enabled f then f
      else f\<lparr>filter_enabled := \<not> (Option.is_none af \<and> Option.is_none of' \<and> Option.is_none obf),
             accounts_filter_tracker := (case af of None \<Rightarrow> accounts_filter_tracker f | Some t \<Rightarrow> Some t),
             operations_filter_tracker := (case of' of None \<Rightarrow> operations_filter_tracker f | Some t \<Rightarrow> Some t),
             operations_body_filter_tracker := (case obf of None \<Rightarrow> operations_body_filter_tracker f | Some t \<Rightarrow> Some t)\<rparr>)"

definition clear_filter :: "blockchain_filter \<Rightarrow> blockchain_filter" where
  "clear_filter f = (if filter_enabled f then f\<lparr>trx_in_block_filter_accepted := {}\<rparr> else f)"

text \<open>\<open>filter_collector\<close>: the tracked accounts of the current operation, and whether the current and
  the previous operation are tracked.\<close>

record filter_collector =
  accepted_previous :: bool
  accepted_current :: bool
  accounts_accepted :: "account_name set"

definition new_filter_collector :: filter_collector where
  "new_filter_collector = \<lparr>accepted_previous = False, accepted_current = False, accounts_accepted = {}\<rparr>"

definition fc_is_op_accepted :: "blockchain_filter \<Rightarrow> filter_collector \<Rightarrow> bool" where
  "fc_is_op_accepted f fc \<longleftrightarrow> \<not> filter_enabled f \<or> (accounts_accepted fc \<noteq> {} \<and> accepted_current fc)"

definition is_account_tracked :: "blockchain_filter \<Rightarrow> filter_collector \<Rightarrow> account_name \<Rightarrow> bool" where
  "is_account_tracked f fc name \<longleftrightarrow> \<not> filter_enabled f \<or> name \<in> accounts_accepted fc"

definition collect_tracked_account :: "blockchain_filter \<Rightarrow> account_name \<Rightarrow> filter_collector \<Rightarrow> filter_collector" where
  "collect_tracked_account f name fc =
     (if filter_enabled f \<and> is_tracked_account f name
      then fc\<lparr>accounts_accepted := insert name (accounts_accepted fc)\<rparr> else fc)"

definition is_operation_tracked :: "blockchain_filter \<Rightarrow> filter_collector \<Rightarrow> bool \<Rightarrow> bool" where
  "is_operation_tracked f fc is_current_operation \<longleftrightarrow>
     \<not> filter_enabled f \<or> (if is_current_operation then accepted_current fc else accepted_previous fc)"

definition collect_tracked_operation :: "blockchain_filter \<Rightarrow> hive_operation \<Rightarrow> filter_collector \<Rightarrow> filter_collector" where
  "collect_tracked_operation f op fc =
     (if filter_enabled f
      then fc\<lparr>accounts_accepted := {}, accepted_previous := accepted_current fc, accepted_current := is_tracked_operation f op\<rparr>
      else fc)"


subsection \<open>The collector\<close>

text \<open>\<open>the_filter\<close> is present in a \<open>filtered_accounts_collector\<close>.\<close>

record accounts_collector =
  collector_chain :: chain_db
  collector_cache :: cached_data_t
  processed_operation_id :: int
  processed_operation_type_id :: int
  collector_block_num :: u32
  creation_operation_type_id :: int
  creation_operation_id :: "int option"
  impacted :: "account_name list"
  owner_impacted :: "account_name list"
  dump_account_operations :: bool
  the_filter :: "(blockchain_filter \<times> filter_collector) option"

definition new_accounts_collector ::
    "chain_db \<Rightarrow> cached_data_t \<Rightarrow> bool \<Rightarrow> blockchain_filter option \<Rightarrow> accounts_collector" where
  "new_accounts_collector db cache dump f =
     \<lparr>collector_chain = db, collector_cache = cache, processed_operation_id = -1, processed_operation_type_id = -1,
      collector_block_num = 0, creation_operation_type_id = -1, creation_operation_id = None, impacted = [],
      owner_impacted = [], dump_account_operations = dump,
      the_filter = map_option (\<lambda>f. (f, new_filter_collector)) f\<rparr>"

text \<open>A method returns the exception it throws, if any, with the state at that point.\<close>

type_synonym collected = "haf_error option \<times> accounts_collector"

fun and_collect :: "collected \<Rightarrow> (accounts_collector \<Rightarrow> collected) \<Rightarrow> collected" where
  "and_collect (Some e, s) f = (Some e, s)"
| "and_collect (None, s) f = f s"

definition on_collect :: "hive_operation \<Rightarrow> accounts_collector \<Rightarrow> accounts_collector" where
  "on_collect op s = (case the_filter s of
     None \<Rightarrow> s
   | Some (f, fc) \<Rightarrow> s\<lparr>the_filter :=
       Some (f, fold (collect_tracked_account f) (impacted s) (collect_tracked_operation f op fc))\<rparr>)"

definition on_before_new_operation :: "accounts_collector \<Rightarrow> account_name \<Rightarrow> bool \<Rightarrow> bool" where
  "on_before_new_operation s name is_current_operation = (case the_filter s of
     None \<Rightarrow> True
   | Some (f, fc) \<Rightarrow> is_account_tracked f fc name \<and> is_operation_tracked f fc is_current_operation)"

definition is_op_accepted :: "accounts_collector \<Rightarrow> bool" where
  "is_op_accepted s = (case the_filter s of None \<Rightarrow> True | Some (f, fc) \<Rightarrow> fc_is_op_accepted f fc)"

text \<open>The counter object of an account has the id of the account, which is unique: creating it twice is
  an error of the chain database.\<close>

definition on_new_account :: "account_name \<Rightarrow> accounts_collector \<Rightarrow> collected" where
  "on_new_account name s = (case chain_accounts (collector_chain s) name of
     None \<Rightarrow> (Some (Assert_failed ''account does not exist in chain database''), s)
   | Some account_id \<Rightarrow>
       if operation_count (collector_chain s) account_id \<noteq> None
       then (Some (Assert_failed ''object already exists''), s)
       else (None, s\<lparr>collector_chain := (collector_chain s)\<lparr>operation_count := (operation_count (collector_chain s))(account_id \<mapsto> 0)\<rparr>,
         collector_cache := (collector_cache s)\<lparr>accounts := accounts (collector_cache s) @
           [\<lparr>block_number = sint (collector_block_num s), account_data_id = account_id, account_data_name = name\<rparr>]\<rparr>\<rparr>))"

definition on_new_operation ::
    "account_name \<Rightarrow> account_name \<Rightarrow> int \<Rightarrow> int \<Rightarrow> bool \<Rightarrow> accounts_collector \<Rightarrow> collected" where
  "on_new_operation name owner op_id type_id is_current_operation s =
     (let allow_add_operation = on_before_new_operation s name is_current_operation;
          db = collector_chain s; cache = collector_cache s in
      case chain_accounts db name of
        None \<Rightarrow> (None, s)
      | Some account_id \<Rightarrow> (case chain_accounts db owner of
          None \<Rightarrow> (Some Null_pointer, s)
        | Some owner_id \<Rightarrow> (case operation_count db account_id of
            None \<Rightarrow> (None, s)
          | Some count \<Rightarrow>
              let row = \<lparr>block_number = sint (collector_block_num s), ao_operation_id = op_id, ao_account_id = account_id,
                    ao_transacting_account_id = owner_id, ao_operation_seq_no = sint count, ao_op_type_id = type_id\<rparr>
              in (None, s\<lparr>collector_cache :=
                    (if dump_account_operations s \<and> allow_add_operation
                     then cache\<lparr>account_operations := account_operations cache @ [row]\<rparr> else cache),
                  collector_chain := db\<lparr>operation_count := (operation_count db)(account_id \<mapsto> count + 1)\<rparr>\<rparr>))))"

definition current_operation :: "account_name \<Rightarrow> account_name \<Rightarrow> accounts_collector \<Rightarrow> collected" where
  "current_operation name owner s =
     on_new_operation name owner (processed_operation_id s) (processed_operation_type_id s) True s"

definition process_account_creation_op :: "account_name option \<Rightarrow> accounts_collector \<Rightarrow> collected" where
  "process_account_creation_op impacted_account s =
     (let s1 = s\<lparr>creation_operation_id := Some (processed_operation_id s),
                creation_operation_type_id := processed_operation_type_id s\<rparr>
      in case impacted_account of None \<Rightarrow> (None, s1) | Some name \<Rightarrow> current_operation name name s1)"

text \<open>The visitors of the two mining operations: the account is created if it does not exist yet.\<close>

definition visit_pow :: "account_name \<Rightarrow> accounts_collector \<Rightarrow> collected" where
  "visit_pow worker s =
     (if chain_accounts (collector_chain s) worker = None then process_account_creation_op None s
      else and_collect (process_account_creation_op (Some worker) s) (\<lambda>s. (None, s\<lparr>creation_operation_id := None\<rparr>)))"

definition pow2_worker :: "pow2_work \<Rightarrow> account_name" where
  "pow2_worker work = (case work of Pow2_work worker \<Rightarrow> worker | Equihash_pow_work worker \<Rightarrow> worker)"

definition visit_account_created :: "account_name \<Rightarrow> account_name \<Rightarrow> accounts_collector \<Rightarrow> collected" where
  "visit_account_created new_account creator s =
     and_collect (on_new_account new_account s) (\<lambda>s.
     and_collect (case creation_operation_id s of
         None \<Rightarrow> (None, s)
       | Some op_id \<Rightarrow> and_collect (on_new_operation new_account creator op_id (creation_operation_type_id s) False s)
           (\<lambda>s. (None, s\<lparr>creation_operation_id := None\<rparr>))) (\<lambda>s.
     and_collect (current_operation new_account creator s) (\<lambda>s.
       if creator \<noteq> new_account then current_operation creator creator s else (None, s))))"

text \<open>The loop of the generic visitor: owners are taken in step with the impacted accounts, then the
  last owner is kept; without any owner the account itself is the owner.  The guards of the visitors ask
  \<open>accounts_collector::is_op_accepted\<close>, which is not the overridden method and always true.\<close>

fun visit_impacted :: "account_name list \<Rightarrow> account_name list \<Rightarrow> account_name option \<Rightarrow> accounts_collector \<Rightarrow> collected" where
  "visit_impacted [] owners last_owner s = (None, s)"
| "visit_impacted (name # names) [] last_owner s =
     and_collect (current_operation name (case last_owner of Some l \<Rightarrow> l | None \<Rightarrow> name) s)
       (visit_impacted names [] last_owner)"
| "visit_impacted (name # names) (owner # owners) last_owner s =
     and_collect (current_operation name owner s) (visit_impacted names owners (Some owner))"

definition visit :: "hive_operation \<Rightarrow> accounts_collector \<Rightarrow> collected" where
  "visit op s = (case op_payload op of
     Account_create creator \<Rightarrow> process_account_creation_op (Some creator) s
   | Account_create_with_delegation creator \<Rightarrow> process_account_creation_op (Some creator) s
   | Create_claimed_account creator \<Rightarrow> process_account_creation_op (Some creator) s
   | Pow worker \<Rightarrow> visit_pow worker s
   | Pow2 work \<Rightarrow> visit_pow (pow2_worker work) s
   | Account_created new_account creator \<Rightarrow> visit_account_created new_account creator s
   | _ \<Rightarrow> visit_impacted (impacted s) (owner_impacted s) None s)"

definition collect ::
    "(hive_operation \<Rightarrow> account_name list \<times> account_name list) \<Rightarrow> int \<Rightarrow> hive_operation \<Rightarrow> u32 \<Rightarrow>
     accounts_collector \<Rightarrow> collected" where
  "collect impacted_accounts op_id op block_num s =
     (let s1 = s\<lparr>processed_operation_id := op_id\<rparr> in
      if \<not> 0 \<le> op_which op then (Some (Assert_failed ''Negative value of operation type-id''), s1)
      else if \<not> op_which op < 32767 then (Some (Assert_failed ''Too big value of operation type-id''), s1)
      else visit op (on_collect op (s1\<lparr>processed_operation_type_id := op_which op, collector_block_num := block_num,
             impacted := fst (impacted_accounts op), owner_impacted := snd (impacted_accounts op)\<rparr>)))"


text \<open>The operations of a run, each with its id and block.\<close>

fun collect_all ::
    "(hive_operation \<Rightarrow> account_name list \<times> account_name list) \<Rightarrow> (int \<times> hive_operation \<times> u32) list \<Rightarrow>
     accounts_collector \<Rightarrow> collected" where
  "collect_all impacted_accounts [] s = (None, s)"
| "collect_all impacted_accounts ((op_id, op, n) # ops) s =
     and_collect (collect impacted_accounts op_id op n s) (collect_all impacted_accounts ops)"


subsection \<open>What a sequence of calls adds\<close>

text \<open>The number of operations counted for an account, and the rows of an account in a list.\<close>

definition counted :: "accounts_collector \<Rightarrow> int \<Rightarrow> nat" where
  "counted s a = (case operation_count (collector_chain s) a of None \<Rightarrow> 0 | Some c \<Rightarrow> unat c)"

definition seq_nos :: "int \<Rightarrow> account_operation_data_t list \<Rightarrow> int list" where
  "seq_nos a rows = map ao_operation_seq_no (filter (\<lambda>r. ao_account_id r = a) rows)"

definition between :: "nat \<Rightarrow> nat \<Rightarrow> int list \<Rightarrow> bool" where
  "between lo hi ns \<longleftrightarrow> lo \<le> hi \<and> sorted_wrt (<) ns \<and> (\<forall>n \<in> set ns. int lo \<le> n \<and> n < int hi)"

definition unfiltered :: "accounts_collector \<Rightarrow> bool" where
  "unfiltered s \<longleftrightarrow> the_filter s = None \<and> dump_account_operations s"

definition registered :: "accounts_collector \<Rightarrow> int set" where
  "registered s = dom (operation_count (collector_chain s))"

text \<open>Between \<open>s\<close> and \<open>s'\<close> at most \<open>k\<close> operations were counted for any account, \<open>news\<close> were registered
  and \<open>rows\<close> added.\<close>

definition adds ::
    "nat \<Rightarrow> accounts_collector \<Rightarrow> account_data_t list \<Rightarrow> account_operation_data_t list \<Rightarrow> accounts_collector \<Rightarrow> bool" where
  "adds k s news rows s' \<longleftrightarrow>
     collector_cache s' = (collector_cache s)\<lparr>accounts := accounts (collector_cache s) @ news,
       account_operations := account_operations (collector_cache s) @ rows\<rparr>
     \<and> registered s' = registered s \<union> account_data_id ` set news \<and> ao_account_id ` set rows \<subseteq> registered s'
     \<and> chain_accounts (collector_chain s') = chain_accounts (collector_chain s)
     \<and> (\<forall>a. between (counted s a) (counted s' a) (seq_nos a rows) \<and> counted s' a \<le> counted s a + k)
     \<and> unfiltered s' = unfiltered s
     \<and> (unfiltered s \<longrightarrow> (\<forall>a. seq_nos a rows = map int [counted s a ..< counted s' a]))"

definition collects :: "nat \<Rightarrow> accounts_collector \<Rightarrow> accounts_collector \<Rightarrow> bool" where
  "collects k s s' \<longleftrightarrow> ((\<forall>a. counted s a + k < 2 ^ 31) \<longrightarrow> (\<exists>news rows. adds k s news rows s'))"

lemma collectsI: "((\<And>a. counted s a + k < 2 ^ 31) \<Longrightarrow> adds k s news rows s') \<Longrightarrow> collects k s s'"
  by (auto simp: collects_def)

lemma between_append:
  "between lo mid xs \<Longrightarrow> between mid hi ys \<Longrightarrow> between lo hi (xs @ ys)"
  by (fastforce simp: between_def sorted_wrt_append)

lemma between_mono: "between lo hi [] = (lo \<le> hi)"
  by (simp add: between_def)

lemma seq_nos_append [simp]: "seq_nos a (xs @ ys) = seq_nos a xs @ seq_nos a ys"
  by (simp add: seq_nos_def)

lemma seq_nos_Nil [simp]: "seq_nos a [] = []"
  by (simp add: seq_nos_def)

lemma addsD:
  assumes "adds k s news rows s'"
  shows "registered s' = registered s \<union> account_data_id ` set news" "ao_account_id ` set rows \<subseteq> registered s'"
    "chain_accounts (collector_chain s') = chain_accounts (collector_chain s)" "unfiltered s' = unfiltered s"
    "collector_cache s' = (collector_cache s)\<lparr>accounts := accounts (collector_cache s) @ news,
       account_operations := account_operations (collector_cache s) @ rows\<rparr>"
  using assms[unfolded adds_def] by - (elim conjE, assumption)+

lemma adds_trans:
  assumes "adds k s news1 rows1 s1" "adds l s1 news2 rows2 s2"
  shows "adds (k + l) s (news1 @ news2) (rows1 @ rows2) s2"
proof -
  have bs: "between (counted s a) (counted s1 a) (seq_nos a rows1)" "between (counted s1 a) (counted s2 a) (seq_nos a rows2)"
    and cs: "counted s1 a \<le> counted s a + k" "counted s2 a \<le> counted s1 a + l" for a
    using assms by (simp_all add: adds_def)
  have b: "between (counted s a) (counted s2 a) (seq_nos a (rows1 @ rows2))" for a
    using between_append[OF bs] by simp
  have c: "counted s2 a \<le> counted s a + (k + l)" for a
    using cs[of a] by linarith
  have u: "seq_nos a (rows1 @ rows2) = map int [counted s a ..< counted s2 a]" if "unfiltered s" for a
  proof -
    have "counted s a \<le> counted s1 a" "counted s1 a \<le> counted s2 a"
      using assms by (simp_all add: adds_def between_def)
    then have "[counted s a ..< counted s2 a] = [counted s a ..< counted s1 a] @ [counted s1 a ..< counted s2 a]"
      using upt_add_eq_append[of "counted s a" "counted s1 a" "counted s2 a - counted s1 a"] by simp
    then show ?thesis using assms that by (simp add: adds_def)
  qed
  have r: "registered s2 = registered s \<union> account_data_id ` set (news1 @ news2)"
    by (simp add: addsD(1)[OF assms(1)] addsD(1)[OF assms(2)] image_Un Un_assoc)
  have "registered s1 \<subseteq> registered s2" by (simp add: addsD(1)[OF assms(2)])
  then have r2: "ao_account_id ` set (rows1 @ rows2) \<subseteq> registered s2"
    using addsD(2)[OF assms(1)] addsD(2)[OF assms(2)] by (simp add: image_Un)
  have e: "unfiltered s2 = unfiltered s" "chain_accounts (collector_chain s2) = chain_accounts (collector_chain s)"
    "collector_cache s2 = (collector_cache s)\<lparr>accounts := accounts (collector_cache s) @ news1 @ news2,
       account_operations := account_operations (collector_cache s) @ rows1 @ rows2\<rparr>"
    by (simp_all add: addsD(3-5)[OF assms(1)] addsD(3-5)[OF assms(2)])
  show ?thesis unfolding adds_def by (intro conjI allI impI; (rule e r r2 b c | erule u))
qed

lemma collects_trans:
  assumes "collects k s s1" "collects l s1 s2"
  shows "collects (k + l) s s2"
proof -
  have "\<exists>news rows. adds (k + l) s news rows s2" if b: "\<forall>a. counted s a + (k + l) < 2 ^ 31"
  proof -
    have "counted s a + k < 2 ^ 31" for a using b[rule_format, of a] by linarith
    then obtain news1 rows1 where 1: "adds k s news1 rows1 s1"
      using assms(1) unfolding collects_def by blast
    have le: "counted s1 a \<le> counted s a + k" for a using 1 by (simp add: adds_def)
    have "counted s1 a + l < 2 ^ 31" for a using b[rule_format, of a] le[of a] by linarith
    then obtain news2 rows2 where "adds l s1 news2 rows2 s2"
      using assms(2) unfolding collects_def by blast
    then show ?thesis using adds_trans[OF 1] by blast
  qed
  then show ?thesis by (simp add: collects_def)
qed

lemma adds_mono: "adds k s news rows s' \<Longrightarrow> k \<le> l \<Longrightarrow> adds l s news rows s'"
  unfolding adds_def by (auto intro: order_trans[OF _ add_left_mono])

lemma collects_mono: "collects k s s' \<Longrightarrow> k \<le> l \<Longrightarrow> collects l s s'"
proof -
  assume k: "collects k s s'" "k \<le> l"
  have "\<exists>news rows. adds l s news rows s'" if b: "\<forall>a. counted s a + l < 2 ^ 31"
  proof -
    have "counted s a + k < 2 ^ 31" for a using b[rule_format, of a] k(2) by linarith
    then show ?thesis using k adds_mono[OF _ k(2)] unfolding collects_def by blast
  qed
  then show ?thesis by (simp add: collects_def)
qed

lemma adds_refl: "adds 0 s [] [] s"
  by (simp add: adds_def between_def)

lemma collects_refl: "collects k s s"
proof -
  have "collects 0 s s" using adds_refl unfolding collects_def by blast
  then show ?thesis by (rule collects_mono) simp
qed

text \<open>Changes of the other fields do not matter.\<close>

lemma adds_same:
  assumes "collector_cache s' = collector_cache s" "collector_chain s' = collector_chain s" "unfiltered s' = unfiltered s"
  shows "adds 0 s [] [] s'"
  using assms by (simp add: adds_def between_def counted_def registered_def)

lemma collects_same:
  "collector_cache s' = collector_cache s \<Longrightarrow> collector_chain s' = collector_chain s \<Longrightarrow> unfiltered s' = unfiltered s
   \<Longrightarrow> collects 0 s s'"
  using adds_same by (auto simp: collects_def)

lemma on_new_account_collects:
  assumes "on_new_account name s = (e, s')"
  shows "collects 0 s s'"
proof (cases "chain_accounts (collector_chain s) name")
  case None
  then show ?thesis using assms collects_refl by (simp add: on_new_account_def)
next
  case (Some account_id)
  show ?thesis
  proof (cases "operation_count (collector_chain s) account_id")
    case None
    let ?row = "\<lparr>block_number = sint (collector_block_num s), account_data_id = account_id, account_data_name = name\<rparr>"
    have s': "s' = s\<lparr>collector_chain := (collector_chain s)\<lparr>operation_count := (operation_count (collector_chain s))(account_id \<mapsto> 0)\<rparr>,
        collector_cache := (collector_cache s)\<lparr>accounts := accounts (collector_cache s) @ [?row]\<rparr>\<rparr>"
      using assms Some None by (simp add: on_new_account_def)
    have "counted s' a = counted s a" for a using None by (simp add: counted_def s')
    moreover have "registered s' = insert account_id (registered s)" by (simp add: registered_def s')
    ultimately have "adds 0 s [?row] [] s'"
      by (simp add: adds_def between_def) (simp add: s' unfiltered_def)
    then show ?thesis by (auto simp: collects_def)
  next
    case (Some c)
    then show ?thesis using assms \<open>chain_accounts _ _ = _\<close> collects_refl by (simp add: on_new_account_def)
  qed
qed

lemma unat_count_Suc: "unat c + 1 < 2 ^ 31 \<Longrightarrow> unat (c + 1 :: u32) = Suc (unat c)"
  unfolding unat_word_ariths(1) by (subst mod_less) simp_all

lemma sint_count:
  assumes "unat (c :: u32) < 2 ^ 31"
  shows "sint c = int (unat c)"
proof -
  have "int n < 2 ^ 31" if "n < 2 ^ 31" for n using that by simp
  from this[OF assms] have "uint c < 2 ^ 31" unfolding uint_nat .
  then have "sint c = uint c" by (rule sint_u32_small)
  then show ?thesis unfolding uint_nat .
qed

lemma on_new_operation_collects:
  assumes "on_new_operation name owner op_id type_id current s = (e, s')"
  shows "collects 1 s s'"
proof -
  let ?db = "collector_chain s"
  consider "s' = s" | account_id owner_id c where "chain_accounts ?db name = Some account_id"
      "chain_accounts ?db owner = Some owner_id" "operation_count ?db account_id = Some c"
    using assms by (auto simp: on_new_operation_def Let_def split: option.splits)
  then show ?thesis
  proof cases
    case 1
    then show ?thesis using collects_refl by simp
  next
    case 2
    define row where "row = \<lparr>block_number = sint (collector_block_num s), ao_operation_id = op_id, ao_account_id = account_id,
      ao_transacting_account_id = owner_id, ao_operation_seq_no = sint c, ao_op_type_id = type_id\<rparr>"
    define rows where "rows = (if dump_account_operations s \<and> on_before_new_operation s name current then [row] else [])"
    have s': "s' = s\<lparr>collector_cache := (collector_cache s)\<lparr>account_operations := account_operations (collector_cache s) @ rows\<rparr>,
        collector_chain := ?db\<lparr>operation_count := (operation_count ?db)(account_id \<mapsto> c + 1)\<rparr>\<rparr>"
      using assms 2
      by (cases "dump_account_operations s \<and> on_before_new_operation s name current")
        (auto simp: on_new_operation_def Let_def rows_def row_def)
    have full: "rows = [row]" if "unfiltered s"
      using that by (simp add: rows_def unfiltered_def on_before_new_operation_def)
    have "adds 1 s [] rows s'" if b: "\<And>a. counted s a + 1 < 2 ^ 31"
    proof -
      have c: "unat c + 1 < 2 ^ 31" using b[of account_id] 2(3) by (simp add: counted_def)
      have seq: "seq_nos a rows = (if a = account_id \<and> rows \<noteq> [] then [int (unat c)] else [])" for a
        using c by (simp add: rows_def row_def seq_nos_def sint_count)
      have cnt: "counted s account_id = unat c" "counted s' a = (if a = account_id then Suc (unat c) else counted s a)" for a
        using 2(3) unat_count_Suc[OF c] by (simp_all add: counted_def s')
      have reg: "registered s' = registered s" "account_id \<in> registered s"
        using 2(3) by (auto simp: registered_def s')
      have "ao_account_id ` set rows \<subseteq> registered s'" using reg by (auto simp: rows_def row_def)
      moreover have "between (counted s a) (counted s' a) (seq_nos a rows)" "counted s' a \<le> counted s a + 1" for a
        using cnt seq by (simp_all add: between_def)
      moreover have "seq_nos a rows = map int [counted s a ..< counted s' a]" if "unfiltered s" for a
        using full[OF that] cnt seq by simp
      moreover have "unfiltered s' = unfiltered s" "chain_accounts (collector_chain s') = chain_accounts ?db"
        "collector_cache s' = (collector_cache s)\<lparr>accounts := accounts (collector_cache s) @ [],
           account_operations := account_operations (collector_cache s) @ rows\<rparr>"
        by (simp_all add: s' unfiltered_def)
      ultimately show ?thesis unfolding adds_def using reg by auto
    qed
    then show ?thesis by (auto simp: collects_def)
  qed
qed

text \<open>What holds of every sequence of calls of the two primitives holds of every visitor: \<open>law k s s'\<close> relates
  the states before and after, with at most \<open>k\<close> calls of \<open>on_new_operation\<close> between them.\<close>

locale call_law =
  fixes law :: "nat \<Rightarrow> accounts_collector \<Rightarrow> accounts_collector \<Rightarrow> bool"
  assumes law_refl: "law k s s"
    and law_trans: "law k s s1 \<Longrightarrow> law l s1 s2 \<Longrightarrow> law (k + l) s s2"
    and law_mono: "law k s s' \<Longrightarrow> k \<le> l \<Longrightarrow> law l s s'"
    and law_creation: "law 0 s (s\<lparr>creation_operation_id := i, creation_operation_type_id := t\<rparr>)"
    and law_account: "on_new_account name s = (e, s') \<Longrightarrow> law 0 s s'"
    and law_operation: "on_new_operation name owner op_id type_id current s = (e, s') \<Longrightarrow> law 1 s s'"
begin

lemma and_collect_law:
  assumes "and_collect r f = (e, s')" "\<And>e1 s1. r = (e1, s1) \<Longrightarrow> law k s s1"
    "\<And>s1 e2 s2. f s1 = (e2, s2) \<Longrightarrow> law l s1 s2"
  shows "law (k + l) s s'"
proof (cases r)
  case (Pair e1 s1)
  show ?thesis
  proof (cases e1)
    case None
    then show ?thesis using assms(1,3) law_trans[OF assms(2)[OF Pair]] Pair by simp
  next
    case (Some x)
    then show ?thesis using assms(1) Pair assms(2)[OF Pair] law_mono[of k s s1 "k + l"] by simp
  qed
qed

lemma creation_done_law: "law 0 s (s\<lparr>creation_operation_id := None\<rparr>)"
  using law_creation[where s = s and i = None and t = "creation_operation_type_id s"] by (cases s) simp

lemma current_operation_law: "current_operation name owner s = (e, s') \<Longrightarrow> law 1 s s'"
  unfolding current_operation_def by (rule law_operation)

lemma process_account_creation_op_law:
  assumes "process_account_creation_op acc s = (e, s')"
  shows "law 1 s s'"
proof -
  let ?s1 = "s\<lparr>creation_operation_id := Some (processed_operation_id s), creation_operation_type_id := processed_operation_type_id s\<rparr>"
  have 1: "law 0 s ?s1" by (rule law_creation)
  show ?thesis
    using assms law_trans[OF 1, of 1] law_mono[OF 1, of 1] current_operation_law
    by (auto simp: process_account_creation_op_def Let_def split: option.splits)
qed

lemma visit_pow_law:
  assumes "visit_pow worker s = (e, s')"
  shows "law 1 s s'"
proof (cases "chain_accounts (collector_chain s) worker = None")
  case True
  then show ?thesis using assms process_account_creation_op_law by (simp add: visit_pow_def)
next
  case False
  have "law (1 + 0) s s'"
    by (rule and_collect_law[OF _ process_account_creation_op_law])
      (use assms False creation_done_law in \<open>auto simp: visit_pow_def\<close>)
  then show ?thesis by simp
qed

lemma visit_account_created_law:
  assumes "visit_account_created new_account creator s = (e, s')"
  shows "law 3 s s'"
proof -
  have creation: "law (1 + 0) s1 s2"
    if "(case creation_operation_id s1 of None \<Rightarrow> (None, s1)
       | Some op_id \<Rightarrow> and_collect (on_new_operation new_account creator op_id (creation_operation_type_id s1) False s1)
           (\<lambda>s. (None, s\<lparr>creation_operation_id := None\<rparr>))) = (e2, s2)" for s1 e2 s2
  proof (cases "creation_operation_id s1")
    case None
    then show ?thesis using that law_refl by simp
  next
    case (Some op_id)
    show ?thesis
      by (rule and_collect_law[OF _ law_operation]) (use that Some creation_done_law in auto)
  qed
  have creator: "law 1 s1 s2"
    if "(if creator \<noteq> new_account then current_operation creator creator s1 else (None, s1)) = (e2, s2)" for s1 e2 s2
    using that current_operation_law law_refl by (auto split: if_splits)
  have "law (0 + ((1 + 0) + (1 + 1))) s s'"
    by (rule and_collect_law[OF assms[unfolded visit_account_created_def] law_account],
        assumption, rule and_collect_law[OF _ creation], assumption, assumption,
        rule and_collect_law[OF _ current_operation_law creator], assumption+)
  then show ?thesis by (simp add: numeral_3_eq_3)
qed

lemma visit_impacted_law:
  "visit_impacted names owners last_owner s = (e, s') \<Longrightarrow> law (length names) s s'"
proof (induction names owners last_owner s arbitrary: e s' rule: visit_impacted.induct)
  case (1 owners last_owner s)
  then show ?case using law_refl by simp
next
  case (2 name names last_owner s)
  have "law (1 + length names) s s'"
    by (rule and_collect_law[OF _ current_operation_law 2(1)]) (use 2(2) in auto)
  then show ?case by simp
next
  case (3 name names owner owners last_owner s)
  have "law (1 + length names) s s'"
    by (rule and_collect_law[OF _ current_operation_law 3(1)]) (use 3(2) in auto)
  then show ?case by simp
qed

lemma visit_law:
  assumes "visit op s = (e, s')"
  shows "law (3 + length (impacted s)) s s'"
proof -
  have "law 1 s s' \<or> law 3 s s' \<or> law (length (impacted s)) s s'"
    using assms process_account_creation_op_law[of _ s e s'] visit_pow_law[of _ s e s']
      visit_account_created_law[of _ _ s e s'] visit_impacted_law[of "impacted s" "owner_impacted s" None s e s']
    by (cases "op_payload op") (simp_all add: visit_def)
  then show ?thesis using law_mono[where l = "3 + length (impacted s)"] by fastforce
qed

end

interpretation counting: call_law collects
  by unfold_locales
    (auto intro: collects_refl collects_trans collects_mono on_new_account_collects on_new_operation_collects
      collects_same simp: unfiltered_def)

text \<open>Where the rows of an operation go: only rows of its block are added, to the two containers.\<close>

definition places :: "accounts_collector \<Rightarrow> accounts_collector \<Rightarrow> bool" where
  "places s s' \<longleftrightarrow> collector_block_num s' = collector_block_num s \<and> the_filter s' = the_filter s \<and>
     (\<exists>news rows. collector_cache s' = (collector_cache s)\<lparr>accounts := accounts (collector_cache s) @ news,
         account_operations := account_operations (collector_cache s) @ rows\<rparr>
       \<and> block_number ` set news \<subseteq> {sint (collector_block_num s)} \<and> block_number ` set rows \<subseteq> {sint (collector_block_num s)})"

lemma placesI:
  assumes "collector_block_num s' = collector_block_num s" "the_filter s' = the_filter s"
    "collector_cache s' = (collector_cache s)\<lparr>accounts := accounts (collector_cache s) @ news,
       account_operations := account_operations (collector_cache s) @ rows\<rparr>"
    "block_number ` set news \<subseteq> {sint (collector_block_num s)}" "block_number ` set rows \<subseteq> {sint (collector_block_num s)}"
  shows "places s s'"
  unfolding places_def using assms by blast

lemma places_refl: "places s s"
  by (rule placesI[where news = "[]" and rows = "[]"]) simp_all

lemma places_trans:
  assumes "places s s1" "places s1 s2"
  shows "places s s2"
proof -
  obtain n1 r1 n2 r2 where *: "collector_cache s1 = (collector_cache s)\<lparr>accounts := accounts (collector_cache s) @ n1,
      account_operations := account_operations (collector_cache s) @ r1\<rparr>"
    "collector_cache s2 = (collector_cache s1)\<lparr>accounts := accounts (collector_cache s1) @ n2,
      account_operations := account_operations (collector_cache s1) @ r2\<rparr>"
    "block_number ` set n1 \<subseteq> {sint (collector_block_num s)}" "block_number ` set r1 \<subseteq> {sint (collector_block_num s)}"
    "block_number ` set n2 \<subseteq> {sint (collector_block_num s1)}" "block_number ` set r2 \<subseteq> {sint (collector_block_num s1)}"
    using assms unfolding places_def by metis
  have e: "collector_block_num s1 = collector_block_num s" using assms(1) by (simp add: places_def)
  show ?thesis
    by (rule placesI[where news = "n1 @ n2" and rows = "r1 @ r2"]) (use assms * e in \<open>simp_all add: places_def image_Un\<close>)
qed

lemma on_new_account_places:
  assumes "on_new_account name s = (e, s')"
  shows "places s s'"
proof (cases "s' = s")
  case True
  then show ?thesis using places_refl by simp
next
  case False
  then obtain i where "s' = s\<lparr>collector_chain := (collector_chain s)\<lparr>operation_count := (operation_count (collector_chain s))(i \<mapsto> 0)\<rparr>,
      collector_cache := (collector_cache s)\<lparr>accounts := accounts (collector_cache s) @
        [\<lparr>block_number = sint (collector_block_num s), account_data_id = i, account_data_name = name\<rparr>]\<rparr>\<rparr>"
    using assms by (auto simp: on_new_account_def split: option.splits if_splits)
  then show ?thesis
    by (intro placesI[where news = "[\<lparr>block_number = sint (collector_block_num s), account_data_id = i, account_data_name = name\<rparr>]" and rows = "[]"])
      simp_all
qed

lemma on_new_operation_places:
  assumes "on_new_operation name owner op_id type_id current s = (e, s')"
  shows "places s s'"
proof (cases "s' = s")
  case True
  then show ?thesis using places_refl by simp
next
  case False
  then obtain i own c where lookups: "chain_accounts (collector_chain s) name = Some i"
      "chain_accounts (collector_chain s) owner = Some own" "operation_count (collector_chain s) i = Some c"
    using assms by (auto simp: on_new_operation_def Let_def split: option.splits)
  define rows where "rows = (if dump_account_operations s \<and> on_before_new_operation s name current
    then [\<lparr>block_number = sint (collector_block_num s), ao_operation_id = op_id, ao_account_id = i,
      ao_transacting_account_id = own, ao_operation_seq_no = sint c, ao_op_type_id = type_id\<rparr>] else [])"
  have "s' = s\<lparr>collector_cache := (collector_cache s)\<lparr>account_operations := account_operations (collector_cache s) @ rows\<rparr>,
      collector_chain := (collector_chain s)\<lparr>operation_count := (operation_count (collector_chain s))(i \<mapsto> c + 1)\<rparr>\<rparr>"
    using assms lookups
    by (cases "dump_account_operations s \<and> on_before_new_operation s name current")
      (auto simp: on_new_operation_def Let_def rows_def)
  moreover have "block_number ` set rows \<subseteq> {sint (collector_block_num s)}" by (auto simp: rows_def)
  ultimately show ?thesis by (intro placesI[where news = "[]" and rows = rows]) simp_all
qed

lemma places_creation: "places s (s\<lparr>creation_operation_id := i, creation_operation_type_id := t\<rparr>)"
  by (rule placesI[where news = "[]" and rows = "[]"]) simp_all

interpretation placing: call_law "\<lambda>k. places"
  by unfold_locales (blast intro: places_refl places_trans places_creation on_new_account_places on_new_operation_places)+

lemma collect_collects:
  assumes "collect impacted_accounts op_id op n s = (e, s')"
  shows "collects (3 + length (fst (impacted_accounts op))) s s'"
proof -
  let ?s1 = "s\<lparr>processed_operation_id := op_id\<rparr>"
  let ?s2 = "on_collect op (?s1\<lparr>processed_operation_type_id := op_which op, collector_block_num := n,
    impacted := fst (impacted_accounts op), owner_impacted := snd (impacted_accounts op)\<rparr>)"
  have "collects 0 s ?s1" by (rule collects_same) (simp_all add: unfiltered_def)
  moreover have "collects 0 s ?s2" "impacted ?s2 = fst (impacted_accounts op)"
    by (auto intro!: collects_same simp: unfiltered_def on_collect_def split: option.splits)
  ultimately show ?thesis
    using assms counting.visit_law[of op ?s2 e s'] collects_trans[of 0 s ?s2 _ s'] collects_mono[of 0 s]
    by (auto simp: collect_def Let_def split: if_splits)
qed

definition calls_bound :: "(hive_operation \<Rightarrow> account_name list \<times> account_name list) \<Rightarrow> (int \<times> hive_operation \<times> u32) list \<Rightarrow> nat" where
  "calls_bound impacted_accounts ops = (\<Sum>(op_id, op, n) \<leftarrow> ops. 3 + length (fst (impacted_accounts op)))"

lemma collect_all_collects:
  "collect_all impacted_accounts ops s = (e, s') \<Longrightarrow> collects (calls_bound impacted_accounts ops) s s'"
proof (induction ops arbitrary: s e s')
  case Nil
  then show ?case using collects_refl by simp
next
  case (Cons x ops)
  obtain op_id op n where x: "x = (op_id, op, n)" by (cases x)
  have "collects ((3 + length (fst (impacted_accounts op))) + calls_bound impacted_accounts ops) s s'"
    by (rule counting.and_collect_law[OF _ collect_collects Cons.IH]) (use Cons.prems x in auto)
  then show ?case by (simp add: calls_bound_def x)
qed


subsection \<open>Properties\<close>

text \<open>C7: Numbering of an account's operations.  Whatever operations are collected, and also when one
  throws, the rows added to \<open>account_operations\<close> have for each account numbers that increase and lie
  between the number of operations counted before and after.  Without a filter and with the dump of account
  operations enabled they are all of these numbers, without a gap; with a filter there may be gaps, and with
  the dump disabled there are no rows.  The counters must not pass \<open>2147483647\<close>, the largest value of the column.\<close>

theorem account_operations_are_numbered:
  assumes "collect_all impacted_accounts ops s = (e, s')"
    "\<forall>a. counted s a + calls_bound impacted_accounts ops < 2 ^ 31"
  shows "\<exists>rows. account_operations (collector_cache s') = account_operations (collector_cache s) @ rows
    \<and> between (counted s a) (counted s' a) (seq_nos a rows)
    \<and> (the_filter s = None \<and> dump_account_operations s \<longrightarrow> seq_nos a rows = map int [counted s a ..< counted s' a])"
proof -
  obtain news rows where "adds (calls_bound impacted_accounts ops) s news rows s'"
    using collect_all_collects[OF assms(1)] assms(2) unfolding collects_def by blast
  then show ?thesis by (intro exI[of _ rows]) (simp add: adds_def unfiltered_def)
qed

text \<open>C36: Registration before use.  Every account that a new row of \<open>account_operations\<close> names was
  registered before the run or has a new row in \<open>accounts\<close>, so the foreign key of the table can be
  satisfied; nothing else of the cache is touched.\<close>

theorem account_operations_name_registered_accounts:
  assumes "collect_all impacted_accounts ops s = (e, s')"
    "\<forall>a. counted s a + calls_bound impacted_accounts ops < 2 ^ 31"
  shows "\<exists>news rows. collector_cache s' = (collector_cache s)\<lparr>accounts := accounts (collector_cache s) @ news,
      account_operations := account_operations (collector_cache s) @ rows\<rparr>
    \<and> ao_account_id ` set rows \<subseteq> dom (operation_count (collector_chain s)) \<union> account_data_id ` set news"
proof -
  obtain news rows where a: "adds (calls_bound impacted_accounts ops) s news rows s'"
    using collect_all_collects[OF assms(1)] assms(2) unfolding collects_def by blast
  show ?thesis using addsD(1,2,5)[OF a] by (intro exI[of _ news] exI[of _ rows]) (simp add: registered_def)
qed

text \<open>A created account.  An account creation followed by its virtual operation
  \<open>account_created_operation\<close> registers the new account and adds four rows without a filter: the
  creating operation for the creator; the creating and the virtual operation for the new account,
  numbered 0 and 1; and the virtual operation for the creator.\<close>

theorem created_account_gets_its_creation:
  assumes "the_filter s = None" "dump_account_operations s"
    "chain_accounts (collector_chain s) creator = Some c" "chain_accounts (collector_chain s) name = Some a"
    "operation_count (collector_chain s) c = Some k" "operation_count (collector_chain s) a = None"
    "op_payload create = Account_create creator" "op_payload created = Account_created name creator"
    "0 \<le> op_which create" "op_which create < 32767" "0 \<le> op_which created" "op_which created < 32767"
  shows "\<exists>s'. collect_all impacted_accounts [(id1, create, n), (id2, created, n)] s = (None, s')
    \<and> map account_data_id (accounts (collector_cache s')) = map account_data_id (accounts (collector_cache s)) @ [a]
    \<and> map (\<lambda>r. (ao_account_id r, ao_operation_id r, ao_operation_seq_no r)) (account_operations (collector_cache s')) =
        map (\<lambda>r. (ao_account_id r, ao_operation_id r, ao_operation_seq_no r)) (account_operations (collector_cache s))
        @ [(c, id1, sint k), (a, id1, 0), (a, id2, 1), (c, id2, sint (k + 1))]
    \<and> creation_operation_id s' = None"
proof -
  have "c \<noteq> a" "creator \<noteq> name" using assms(3-6) by auto
  then show ?thesis
    using assms
    by (simp add: collect_def visit_def on_collect_def process_account_creation_op_def current_operation_def
        on_new_operation_def on_before_new_operation_def visit_account_created_def on_new_account_def Let_def)
qed

definition sample_chain :: chain_db where
  "sample_chain = \<lparr>chain_accounts = [''alice'' \<mapsto> 7, ''bob'' \<mapsto> 8], operation_count = [7 \<mapsto> 5]\<rparr>"

definition sample_collector :: accounts_collector where
  "sample_collector = new_accounts_collector sample_chain empty_cached_data True None"

definition sample_create :: hive_operation where
  "sample_create = \<lparr>op_which = 9, op_payload = Account_create ''alice'', op_packed = []\<rparr>"

definition sample_created :: hive_operation where
  "sample_created = \<lparr>op_which = 80, op_payload = Account_created ''bob'' ''alice'', op_packed = []\<rparr>"

lemmas sample_collector_defs = sample_collector_def sample_chain_def sample_create_def sample_created_def
  new_accounts_collector_def empty_cached_data_def

lemma sample_collected:
  "\<exists>s'. collect_all (\<lambda>_. ([], [])) [(100, sample_create, 3), (101, sample_created, 3)] sample_collector = (None, s')
    \<and> counted s' 7 = 7 \<and> counted s' 8 = 2"
  by (simp add: sample_collector_defs collect_def visit_def on_collect_def process_account_creation_op_def
      current_operation_def on_new_operation_def on_before_new_operation_def visit_account_created_def
      on_new_account_def Let_def counted_def)

lemma sample_collector_counts:
  "\<forall>a. counted sample_collector a + calls_bound (\<lambda>_. ([], [])) [(100, sample_create, 3), (101, sample_created, 3)] < 2 ^ 31"
  "counted sample_collector 7 = 5" "the_filter sample_collector = None" "dump_account_operations sample_collector"
  by (auto simp: sample_collector_defs counted_def calls_bound_def)

theorem account_operations_are_numbered_witness:
  "\<exists>s' rows. collect_all (\<lambda>_. ([], [])) [(100, sample_create, 3), (101, sample_created, 3)] sample_collector = (None, s')
    \<and> account_operations (collector_cache s') = account_operations (collector_cache sample_collector) @ rows
    \<and> seq_nos 7 rows = [5, 6]"
proof -
  obtain s' where s': "collect_all (\<lambda>_. ([], [])) [(100, sample_create, 3), (101, sample_created, 3)] sample_collector = (None, s')"
    "counted s' 7 = 7" using sample_collected by blast
  have "map int [5..<7] = [5, 6]" by (simp add: upt_rec)
  then show ?thesis
    using account_operations_are_numbered[OF s'(1) sample_collector_counts(1), of 7] s' sample_collector_counts(2-4) by auto
qed

theorem account_operations_name_registered_accounts_witness:
  "\<exists>s' news rows. collect_all (\<lambda>_. ([], [])) [(100, sample_create, 3), (101, sample_created, 3)] sample_collector = (None, s')
    \<and> collector_cache s' = (collector_cache sample_collector)\<lparr>accounts := accounts (collector_cache sample_collector) @ news,
      account_operations := account_operations (collector_cache sample_collector) @ rows\<rparr>
    \<and> ao_account_id ` set rows \<subseteq> {7} \<union> account_data_id ` set news"
proof -
  obtain s' where s': "collect_all (\<lambda>_. ([], [])) [(100, sample_create, 3), (101, sample_created, 3)] sample_collector = (None, s')"
    using sample_collected by blast
  have "dom (operation_count (collector_chain sample_collector)) = {7}" by (simp add: sample_collector_defs)
  then show ?thesis
    using account_operations_name_registered_accounts[OF s' sample_collector_counts(1)] s' by auto
qed

theorem created_account_gets_its_creation_witness:
  "\<exists>s'. collect_all (\<lambda>_. ([], [])) [(100, sample_create, 3), (101, sample_created, 3)] sample_collector = (None, s')
    \<and> map (\<lambda>r. (ao_account_id r, ao_operation_id r, ao_operation_seq_no r)) (account_operations (collector_cache s')) =
        [(7, 100, 5), (8, 100, 0), (8, 101, 1), (7, 101, 6)]"
proof -
  have s: "the_filter sample_collector = None" "dump_account_operations sample_collector"
    "chain_accounts (collector_chain sample_collector) ''alice'' = Some 7"
    "chain_accounts (collector_chain sample_collector) ''bob'' = Some 8"
    "operation_count (collector_chain sample_collector) 7 = Some 5"
    "operation_count (collector_chain sample_collector) 8 = None"
    "account_operations (collector_cache sample_collector) = []"
    by (simp_all add: sample_collector_defs)
  show ?thesis
    using created_account_gets_its_creation[OF s(1-6), of sample_create sample_created "\<lambda>_. ([], [])" 100 3 101] s(7)
    by (auto simp: sample_create_def sample_created_def)
qed

end
