(* ===== verification/Tx_Controller.thy ===== *)
theory Tx_Controller
  imports HafPrelude
begin

text \<open>
  \<open>own_tx_controller\<close> of \<open>transaction_controllers.cpp\<close>: one connection, one transaction object at a
  time, and \<open>with_retry\<close>, which reopens connection and transaction when the connection breaks and
  then repeats the current statement.

  The database is a parameter: a committed state and, inside an open transaction, the state the
  transaction sees.  Each pass of the retry loop has one outcome chosen by the environment
  (\<open>attempt\<close>); when the list of outcomes is used up, every further attempt succeeds.
\<close>

datatype attempt =
    Attempt_ok
  | Attempt_broken bool     \<comment> \<open>connection lost; the flag is \<open>is_interrupt_request()\<close> after it\<close>
  | Attempt_in_doubt bool   \<comment> \<open>connection lost inside \<open>COMMIT\<close>; the flag says whether the server committed\<close>
  | Attempt_failed string   \<comment> \<open>any other exception of the statement, with its \<open>sqlstate\<close>\<close>

record 'd own_tx_controller =
  committed :: 'd
  opened_connection :: bool
  own_tx :: bool
  opened_tx :: "'d option"

definition build_own_transaction_controller :: "'d \<Rightarrow> 'd own_tx_controller" where
  "build_own_transaction_controller d =
     \<lparr>committed = d, opened_connection = False, own_tx = False, opened_tx = None\<rparr>"

definition MAX_RETRY_COUNT :: nat where
  "MAX_RETRY_COUNT = 100"

text \<open>The state after (re)connecting and, if none is open, beginning a transaction.\<close>

definition ensure_tx :: "'d own_tx_controller \<Rightarrow> 'd own_tx_controller" where
  "ensure_tx c =
     (let c1 = (if opened_connection c then c else c\<lparr>opened_connection := True, opened_tx := None\<rparr>)
      in if opened_tx c1 = None then c1\<lparr>opened_tx := Some (committed c1)\<rparr> else c1)"

fun with_retry ::
    "nat \<Rightarrow> ('d \<Rightarrow> 'd) \<Rightarrow> 'd own_tx_controller \<Rightarrow> attempt list \<Rightarrow>
     haf_error option \<times> 'd own_tx_controller \<times> attempt list" where
  "with_retry retry f c [] =
     (let c1 = ensure_tx c in (None, c1\<lparr>opened_tx := map_option f (opened_tx c1)\<rparr>, []))"
| "with_retry retry f c (Attempt_ok # as) =
     (let c1 = ensure_tx c in (None, c1\<lparr>opened_tx := map_option f (opened_tx c1)\<rparr>, as))"
| "with_retry retry f c (Attempt_failed e # as) = (Some (Sql_failure e), ensure_tx c, as)"
| "with_retry retry f c (Attempt_in_doubt b # as) = (Some (Sql_failure ''in doubt''), ensure_tx c, as)"
| "with_retry retry f c (Attempt_broken interrupt # as) =
     (let c1 = c\<lparr>opened_tx := None, opened_connection := False\<rparr> in
      if retry + 1 < MAX_RETRY_COUNT \<and> \<not> interrupt then with_retry (retry + 1) f c1 as
      else (Some Broken_connection, c1, as))"

text \<open>The constructor registers itself with its owner and opens connection and transaction.\<close>

definition openTx ::
    "'d own_tx_controller \<Rightarrow> attempt list \<Rightarrow> haf_error option \<times> 'd own_tx_controller \<times> attempt list" where
  "openTx c as =
     (if own_tx c then (Some (Assert_failed ''_owner->_own_tx == nullptr''), c, as)
      else with_retry 0 id (c\<lparr>own_tx := True, opened_tx := None\<rparr>) as)"

definition tx_exec ::
    "('d \<Rightarrow> 'd) \<Rightarrow> 'd own_tx_controller \<Rightarrow> attempt list \<Rightarrow>
     haf_error option \<times> 'd own_tx_controller \<times> attempt list" where
  "tx_exec f c as = with_retry 0 f c as"

definition finalize_transaction :: "'d own_tx_controller \<Rightarrow> 'd own_tx_controller" where
  "finalize_transaction c = c\<lparr>own_tx := False\<rparr>"

text \<open>\<open>commit\<close> is not retried.  A connection lost before the server got the \<open>COMMIT\<close> leaves the committed state; one lost
  before the answer arrived leaves the client in doubt, and the server may have committed.  The client sees an error in
  both cases.\<close>

definition tx_commit ::
    "'d own_tx_controller \<Rightarrow> attempt list \<Rightarrow> haf_error option \<times> 'd own_tx_controller \<times> attempt list" where
  "tx_commit c as = (case opened_tx c of
     None \<Rightarrow> (None, finalize_transaction c, as)
   | Some d \<Rightarrow> (case as of
        Attempt_broken i # as' \<Rightarrow> (Some Broken_connection, c, as')
      | Attempt_in_doubt b # as' \<Rightarrow> (Some (Sql_failure ''in doubt''), if b then c\<lparr>committed := d\<rparr> else c, as')
      | Attempt_failed e # as' \<Rightarrow> (Some (Sql_failure e), c, as')
      | _ \<Rightarrow> (None, finalize_transaction (c\<lparr>committed := d, opened_tx := None\<rparr>), tl as)))"

definition do_rollback :: "'d own_tx_controller \<Rightarrow> 'd own_tx_controller" where
  "do_rollback c = finalize_transaction (c\<lparr>opened_tx := None\<rparr>)"

definition tx_disconnect :: "'d own_tx_controller \<Rightarrow> 'd own_tx_controller" where
  "tx_disconnect c =
     (if opened_connection c
      then (if own_tx c then do_rollback c else c)\<lparr>opened_connection := False\<rparr>
      else c)"

text \<open>A transaction as the clients write it: open, execute statements in order, commit; the
  destructor rolls back whatever is left when an exception leaves the scope.\<close>

fun exec_all ::
    "('d \<Rightarrow> 'd) list \<Rightarrow> 'd own_tx_controller \<Rightarrow> attempt list \<Rightarrow>
     haf_error option \<times> 'd own_tx_controller \<times> attempt list" where
  "exec_all [] c as = (None, c, as)"
| "exec_all (f # fs) c as = (case tx_exec f c as of
     (Some e, c1, as1) \<Rightarrow> (Some e, c1, as1)
   | (None, c1, as1) \<Rightarrow> exec_all fs c1 as1)"

definition run_transaction ::
    "('d \<Rightarrow> 'd) list \<Rightarrow> 'd own_tx_controller \<Rightarrow> attempt list \<Rightarrow>
     haf_error option \<times> 'd own_tx_controller \<times> attempt list" where
  "run_transaction fs c as = (case openTx c as of
     (Some e, c1, as1) \<Rightarrow> (Some e, c1, as1)
   | (None, c1, as1) \<Rightarrow> (case exec_all fs c1 as1 of
       (Some e, c2, as2) \<Rightarrow> (Some e, do_rollback c2, as2)
     | (None, c2, as2) \<Rightarrow> (case tx_commit c2 as2 of
         (Some e, c3, as3) \<Rightarrow> (Some e, do_rollback c3, as3)
       | (None, c3, as3) \<Rightarrow> (None, c3, as3))))"

fun broken_attempt :: "attempt \<Rightarrow> bool" where
  "broken_attempt (Attempt_broken _) = True"
| "broken_attempt _ = False"


subsection \<open>Retry\<close>

lemma with_retry_committed:
  "with_retry r f c as = (e, c', as') \<Longrightarrow> committed c' = committed c \<and> own_tx c' = own_tx c"
  by (induction r f c as rule: with_retry.induct)
    (auto simp: ensure_tx_def Let_def split: if_splits)

lemma with_retry_unbroken:
  assumes "\<forall>a \<in> set as. \<not> broken_attempt a" "opened_connection c" "opened_tx c = Some d"
    and "with_retry r f c as = (e, c', as')"
  shows "(e = None \<longrightarrow> opened_tx c' = Some (f d)) \<and> opened_connection c' \<and> (\<forall>a \<in> set as'. \<not> broken_attempt a)"
  using assms by (cases as; cases "hd as") (auto simp: ensure_tx_def Let_def)

lemma with_retry_opens:
  assumes "with_retry r f c as = (None, c', as')"
  shows "opened_connection c' \<and> opened_tx c' \<noteq> None"
  using assms by (induction r f c as rule: with_retry.induct)
    (auto simp: ensure_tx_def Let_def split: if_splits)

lemma exec_all_committed:
  "exec_all fs c as = (e, c', as') \<Longrightarrow> committed c' = committed c \<and> own_tx c' = own_tx c"
  by (induction fs c as rule: exec_all.induct)
    (auto simp: tx_exec_def dest: with_retry_committed split: prod.splits option.splits)

lemma exec_all_unbroken:
  assumes "\<forall>a \<in> set as. \<not> broken_attempt a" "opened_connection c" "opened_tx c = Some d"
    and "exec_all fs c as = (None, c', as')"
  shows "opened_tx c' = Some (fold (\<lambda>f. f) fs d) \<and> (\<forall>a \<in> set as'. \<not> broken_attempt a)"
  using assms
proof (induction fs c as arbitrary: d rule: exec_all.induct)
  case (2 f fs c as)
  obtain e c1 as1 where step: "tx_exec f c as = (e, c1, as1)" by (cases "tx_exec f c as") auto
  then have e: "e = None" using "2.prems"(4) by (auto split: option.splits)
  have "opened_tx c1 = Some (f d)" "opened_connection c1" "\<forall>a \<in> set as1. \<not> broken_attempt a"
    using with_retry_unbroken[OF "2.prems"(1-3)] step e by (auto simp: tx_exec_def)
  then show ?case
    using "2.IH"[OF step[symmetric] e refl] "2.prems"(4) step e by simp
qed simp

lemma openTx_fresh:
  assumes "openTx c as = (None, c', as')"
  shows "opened_connection c' \<and> opened_tx c' = Some (committed c) \<and> committed c' = committed c \<and> own_tx c'"
proof -
  have "with_retry r id c as = (None, c', as') \<Longrightarrow> opened_tx c = None \<Longrightarrow> opened_tx c' = Some (committed c)"
    for r and c :: "'a own_tx_controller"
    by (induction r "id :: 'a \<Rightarrow> 'a" c as rule: with_retry.induct)
      (auto simp: ensure_tx_def Let_def split: if_splits)
  then show ?thesis
    using assms with_retry_opens with_retry_committed
    by (fastforce simp: openTx_def split: if_splits)
qed

text \<open>While the connection holds, a transaction that ends with an error changes nothing, unless the error is the doubt
  about a commit that the server has made: then it has made all of it.\<close>

definition connection_holds :: "'d own_tx_controller \<Rightarrow> attempt list \<Rightarrow> bool" where
  "connection_holds c as \<longleftrightarrow> (case openTx c as of
     (None, _, as1) \<Rightarrow> \<not> list_ex broken_attempt as1
   | (Some _, _, _) \<Rightarrow> True)"

lemma run_transaction_atomic:
  assumes "connection_holds c as" "run_transaction fs c as = (e, c', as')"
  shows "committed c' = fold (\<lambda>f. f) fs (committed c) \<or> e \<noteq> None \<and> committed c' = committed c"
proof (cases "openTx c as")
  case (fields e1 c1 as1)
  show ?thesis
  proof (cases e1)
    case None
    note opened = fields[unfolded None]
    have c1: "opened_connection c1" "opened_tx c1 = Some (committed c)" "committed c1 = committed c"
      using openTx_fresh[OF opened] by auto
    have unbroken: "\<forall>a \<in> set as1. \<not> broken_attempt a"
      using assms(1) opened by (simp add: connection_holds_def list_ex_iff)
    obtain e2 c2 as2 where exec: "exec_all fs c1 as1 = (e2, c2, as2)" by (cases "exec_all fs c1 as1")
    have c2: "committed c2 = committed c" using exec_all_committed[OF exec] c1 by simp
    show ?thesis
    proof (cases e2)
      case None
      have "opened_tx c2 = Some (fold (\<lambda>f. f) fs (committed c))"
        using exec_all_unbroken[OF unbroken c1(1,2) exec[unfolded None]] by simp
      then show ?thesis
        using assms(2) opened exec None c2
        by (auto simp: run_transaction_def tx_commit_def do_rollback_def finalize_transaction_def
            split: list.splits attempt.splits if_splits)
    next
      case (Some x)
      then show ?thesis
        using assms(2) opened exec c2 by (auto simp: run_transaction_def do_rollback_def finalize_transaction_def)
    qed
  next
    case (Some x)
    then have "committed c1 = committed c" using fields with_retry_committed by (fastforce simp: openTx_def split: if_splits)
    then show ?thesis using assms(2) fields Some by (auto simp: run_transaction_def)
  qed
qed

lemma run_transaction_frees:
  assumes "run_transaction fs c as = (None, c', as')"
  shows "\<not> own_tx c'"
  using assms
  by (auto simp: run_transaction_def tx_commit_def finalize_transaction_def
      split: prod.splits option.splits list.splits attempt.splits)


subsection \<open>Bounded retry\<close>

lemma with_retry_exhausted:
  assumes "retry + length as = MAX_RETRY_COUNT" "as \<noteq> []" "\<forall>a \<in> set as. a = Attempt_broken False"
  shows "with_retry retry f c (as @ rest) =
    (Some Broken_connection, c\<lparr>opened_tx := None, opened_connection := False\<rparr>, rest)"
  using assms
proof (induction as arbitrary: retry c)
  case (Cons a as)
  have "as \<noteq> [] \<Longrightarrow> Suc retry < MAX_RETRY_COUNT" using Cons.prems(1) by (cases as) auto
  then show ?case using Cons by (cases "as = []") (auto simp: Let_def)
qed simp

lemma with_retry_recovers:
  assumes "k < MAX_RETRY_COUNT" "0 < k"
  shows "with_retry 0 f c (replicate k (Attempt_broken False) @ Attempt_ok # rest) =
    (None, c\<lparr>opened_connection := True, opened_tx := Some (f (committed c))\<rparr>, rest)"
proof -
  have "with_retry r f c (replicate k (Attempt_broken False) @ Attempt_ok # rest) =
      (None, c\<lparr>opened_connection := True, opened_tx := Some (f (committed c))\<rparr>, rest)"
    if "r + k < MAX_RETRY_COUNT" "0 < k" for r k and c :: "'a own_tx_controller"
    using that
  proof (induction k arbitrary: r c)
    case (Suc k)
    then show ?case by (cases "k = 0") (auto simp: ensure_tx_def Let_def)
  qed simp
  then show ?thesis using assms by simp
qed

text \<open>C30: A statement survives up to 99 lost connections in a row and then runs in a new
  transaction that starts from the committed state; after 100 lost connections the statement gives
  up with the connection error, nothing being committed.\<close>

theorem with_retry_bounded:
  "0 < k \<Longrightarrow> k < 100 \<Longrightarrow>
     tx_exec f c (replicate k (Attempt_broken False) @ Attempt_ok # rest) =
       (None, c\<lparr>opened_connection := True, opened_tx := Some (f (committed c))\<rparr>, rest)
   \<and> tx_exec f c (replicate 100 (Attempt_broken False) @ rest) =
       (Some Broken_connection, c\<lparr>opened_tx := None, opened_connection := False\<rparr>, rest)"
  using with_retry_recovers[of k f c rest]
    with_retry_exhausted[of 0 "replicate 100 (Attempt_broken False)" f c rest]
  by (simp add: tx_exec_def MAX_RETRY_COUNT_def)

theorem with_retry_bounded_witness:
  "tx_exec Suc (build_own_transaction_controller 4) (replicate 3 (Attempt_broken False) @ Attempt_ok # []) =
       (None, (build_own_transaction_controller 4)\<lparr>opened_connection := True, opened_tx := Some 5\<rparr>, [])
   \<and> tx_exec Suc (build_own_transaction_controller 4) (replicate 100 (Attempt_broken False) @ []) =
       (Some Broken_connection,
        (build_own_transaction_controller 4)\<lparr>opened_tx := None, opened_connection := False\<rparr>, [])"
  using with_retry_bounded[of 3 Suc "build_own_transaction_controller 4" "[]"]
  by (simp add: build_own_transaction_controller_def)

text \<open>A connection lost inside a transaction is not an error for the client: the statement that met the loss is
  repeated in a new transaction, in which the rest follows, and the effects of the statements before it are gone.\<close>

lemma exec_all_ok:
  assumes "opened_connection c" "opened_tx c = Some d"
  shows "exec_all fs c (replicate (length fs) Attempt_ok @ as) = (None, c\<lparr>opened_tx := Some (fold (\<lambda>f. f) fs d)\<rparr>, as)"
  using assms by (induction fs arbitrary: c d) (auto simp: tx_exec_def ensure_tx_def Let_def)

lemma run_transaction_ok:
  assumes "\<not> own_tx c"
  shows "run_transaction fs c (replicate (length fs + 2) Attempt_ok @ as) =
    (None, c\<lparr>committed := fold (\<lambda>f. f) fs (committed c), opened_connection := True, opened_tx := None\<rparr>, as)"
proof -
  define c1 where "c1 = c\<lparr>own_tx := True, opened_connection := True, opened_tx := Some (committed c)\<rparr>"
  have opened: "openTx c (replicate (length fs + 2) Attempt_ok @ as) = (None, c1, replicate (length fs) Attempt_ok @ Attempt_ok # as)"
    using assms by (simp add: openTx_def ensure_tx_def Let_def c1_def replicate_app_Cons_same)
  have "exec_all fs c1 (replicate (length fs) Attempt_ok @ Attempt_ok # as) =
      (None, c1\<lparr>opened_tx := Some (fold (\<lambda>f. f) fs (committed c))\<rparr>, Attempt_ok # as)"
    by (rule exec_all_ok) (simp_all add: c1_def)
  moreover have "c\<lparr>own_tx := False\<rparr> = c" using assms by simp
  ultimately show ?thesis
    using opened assms by (simp add: run_transaction_def tx_commit_def finalize_transaction_def c1_def)
qed

lemma exec_all_append:
  "exec_all fs c as = (None, c1, as1) \<Longrightarrow> exec_all (fs @ gs) c as = exec_all gs c1 as1"
  by (induction fs c as rule: exec_all.induct) (auto split: prod.splits option.splits)

lemma lost_connection_drops_statements:
  assumes "\<not> own_tx c" "0 < k" "k < MAX_RETRY_COUNT"
  shows "run_transaction (fs @ g # gs) c
     (replicate (Suc (length fs)) Attempt_ok @ replicate k (Attempt_broken False) @ replicate (length gs + 2) Attempt_ok) =
   (None, c\<lparr>committed := fold (\<lambda>f. f) (g # gs) (committed c), opened_connection := True, opened_tx := None\<rparr>, [])"
proof -
  let ?tail = "replicate k (Attempt_broken False) @ replicate (length gs + 2) Attempt_ok"
  define c1 where "c1 = c\<lparr>own_tx := True, opened_connection := True, opened_tx := Some (committed c)\<rparr>"
  have opened: "openTx c (replicate (Suc (length fs)) Attempt_ok @ ?tail) = (None, c1, replicate (length fs) Attempt_ok @ ?tail)"
    using assms(1) by (simp add: openTx_def ensure_tx_def Let_def c1_def)
  define c2 where "c2 = c1\<lparr>opened_tx := Some (fold (\<lambda>f. f) fs (committed c))\<rparr>"
  have before: "exec_all fs c1 (replicate (length fs) Attempt_ok @ ?tail) = (None, c2, ?tail)"
    unfolding c2_def by (rule exec_all_ok) (simp_all add: c1_def)
  have lost: "tx_exec g c2 ?tail = (None, c1\<lparr>opened_tx := Some (g (committed c))\<rparr>, replicate (length gs + 1) Attempt_ok)"
    using with_retry_recovers[OF assms(3,2), of g c2 "replicate (length gs + 1) Attempt_ok"]
    by (simp add: tx_exec_def c2_def c1_def)
  have after: "exec_all gs (c1\<lparr>opened_tx := Some (g (committed c))\<rparr>) (replicate (length gs + 1) Attempt_ok) =
      (None, c1\<lparr>opened_tx := Some (fold (\<lambda>f. f) gs (g (committed c)))\<rparr>, [Attempt_ok])"
    using exec_all_ok[of "c1\<lparr>opened_tx := Some (g (committed c))\<rparr>" "g (committed c)" gs "[Attempt_ok]"]
    by (simp add: c1_def replicate_append_same)
  have all: "exec_all (fs @ g # gs) c1 (replicate (length fs) Attempt_ok @ ?tail) =
      (None, c1\<lparr>opened_tx := Some (fold (\<lambda>f. f) gs (g (committed c)))\<rparr>, [Attempt_ok])"
    using exec_all_append[OF before, of "g # gs"] lost after by simp
  have "c\<lparr>own_tx := False\<rparr> = c" using assms(1) by simp
  then show ?thesis
    using opened all assms(1)
    by (simp add: run_transaction_def tx_commit_def finalize_transaction_def c1_def)
qed

end
