(* ===== verification/Custom_Json_Types.thy ===== *)
theory Custom_Json_Types
  imports Decimal Tx_Controller
begin

text \<open>
  \<open>custom_json_type_cache\<close> of \<open>sql_serializer.cpp\<close>: every \<open>custom_json\<close> id that occurs in an operation gets
  a number, a \<open>SMALLINT\<close> of the table \<open>hafd.custom_json_types\<close>.  The cache is loaded when the node starts,
  numbers are given out in order, and new pairs are inserted into the table after each block.

  The table is the list of its rows \<open>(id, custom_json_id)\<close>; both columns are unique and an insert with
  \<open>ON CONFLICT DO NOTHING\<close> skips a row that repeats a value (\<open>irreversible_blocks.sql\<close>, lines 96--99).
  \<open>int16_t\<close> arithmetic is done in \<open>int\<close> and converted back, as in C++.

  The inserts are one transaction of the controller of \<open>Tx_Controller\<close>, whose outcomes are chosen by the environment.

  Shown: while the numbers fit and the flushes succeed, they are unique, never change, and survive a restart; once they
  overflow, a restarted node gives out numbers that are in use, and a cancelled flush loses a number.
\<close>

type_synonym custom_json_row = "int \<times> string"

record custom_json_type_cache =
  cj_mapping :: "string \<rightharpoonup> int"
  pending_inserts :: "custom_json_row list"
  cj_next_id :: int

definition to_int16 :: "int \<Rightarrow> int" where
  "to_int16 x = sint (word_of_int x :: 16 word)"

definition new_custom_json_type_cache :: custom_json_type_cache where
  "new_custom_json_type_cache = \<lparr>cj_mapping = Map.empty, pending_inserts = [], cj_next_id = 1\<rparr>"

definition load_row :: "custom_json_row \<Rightarrow> custom_json_type_cache \<Rightarrow> custom_json_type_cache" where
  "load_row row c = (case row of (i, name) \<Rightarrow>
     c\<lparr>cj_mapping := (cj_mapping c)(name \<mapsto> i),
       cj_next_id := (if cj_next_id c \<le> i then to_int16 (i + 1) else cj_next_id c)\<rparr>)"

definition load_from_db :: "custom_json_row list \<Rightarrow> custom_json_type_cache \<Rightarrow> custom_json_type_cache" where
  "load_from_db rows c = fold load_row rows c"

definition get_type_id :: "string \<Rightarrow> custom_json_type_cache \<Rightarrow> int option \<times> custom_json_type_cache" where
  "get_type_id name c =
     (if name = [] then (None, c)
      else case cj_mapping c name of
        Some i \<Rightarrow> (Some i, c)
      | None \<Rightarrow> let new_id = cj_next_id c in
          (Some new_id, c\<lparr>cj_next_id := to_int16 (new_id + 1), cj_mapping := (cj_mapping c)(name \<mapsto> new_id),
             pending_inserts := pending_inserts c @ [(new_id, name)]\<rparr>))"

text \<open>The statement that inserts a pair: quotes are doubled.\<close>

definition quote_char :: char where
  "quote_char = char_of (39 :: nat)"

definition escape_quotes :: "string \<Rightarrow> string" where
  "escape_quotes s = concat (map (\<lambda>c. if c = quote_char then [quote_char, quote_char] else [c]) s)"

definition insert_statement :: "custom_json_row \<Rightarrow> string" where
  "insert_statement row = (case row of (i, name) \<Rightarrow>
     ''INSERT INTO hafd.custom_json_types(id, custom_json_id) OVERRIDING SYSTEM VALUE VALUES(''
     @ int_to_string i @ '', '' @ [quote_char] @ escape_quotes name @ [quote_char] @ '') ON CONFLICT DO NOTHING'')"

text \<open>What the statement does to the table.\<close>

definition insert_row :: "custom_json_row \<Rightarrow> custom_json_row list \<Rightarrow> custom_json_row list" where
  "insert_row row table =
     (if fst row \<in> fst ` set table \<or> snd row \<in> snd ` set table then table else table @ [row])"

text \<open>\<open>flush_pending\<close>: the statements, the exception that comes out of \<open>join\<close>, the cache and the table.  The pending rows
  are moved out before the transaction starts, whatever becomes of it.\<close>

definition flush_pending ::
    "custom_json_type_cache \<Rightarrow> custom_json_row list \<Rightarrow> attempt list \<Rightarrow>
     string list \<times> haf_error option \<times> custom_json_type_cache \<times> custom_json_row list" where
  "flush_pending c table attempts =
     (if pending_inserts c = [] then ([], None, c, table)
      else case run_transaction (map insert_row (pending_inserts c)) (build_own_transaction_controller table) attempts of
        (e, ctl, _) \<Rightarrow> (map insert_statement (pending_inserts c), thrown_by_join e, c\<lparr>pending_inserts := []\<rparr>, committed ctl))"

text \<open>A string literal as the server reads it: up to a quote that is not doubled.\<close>

fun read_literal :: "string \<Rightarrow> string \<times> string" where
  "read_literal [] = ([], [])"
| "read_literal [c] = (if c = quote_char then ([], []) else ([c], []))"
| "read_literal (c # d # s) =
     (if c = quote_char then if d = quote_char then (case read_literal s of (x, rest) \<Rightarrow> (quote_char # x, rest)) else ([], d # s)
      else (case read_literal (d # s) of (x, rest) \<Rightarrow> (c # x, rest)))"

text \<open>A run of the cache: ids asked for and flushes after blocks.\<close>

datatype cj_action = Ask string | Flush "attempt list"

fun cj_step :: "cj_action \<Rightarrow> custom_json_type_cache \<times> custom_json_row list \<Rightarrow> custom_json_type_cache \<times> custom_json_row list" where
  "cj_step (Ask name) (c, table) = (snd (get_type_id name c), table)"
| "cj_step (Flush attempts) (c, table) = snd (snd (flush_pending c table attempts))"

definition cj_run :: "cj_action list \<Rightarrow> custom_json_type_cache \<times> custom_json_row list \<Rightarrow> custom_json_type_cache \<times> custom_json_row list" where
  "cj_run actions st = fold cj_step actions st"

text \<open>A flush that meets no error, and the ids that a run asks for and \<open>known\<close> does not have.\<close>

definition undisturbed :: "attempt list \<Rightarrow> bool" where
  "undisturbed as \<longleftrightarrow> list_all (\<lambda>a. a = Attempt_ok) as"

fun flushes_undisturbed :: "cj_action list \<Rightarrow> bool" where
  "flushes_undisturbed [] \<longleftrightarrow> True"
| "flushes_undisturbed (Ask name # as) \<longleftrightarrow> flushes_undisturbed as"
| "flushes_undisturbed (Flush attempts # as) \<longleftrightarrow> undisturbed attempts \<and> flushes_undisturbed as"

fun asked :: "cj_action list \<Rightarrow> string set" where
  "asked [] = {}"
| "asked (Ask name # as) = insert name (asked as)"
| "asked (Flush attempts # as) = asked as"

definition new_ids :: "string set \<Rightarrow> cj_action list \<Rightarrow> string set" where
  "new_ids known as = asked as - known - {[]}"


subsection \<open>The cache and the table\<close>

definition table_ok :: "custom_json_row list \<Rightarrow> bool" where
  "table_ok table \<longleftrightarrow> distinct (map fst table) \<and> distinct (map snd table) \<and> (\<forall>i \<in> fst ` set table. 0 < i \<and> i \<le> 32767)"

text \<open>The mapping is what the table and the pending rows say together, and all numbers are below the
  next one.\<close>

definition cj_ok :: "custom_json_type_cache \<times> custom_json_row list \<Rightarrow> bool" where
  "cj_ok st \<longleftrightarrow> (case st of (c, table) \<Rightarrow>
     table_ok (table @ pending_inserts c) \<and> cj_mapping c = map_of (map prod.swap (table @ pending_inserts c))
     \<and> 0 < cj_next_id c \<and> (\<forall>i \<in> fst ` set (table @ pending_inserts c). i < cj_next_id c))"

lemma to_int16_small: "- 32768 \<le> x \<Longrightarrow> x \<le> 32767 \<Longrightarrow> to_int16 x = x"
  unfolding to_int16_def by (simp add: sint_sbintrunc' signed_take_bit_int_eq_self)

lemma map_of_swap_mem:
  "distinct (map snd rows) \<Longrightarrow> map_of (map prod.swap rows) name = Some i \<longleftrightarrow> (i, name) \<in> set rows"
  by (induction rows) (auto simp: image_iff split: if_splits)

lemma map_of_swap_None: "map_of (map prod.swap rows) name = None \<longleftrightarrow> name \<notin> snd ` set rows"
  by (induction rows) auto

lemma fold_insert_rows:
  assumes "distinct (map fst (table @ rows))" "distinct (map snd (table @ rows))"
  shows "fold insert_row rows table = table @ rows"
  using assms
proof (induction rows arbitrary: table)
  case (Cons r rows)
  have "insert_row r table = table @ [r]" using Cons.prems by (auto simp: insert_row_def)
  then show ?case using Cons.IH[of "table @ [r]"] Cons.prems by simp
qed simp

lemma get_type_id_ok:
  assumes "cj_ok (c, table)" "name = [] \<or> name \<in> dom (cj_mapping c) \<or> cj_next_id c < 32767"
  shows "cj_ok (snd (get_type_id name c), table)"
    "cj_next_id (snd (get_type_id name c)) = (if name = [] \<or> name \<in> dom (cj_mapping c) then cj_next_id c else cj_next_id c + 1)"
    "cj_mapping c \<subseteq>\<^sub>m cj_mapping (snd (get_type_id name c))"
    "dom (cj_mapping (snd (get_type_id name c))) = (if name = [] then {} else {name}) \<union> dom (cj_mapping c)"
proof -
  let ?rows = "table @ pending_inserts c" and ?n = "cj_next_id c"
  have ok: "distinct (map fst ?rows)" "distinct (map snd ?rows)" "\<forall>i \<in> fst ` set ?rows. 0 < i \<and> i \<le> 32767"
    "cj_mapping c = map_of (map prod.swap ?rows)" "0 < ?n" "\<forall>i \<in> fst ` set ?rows. i < ?n"
    using assms(1) by (auto simp: cj_ok_def table_ok_def)
  have "cj_ok (snd (get_type_id name c), table) \<and>
    cj_next_id (snd (get_type_id name c)) = (if name = [] \<or> name \<in> dom (cj_mapping c) then ?n else ?n + 1)
    \<and> cj_mapping c \<subseteq>\<^sub>m cj_mapping (snd (get_type_id name c))
    \<and> dom (cj_mapping (snd (get_type_id name c))) = (if name = [] then {} else {name}) \<union> dom (cj_mapping c)"
  proof (cases "name = [] \<or> name \<in> dom (cj_mapping c)")
    case True
    then have "get_type_id name c = (cj_mapping c name, c) \<or> get_type_id name c = (None, c)"
      by (auto simp: get_type_id_def)
    then have "snd (get_type_id name c) = c" by auto
    then show ?thesis using assms(1) True by auto
  next
    case False
    then have "name \<noteq> []" "cj_mapping c name = None" "?n < 32767" using assms(2) by auto
    then have eq: "snd (get_type_id name c) = c\<lparr>cj_next_id := ?n + 1, cj_mapping := (cj_mapping c)(name \<mapsto> ?n),
        pending_inserts := pending_inserts c @ [(?n, name)]\<rparr>"
      using to_int16_small[of "?n + 1"] ok(5) \<open>?n < 32767\<close> by (simp add: get_type_id_def Let_def)
    have new: "name \<notin> snd ` set ?rows" "?n \<notin> fst ` set ?rows"
      using \<open>cj_mapping c name = None\<close> ok(4,6) map_of_swap_None[of ?rows name] by (simp, blast)
    have "map_of (map prod.swap (?rows @ [(?n, name)])) = (map_of (map prod.swap ?rows))(name \<mapsto> ?n)"
      using new(1) map_of_swap_None[of ?rows name] by (auto simp: fun_eq_iff map_add_def split: option.splits)
    moreover have "table_ok (?rows @ [(?n, name)])"
      using ok(1-3,5) new \<open>?n < 32767\<close> by (auto simp: table_ok_def)
    moreover have "i < ?n + 1" if "i \<in> fst ` set (?rows @ [(?n, name)])" for i
    proof -
      have "i \<in> fst ` set ?rows \<or> i = ?n" using that by auto
      then show ?thesis
      proof
        assume "i \<in> fst ` set ?rows"
        then have "i < ?n" using ok(6) by blast
        then show ?thesis by simp
      qed simp
    qed
    ultimately have "cj_ok (snd (get_type_id name c), table)"
      unfolding eq cj_ok_def using ok(4,5) by simp
    moreover have "cj_mapping c \<subseteq>\<^sub>m (cj_mapping c)(name \<mapsto> ?n)"
      using \<open>cj_mapping c name = None\<close> by (auto simp: map_le_def)
    ultimately show ?thesis using \<open>name \<noteq> []\<close> False by (simp add: eq)
  qed
  then show "cj_ok (snd (get_type_id name c), table)"
    "cj_next_id (snd (get_type_id name c)) = (if name = [] \<or> name \<in> dom (cj_mapping c) then cj_next_id c else cj_next_id c + 1)"
    "cj_mapping c \<subseteq>\<^sub>m cj_mapping (snd (get_type_id name c))"
    "dom (cj_mapping (snd (get_type_id name c))) = (if name = [] then {} else {name}) \<union> dom (cj_mapping c)" by blast+
qed

lemma run_transaction_undisturbed:
  assumes "undisturbed as"
  shows "\<exists>ctl as'. run_transaction fs (build_own_transaction_controller d) as = (None, ctl, as') \<and> committed ctl = fold (\<lambda>f. f) fs d"
proof -
  have retry: "with_retry r f c as = (None, (ensure_tx c)\<lparr>opened_tx := map_option f (opened_tx (ensure_tx c))\<rparr>, tl as)"
    if "undisturbed as" for r f as and c :: "'a own_tx_controller"
    using that by (cases as) (auto simp: undisturbed_def Let_def)
  have tl: "undisturbed as \<Longrightarrow> undisturbed (tl as)" for as by (cases as) (auto simp: undisturbed_def)
  have exec: "\<exists>as'. exec_all fs c as = (None, c\<lparr>opened_tx := Some (fold (\<lambda>f. f) fs x)\<rparr>, as') \<and> undisturbed as'"
    if "undisturbed as" "opened_connection c" "opened_tx c = Some x" for fs as x and c :: "'a own_tx_controller"
    using that
  proof (induction fs arbitrary: c as x)
    case (Cons f fs)
    have "exec_all (f # fs) c as = exec_all fs (c\<lparr>opened_tx := Some (f x)\<rparr>) (tl as)"
      using Cons.prems retry[OF Cons.prems(1)] by (simp add: tx_exec_def ensure_tx_def)
    then show ?case using Cons.IH[OF tl[OF Cons.prems(1)], of "c\<lparr>opened_tx := Some (f x)\<rparr>" "f x"] Cons.prems(2) by simp
  qed auto
  let ?c = "build_own_transaction_controller d"
  have opened: "openTx ?c as = (None, ?c\<lparr>own_tx := True, opened_connection := True, opened_tx := Some d\<rparr>, tl as)"
    using retry[OF assms] by (simp add: openTx_def build_own_transaction_controller_def ensure_tx_def)
  obtain as2 where as2: "exec_all fs (?c\<lparr>own_tx := True, opened_connection := True, opened_tx := Some d\<rparr>) (tl as) =
      (None, ?c\<lparr>own_tx := True, opened_connection := True, opened_tx := Some (fold (\<lambda>f. f) fs d)\<rparr>, as2)" "undisturbed as2"
    using exec[OF tl[OF assms], of "?c\<lparr>own_tx := True, opened_connection := True, opened_tx := Some d\<rparr>" d fs] by auto
  then show ?thesis
    using opened by (cases as2) (auto simp: run_transaction_def tx_commit_def finalize_transaction_def undisturbed_def)
qed

lemma flush_pending_ok:
  assumes "cj_ok (c, table)" "undisturbed as"
  shows "snd (flush_pending c table as) = (None, c\<lparr>pending_inserts := []\<rparr>, table @ pending_inserts c)"
    "cj_ok (snd (snd (flush_pending c table as)))"
proof -
  have ok: "table_ok (table @ pending_inserts c)" using assms by (simp add: cj_ok_def)
  have "fold (\<lambda>f. f) (map insert_row (pending_inserts c)) table = table @ pending_inserts c"
    using fold_insert_rows[of table "pending_inserts c"] ok by (simp add: table_ok_def fold_map comp_def)
  then show eq: "snd (flush_pending c table as) = (None, c\<lparr>pending_inserts := []\<rparr>, table @ pending_inserts c)"
    using run_transaction_undisturbed[OF assms(2), of "map insert_row (pending_inserts c)" table]
    by (auto simp: flush_pending_def)
  show "cj_ok (snd (snd (flush_pending c table as)))" unfolding eq using assms by (simp add: cj_ok_def)
qed

lemma finite_asked: "finite (asked as)"
  by (induction as rule: asked.induct) auto

lemma new_ids_Ask:
  "new_ids known (Ask name # as) =
     (if name = [] \<or> name \<in> known then new_ids known as else insert name (new_ids (insert name known) as))"
  "name \<notin> new_ids (insert name known) as" "finite (new_ids known as)" "new_ids known (Flush f # as) = new_ids known as"
  using finite_asked[of as] by (auto simp: new_ids_def)

lemma cj_run_ok:
  "cj_ok st \<Longrightarrow> flushes_undisturbed actions \<Longrightarrow>
   cj_next_id (fst st) + int (card (new_ids (dom (cj_mapping (fst st))) actions)) \<le> 32767 \<Longrightarrow>
   cj_ok (cj_run actions st) \<and> cj_mapping (fst st) \<subseteq>\<^sub>m cj_mapping (fst (cj_run actions st))
   \<and> cj_next_id (fst (cj_run actions st)) \<le> 32767"
proof (induction actions arbitrary: st)
  case Nil
  then show ?case by (simp add: cj_run_def)
next
  case (Cons a actions)
  obtain c table where st: "st = (c, table)" by (cases st)
  let ?known = "dom (cj_mapping c)"
  have step: "cj_ok (cj_step a st) \<and> flushes_undisturbed actions \<and> cj_mapping c \<subseteq>\<^sub>m cj_mapping (fst (cj_step a st)) \<and>
      cj_next_id (fst (cj_step a st)) + int (card (new_ids (dom (cj_mapping (fst (cj_step a st)))) actions)) \<le> 32767"
  proof (cases a)
    case (Flush as)
    then show ?thesis
      using Cons.prems flush_pending_ok[of c table as] by (simp add: st new_ids_Ask(4))
  next
    case (Ask name)
    have fin: "finite (new_ids (insert name ?known) actions)" by (rule new_ids_Ask(3))
    have room: "name = [] \<or> name \<in> ?known \<or> cj_next_id c < 32767"
      using Cons.prems(3) fin by (cases "name = [] \<or> name \<in> ?known") (blast, simp add: st Ask new_ids_Ask(1,2))
    note get = get_type_id_ok[OF Cons.prems(1)[unfolded st] room]
    show ?thesis
    proof (cases "name = [] \<or> name \<in> ?known")
      case True
      then have "dom (cj_mapping (snd (get_type_id name c))) = ?known" using get(4) by auto
      then show ?thesis using get(1-3) True Cons.prems(2,3) by (auto simp: st Ask new_ids_Ask(1))
    next
      case False
      then have "dom (cj_mapping (snd (get_type_id name c))) = insert name ?known" using get(4) by auto
      moreover have "card (new_ids ?known (Ask name # actions)) = Suc (card (new_ids (insert name ?known) actions))"
        using False fin by (simp add: new_ids_Ask(1,2))
      ultimately show ?thesis using get(1-3) False Cons.prems(2,3) by (auto simp: st Ask)
    qed
  qed
  have "cj_run (a # actions) st = cj_run actions (cj_step a st)" by (simp add: cj_run_def)
  then show ?case using Cons.IH[of "cj_step a st"] step map_le_trans by (auto simp: st)
qed

lemma fold_load_rows:
  assumes "distinct (map snd rows)" "\<forall>i \<in> fst ` set rows. 0 < i \<and> i < 32767" "0 < cj_next_id c" "cj_next_id c \<le> 32767"
    "snd ` set rows \<inter> dom (cj_mapping c) = {}"
  shows "cj_mapping (fold load_row rows c) = cj_mapping c ++ map_of (map prod.swap rows)
    \<and> pending_inserts (fold load_row rows c) = pending_inserts c
    \<and> cj_next_id c \<le> cj_next_id (fold load_row rows c) \<and> (\<forall>i \<in> fst ` set rows. i < cj_next_id (fold load_row rows c))"
  using assms
proof (induction rows arbitrary: c)
  case (Cons r rows)
  obtain i name where r: "r = (i, name)" by (cases r)
  let ?c = "load_row r c"
  have idr: "0 < i" "i < 32767" using Cons.prems(2) r by auto
  have c: "cj_mapping ?c = (cj_mapping c)(name \<mapsto> i)" "pending_inserts ?c = pending_inserts c"
    "cj_next_id ?c = (if cj_next_id c \<le> i then i + 1 else cj_next_id c)"
    using idr to_int16_small[of "i + 1"] by (simp_all add: load_row_def r)
  have "cj_mapping (fold load_row rows ?c) = cj_mapping ?c ++ map_of (map prod.swap rows)
    \<and> pending_inserts (fold load_row rows ?c) = pending_inserts ?c
    \<and> cj_next_id ?c \<le> cj_next_id (fold load_row rows ?c) \<and> (\<forall>i \<in> fst ` set rows. i < cj_next_id (fold load_row rows ?c))"
  proof (rule Cons.IH)
    show "snd ` set rows \<inter> dom (cj_mapping ?c) = {}" using Cons.prems(1,5) c(1) by (simp add: r)
  qed (use Cons.prems idr c in \<open>simp_all add: r\<close>)
  moreover have "cj_mapping ?c ++ map_of (map prod.swap rows) = cj_mapping c ++ map_of (map prod.swap (r # rows))"
    using Cons.prems(1) map_of_swap_None[of rows name] c(1)
    by (auto simp: r fun_eq_iff map_add_def split: option.splits)
  moreover have "cj_next_id c \<le> cj_next_id ?c" "i < cj_next_id ?c" using c(3) by auto
  moreover have "fold load_row (r # rows) c = fold load_row rows ?c" "fst ` set (r # rows) = insert i (fst ` set rows)"
    by (simp_all add: r)
  ultimately show ?case using c(2) by (metis (no_types, lifting) insert_iff le_less_trans less_le_trans order_trans)
qed simp

lemma load_from_db_ok:
  assumes "table_ok table" "\<forall>i \<in> fst ` set table. i < 32767"
  shows "cj_ok (load_from_db table new_custom_json_type_cache, table)"
    "cj_mapping (load_from_db table new_custom_json_type_cache) = map_of (map prod.swap table)"
proof -
  have "distinct (map snd table)" "\<forall>i \<in> fst ` set table. 0 < i \<and> i < 32767"
    using assms by (auto simp: table_ok_def)
  from fold_load_rows[OF this, of new_custom_json_type_cache]
  show "cj_ok (load_from_db table new_custom_json_type_cache, table)"
    "cj_mapping (load_from_db table new_custom_json_type_cache) = map_of (map prod.swap table)"
    using assms(1) by (auto simp: new_custom_json_type_cache_def load_from_db_def cj_ok_def)
qed

lemma map_of_swap_inj:
  assumes "table_ok rows" "map_of (map prod.swap rows) a = Some i" "map_of (map prod.swap rows) b = Some i"
  shows "a = b"
proof -
  have "(i, a) \<in> set rows" "(i, b) \<in> set rows"
    using assms map_of_swap_mem[of rows] by (auto simp: table_ok_def)
  then show ?thesis using assms(1) by (auto simp: table_ok_def dest: eq_key_imp_eq_value)
qed

lemma read_literal_escape:
  "rest = [] \<or> hd rest \<noteq> quote_char \<Longrightarrow> read_literal (escape_quotes s @ quote_char # rest) = (s, rest)"
proof (induction s)
  case Nil
  then show ?case by (cases rest) (simp_all add: escape_quotes_def)
next
  case (Cons c s)
  have "escape_quotes s @ quote_char # rest \<noteq> []" by simp
  then obtain d t where dt: "escape_quotes s @ quote_char # rest = d # t" by (meson neq_Nil_conv)
  have "escape_quotes (c # s) = (if c = quote_char then [quote_char, quote_char] else [c]) @ escape_quotes s"
    by (simp add: escape_quotes_def)
  then show ?case using Cons dt by (cases "c = quote_char") simp_all
qed


subsection \<open>Properties\<close>

text \<open>C37: Whatever ids are asked for and however often the pending rows are flushed, from a start that loaded the table: the
  numbers of \<open>custom_json\<close> ids never change and are unique, and after a flush a node that starts from the table knows
  exactly the same numbers.  Assumed are that the largest number of the table and the new ids together stay below 32767
  (the last number of a \<open>SMALLINT\<close>) and that no flush meets an error.\<close>

theorem custom_json_ids_are_stable:
  assumes "table_ok table" "known = snd ` set table" "\<forall>i \<in> insert 0 (fst ` set table). i + int (card (new_ids known actions)) < 32767"
    "c = load_from_db table new_custom_json_type_cache" "flushes_undisturbed actions" "undisturbed attempts"
    "cj_run actions (c, table) = (c1, table1)" "flush_pending c1 table1 attempts = (sql, err, c2, table2)"
  shows "err = None \<and> cj_mapping c \<subseteq>\<^sub>m cj_mapping c1
    \<and> (cj_mapping c1 a = Some i \<and> cj_mapping c1 b = Some i \<longrightarrow> a = b)
    \<and> cj_mapping (load_from_db table2 new_custom_json_type_cache) = cj_mapping c1"
proof -
  let ?k = "int (card (new_ids known actions))"
  have small: "\<forall>i \<in> fst ` set table. i < 32767" using assms(3) by fastforce
  have ok: "cj_ok (c, table)" "cj_mapping c = map_of (map prod.swap table)"
    using load_from_db_ok[OF assms(1) small] assms(4) by simp_all
  have known: "dom (cj_mapping c) = known" unfolding ok(2) assms(2) dom_map_of_conv_image_fst by force
  have next_id: "cj_next_id c + ?k \<le> 32767"
  proof -
    have "\<forall>i \<in> fst ` set rows. 0 < i \<and> i + ?k < 32767 \<Longrightarrow> cj_next_id d + ?k \<le> 32767 \<Longrightarrow>
        cj_next_id (fold load_row rows d) + ?k \<le> 32767" for rows d
    proof (induction rows arbitrary: d)
      case (Cons r rows)
      have "cj_next_id (load_row r d) + ?k \<le> 32767"
        using Cons.prems to_int16_small[of "fst r + 1"] by (auto simp: load_row_def split: prod.splits)
      then show ?case using Cons by simp
    qed simp
    from this[of table new_custom_json_type_cache] show ?thesis
      using assms(1,3,4) by (simp add: load_from_db_def new_custom_json_type_cache_def table_ok_def)
  qed
  have run: "cj_ok (c1, table1)" "cj_mapping c \<subseteq>\<^sub>m cj_mapping c1" "cj_next_id c1 \<le> 32767"
    using cj_run_ok[OF ok(1) assms(5)] next_id assms(7) known by simp_all
  have flushed: "err = None" "c2 = c1\<lparr>pending_inserts := []\<rparr>" "table2 = table1 @ pending_inserts c1" "cj_ok (c2, table2)"
    using flush_pending_ok[OF run(1) assms(6)] assms(8) by auto
  have map: "cj_mapping c1 = map_of (map prod.swap table2)" "table_ok table2" "\<forall>i \<in> fst ` set table2. i < cj_next_id c1"
    using flushed by (auto simp: cj_ok_def)
  have "a = b" if "cj_mapping c1 a = Some i" "cj_mapping c1 b = Some i"
    using map_of_swap_inj[OF map(2)] that map(1) by auto
  then show ?thesis using run(2,3) load_from_db_ok(2)[OF map(2)] map(1,3) flushed(1) by fastforce
qed

theorem custom_json_ids_are_stable_witness:
  "\<exists>c1 table1 sql c2 table2. cj_run [Ask ''follow'', Flush [Attempt_ok], Ask ''rc'', Ask ''follow'']
      (load_from_db [(1, ''notify'')] new_custom_json_type_cache, [(1, ''notify'')]) = (c1, table1)
    \<and> flush_pending c1 table1 [] = (sql, None, c2, table2)
    \<and> cj_mapping (load_from_db table2 new_custom_json_type_cache) = cj_mapping c1"
proof -
  let ?c = "load_from_db [(1, ''notify'')] new_custom_json_type_cache" and ?as = "[Ask ''follow'', Flush [Attempt_ok], Ask ''rc'', Ask ''follow'']"
  obtain c1 table1 where run: "cj_run ?as (?c, [(1, ''notify'')]) = (c1, table1)" by fastforce
  obtain sql err c2 table2 where flush: "flush_pending c1 table1 [] = (sql, err, c2, table2)" by (cases "flush_pending c1 table1 []")
  have "new_ids {''notify''} ?as = {''follow'', ''rc''}" by (auto simp: new_ids_def)
  then show ?thesis
    using custom_json_ids_are_stable[OF _ refl _ refl _ _ run flush] run flush by (auto simp: table_ok_def undisturbed_def)
qed

text \<open>C39: A flush whose query the server cancels loses the pending rows without an exception: the node goes on with numbers
  that are not in the table, and a node that starts from the table gives the number of a lost id to another id.\<close>

theorem cancelled_flush_reuses_number:
  assumes "table_ok table" "\<forall>i \<in> fst ` set table. i < 32766" "c = load_from_db table new_custom_json_type_cache"
    "name \<notin> insert [] (snd ` set table)" "other \<notin> insert [] (snd ` set table)"
  shows "\<exists>i c1 sql c2 c3. get_type_id name c = (Some i, c1)
    \<and> flush_pending c1 table [Attempt_ok, Attempt_failed ''57014''] = (sql, None, c2, table)
    \<and> pending_inserts c2 = [] \<and> cj_mapping c2 name = Some i
    \<and> get_type_id other (load_from_db table new_custom_json_type_cache) = (Some i, c3)"
proof -
  have small: "\<forall>i \<in> fst ` set table. i < 32767" using assms(2) by fastforce
  have c: "cj_mapping c = map_of (map prod.swap table)" "pending_inserts c = []"
    using load_from_db_ok(2)[OF assms(1) small] fold_load_rows[of table new_custom_json_type_cache] assms(1,3) small
    by (auto simp: table_ok_def new_custom_json_type_cache_def load_from_db_def)
  have new: "name \<noteq> []" "cj_mapping c name = None" "other \<noteq> []" "cj_mapping c other = None"
    using assms(4,5) unfolding c(1) map_of_swap_None by auto
  let ?row = "(cj_next_id c, name)"
  have "run_transaction (map insert_row [?row]) (build_own_transaction_controller table) [Attempt_ok, Attempt_failed ''57014''] =
      (Some query_cancelled, \<lparr>committed = table, opened_connection = True, own_tx = False, opened_tx = None\<rparr>, [])"
    by (simp add: run_transaction_def openTx_def tx_exec_def ensure_tx_def Let_def do_rollback_def finalize_transaction_def
        build_own_transaction_controller_def query_cancelled_def)
  then show ?thesis
    using new c(2) by (simp add: get_type_id_def Let_def flush_pending_def assms(3)[symmetric])
qed

theorem cancelled_flush_reuses_number_witness:
  "\<exists>i c1 sql c2 c3. get_type_id ''follow'' (load_from_db [(1, ''notify'')] new_custom_json_type_cache) = (Some i, c1)
    \<and> flush_pending c1 [(1, ''notify'')] [Attempt_ok, Attempt_failed ''57014''] = (sql, None, c2, [(1, ''notify'')])
    \<and> pending_inserts c2 = [] \<and> cj_mapping c2 ''follow'' = Some i
    \<and> get_type_id ''rc'' (load_from_db [(1, ''notify'')] new_custom_json_type_cache) = (Some i, c3)"
  by (rule cancelled_flush_reuses_number[OF _ _ refl]) (simp_all add: table_ok_def)

text \<open>The statement that stores an id is read back by the server as that id, whatever quotes it
  contains.\<close>

theorem stored_custom_json_id_is_read_back:
  "\<exists>prefix. insert_statement (i, name) = prefix @ [quote_char] @ escape_quotes name @ [quote_char] @ '') ON CONFLICT DO NOTHING''
    \<and> quote_char \<notin> set prefix
    \<and> read_literal (escape_quotes name @ quote_char # '') ON CONFLICT DO NOTHING'') = (name, '') ON CONFLICT DO NOTHING'')"
proof -
  have "quote_char \<noteq> c" if "is_digit c" for c
    using that by (auto simp: is_digit_def quote_char_def)
  then have "quote_char \<notin> set (nat_to_string n)" for n using nat_to_string_digits[of n] by blast
  then have "quote_char \<notin> set (int_to_string i)"
    by (simp add: int_to_string_def quote_char_def char_of_def)
  then have "insert_statement (i, name) = (''INSERT INTO hafd.custom_json_types(id, custom_json_id) OVERRIDING SYSTEM VALUE VALUES(''
      @ int_to_string i @ '', '') @ [quote_char] @ escape_quotes name @ [quote_char] @ '') ON CONFLICT DO NOTHING''
    \<and> quote_char \<notin> set (''INSERT INTO hafd.custom_json_types(id, custom_json_id) OVERRIDING SYSTEM VALUE VALUES('' @ int_to_string i @ '', '')"
    by (simp add: insert_statement_def) (simp add: quote_char_def char_of_def)
  moreover have "read_literal (escape_quotes name @ quote_char # '') ON CONFLICT DO NOTHING'') = (name, '') ON CONFLICT DO NOTHING'')"
    by (rule read_literal_escape) (simp add: quote_char_def char_of_def)
  ultimately show ?thesis by blast
qed

text \<open>The largest number makes the counter overflow: a node that loads the row with number 32767 and
  after it a row with another number goes on counting behind the latter, so a new id gets a number that
  may belong to another id, and its row is dropped as a conflict.\<close>

theorem custom_json_ids_collide_after_overflow:
  assumes "0 < i" "i + 1 < 32767" "name \<noteq> []" "distinct [name, a, b, d]"
  shows "\<exists>c. get_type_id name (load_from_db [(i + 1, d), (32767, a), (i, b)] new_custom_json_type_cache) = (Some (i + 1), c)
    \<and> cj_mapping c d = Some (i + 1)
    \<and> snd (snd (snd (flush_pending c [(i + 1, d), (32767, a), (i, b)] []))) = [(i + 1, d), (32767, a), (i, b)]"
proof -
  have t: "to_int16 32768 = - 32768" by (simp add: to_int16_def)
  have s: "to_int16 (i + 2) = i + 2" "to_int16 (i + 1) = i + 1" using assms by (simp_all add: to_int16_small)
  have d: "a \<noteq> d" "b \<noteq> d" "d \<noteq> a" "d \<noteq> b" "name \<noteq> d" "name \<noteq> a" "name \<noteq> b" "a \<noteq> name" "b \<noteq> name" "d \<noteq> name" using assms(4) by auto
  show ?thesis
    using assms(1-3) d t s
    by (simp add: load_from_db_def load_row_def new_custom_json_type_cache_def get_type_id_def Let_def flush_pending_def
        insert_row_def add.commute run_transaction_def openTx_def tx_exec_def ensure_tx_def tx_commit_def finalize_transaction_def
        build_own_transaction_controller_def)
qed

theorem custom_json_ids_collide_after_overflow_witness:
  "\<exists>c. get_type_id ''new'' (load_from_db [(6, ''rc''), (32767, ''last''), (5, ''follow'')] new_custom_json_type_cache) = (Some 6, c)
    \<and> cj_mapping c ''rc'' = Some 6"
  using custom_json_ids_collide_after_overflow[of 5 "''new''" "''last''" "''follow''" "''rc''"] by auto

end
