(* ===== verification/Indexation_State.thy ===== *)
theory Indexation_State
  imports Cached_Data
begin

text \<open>
  \<open>indexation_state.cpp\<close>: the synchronisation state machine.  It decides when blocks are collected, with
  which dumper they are written and when the cache is flushed.

  The object's fields are a record; what it does to the database and to the dumpers is recorded in a
  list of effects in the order in which it happens.  A C++ exception keeps the changes made before
  it, so every operation returns the error (if any) with the state and the cache.  The loops over the
  blocks of the cache are partial functions: \<open>None\<close> is a loop that does not end.

  Clock, head block time and the answers of the index controller are the parameter \<open>env\<close>.  The synchronous flush of the
  dumper for massive synchronisation runs in the calling thread, so its SQL errors come back to the caller; what the database
  answers is the field \<open>sync_answer\<close>, a function of what has happened so far.  The other dumpers write in threads of their
  own, whose failure stops the process and is not an outcome here.
\<close>

datatype INDEXATION = START | WAIT | REINDEX_WAIT | REINDEX | P2P | LIVE

definition indexation_value :: "INDEXATION \<Rightarrow> u32" where
  "indexation_value st = (case st of
     START \<Rightarrow> 0x00 | WAIT \<Rightarrow> 0x01 | REINDEX_WAIT \<Rightarrow> 0x02 | REINDEX \<Rightarrow> 0xA0 | P2P \<Rightarrow> 0xA1 | LIVE \<Rightarrow> 0xA2)"

definition COLLECT_BLOCKS_MASK :: u32 where
  "COLLECT_BLOCKS_MASK = 0xA0"

definition UNKNOWN :: u32 where
  "UNKNOWN = 0xFFFFFFFF"

datatype data_dumper = Fake_data_dumper | Reindex_data_dumper bool | Livesync_data_dumper

datatype flush_trigger =
    Fake_flush_trigger | Reindex_flush_trigger | Live_flush_trigger | P2p_flush_trigger int | Lite_live_flush_trigger

datatype sync_flush = Sync_committed | Sync_rolled_back haf_error | Sync_in_doubt haf_error

datatype effect =
    Set_sync_state INDEXATION
  | Wait_for_contexts u32
  | Dump_massive bool cached_items int
  | Dump_live cached_items int
  | Dump_failed haf_error
  | Disable_constraints u32
  | Disable_indexes u32
  | Enable_indexes
  | Enable_constrains
  | Poll_and_create_indexes
  | Create_dumper data_dumper
  | Destroy_dumper data_dumper
  | Kill_node

record indexation_state =
  psql_livesync_threshold :: u32
  psql_first_block :: u32
  psql_pruning_tail_size :: u32
  is_lite_mode :: bool
  the_dumper :: "data_dumper option"
  the_trigger :: "flush_trigger option"
  irreversible_block_num :: int
  prior_massive_sync_interrupted :: bool
  psql_head_at_startup :: u32
  cached_state_value :: "INDEXATION option"
  db_sync_state :: INDEXATION
  sync_answer :: "effect list \<Rightarrow> sync_flush"
  effects :: "effect list"

text \<open>\<open>behind_us\<close> is the difference of the wall clock and the head block time in microseconds;
  \<open>constraints_can_drop\<close> the answer of \<open>disable_constraints\<close>; \<open>interrupt_after\<close> the number of passes after
  which \<open>is_interrupt_request\<close> answers true.\<close>

record env =
  behind_us :: int
  constraints_can_drop :: "u32 \<Rightarrow> bool"
  interrupt_after :: "nat option"

type_synonym outcome = "haf_error option \<times> indexation_state \<times> cached_data_t"

definition emit :: "effect \<Rightarrow> indexation_state \<Rightarrow> indexation_state" where
  "emit e s = s\<lparr>effects := effects s @ [e]\<rparr>"

fun andthen :: "outcome option \<Rightarrow> (indexation_state \<Rightarrow> cached_data_t \<Rightarrow> outcome option) \<Rightarrow> outcome option" where
  "andthen None f = None"
| "andthen (Some (Some e, s, c)) f = Some (Some e, s, c)"
| "andthen (Some (None, s, c)) f = f s c"


subsection \<open>State, clock and contexts\<close>

definition get_state :: "indexation_state \<Rightarrow> INDEXATION \<times> indexation_state" where
  "get_state s = (case cached_state_value s of
     Some v \<Rightarrow> (v, s)
   | None \<Rightarrow> (db_sync_state s, s\<lparr>cached_state_value := Some (db_sync_state s)\<rparr>))"

definition set_state :: "INDEXATION \<Rightarrow> indexation_state \<Rightarrow> indexation_state" where
  "set_state st s = (emit (Set_sync_state st) s)\<lparr>db_sync_state := st, cached_state_value := None\<rparr>"

definition collect_blocks :: "indexation_state \<Rightarrow> bool \<times> indexation_state" where
  "collect_blocks s = (let (st, s1) = get_state s in
     (and (indexation_value st) COLLECT_BLOCKS_MASK \<noteq> 0, s1))"

definition can_move_to_livesync :: "env \<Rightarrow> indexation_state \<Rightarrow> bool" where
  "can_move_to_livesync e s \<longleftrightarrow> behind_us e < uint (psql_livesync_threshold s * 3) * 1000000"

text \<open>\<open>to_seconds\<close> truncates towards zero.\<close>

definition expected_number_of_blocks_to_sync :: "env \<Rightarrow> u32" where
  "expected_number_of_blocks_to_sync e =
     (if behind_us e < 1000000 then 0 else word_of_int (behind_us e div 1000000 div 3))"

definition is_pruning_enabled :: "indexation_state \<Rightarrow> bool" where
  "is_pruning_enabled s \<longleftrightarrow> 0 < psql_pruning_tail_size s"

definition wait_for_contexts :: "indexation_state \<Rightarrow> indexation_state" where
  "wait_for_contexts s =
     (if \<not> is_pruning_enabled s then s
      else let (st, s1) = get_state s in
        if st = LIVE then s1 else emit (Wait_for_contexts (psql_pruning_tail_size s1)) s1)"

definition on_irreversible_block :: "indexation_state \<Rightarrow> u32 \<Rightarrow> indexation_state" where
  "on_irreversible_block s block_num = s\<lparr>irreversible_block_num := sint block_num\<rparr>"


subsection \<open>Dumpers and triggers\<close>

text \<open>A flush of the massive dumper by its threads takes the rows; the synchronous one throws when its transaction fails, and
  keeps the cache.  When only the answer to its \<open>COMMIT\<close> is lost the rows are written although it throws.  What a connection
  that is lost and restored inside the transaction does to the rows is a matter of theory \<open>Tx_Controller\<close>.\<close>

definition massive_flush ::
    "bool \<Rightarrow> sync_flush \<Rightarrow> cached_data_t \<Rightarrow> int \<Rightarrow> haf_error option \<times> effect list \<times> cached_data_t" where
  "massive_flush sync answer c n =
     (case (if sync then answer else Sync_committed) of
        Sync_committed \<Rightarrow> (None, [Dump_massive sync (items c) n], clear_all_items c)
      | Sync_rolled_back e \<Rightarrow> (Some e, [Dump_failed e], c)
      | Sync_in_doubt e \<Rightarrow> (Some e, [Dump_massive sync (items c) n, Dump_failed e], c))"

definition dumper_flush ::
    "sync_flush \<Rightarrow> data_dumper option \<Rightarrow> cached_data_t \<Rightarrow> int \<Rightarrow> haf_error option \<times> effect list \<times> cached_data_t" where
  "dumper_flush answer d c n = (case d of
     None \<Rightarrow> (Some Null_pointer, [], c)
   | Some Fake_data_dumper \<Rightarrow> (None, [], c)
   | Some (Reindex_data_dumper sync) \<Rightarrow> massive_flush sync answer c n
   | Some Livesync_data_dumper \<Rightarrow>
       if length (blocks c) = 1 then (None, [Dump_live (items c) n], clear_all_items c)
       else (Some (Assert_failed ''LIVE sync can only process one block''), [], c))"

definition force_trigger_flush_with_all_data :: "indexation_state \<Rightarrow> cached_data_t \<Rightarrow> int \<Rightarrow> outcome" where
  "force_trigger_flush_with_all_data s c last_block_num =
     (if blocks c = [] then (None, s, c)
      else let s1 = wait_for_contexts s; (err, es, c1) = dumper_flush (sync_answer s1 (effects s1)) (the_dumper s1) c last_block_num
        in (err, s1\<lparr>effects := effects s1 @ es\<rparr>, c1))"

text \<open>Flush a part that was moved out of the cache; what a dumper leaves of the part is lost with it.\<close>

definition flush_part :: "indexation_state \<Rightarrow> cached_data_t \<times> cached_data_t \<Rightarrow> int \<Rightarrow> outcome" where
  "flush_part s parts n =
     (let (err, s1, _) = force_trigger_flush_with_all_data s (fst parts) n in (err, s1, snd parts))"

partial_function (option) flush_all_data_to_reversible ::
    "nat option \<Rightarrow> indexation_state \<Rightarrow> cached_data_t \<Rightarrow> outcome option" where
  "flush_all_data_to_reversible k s c =
     (if blocks c = [] \<or> k = Some 0 then Some (None, s, c)
      else let n = block_number (hd (blocks c));
               r = flush_part s (move_all_items_upto_block c (word_of_int n)) n
        in if fst r \<noteq> None then Some r
           else flush_all_data_to_reversible (map_option (\<lambda>i. i - 1) k) (fst (snd r)) (snd (snd r)))"

partial_function (option) lite_live_flush ::
    "u32 \<Rightarrow> indexation_state \<Rightarrow> cached_data_t \<Rightarrow> outcome option" where
  "lite_live_flush irr s c =
     (if blocks c = [] \<or> \<not> word_of_int (block_number (hd (blocks c))) \<le> irr then Some (None, s, c)
      else let n = block_number (hd (blocks c));
               r = flush_part s (move_all_items_upto_block c (word_of_int n)) n
        in if fst r \<noteq> None then Some r else lite_live_flush irr (fst (snd r)) (snd (snd r)))"

definition MINIMUM_BLOCKS_PER_FLUSH :: int where
  "MINIMUM_BLOCKS_PER_FLUSH = 1000"

definition BLOCKS_PER_FLUSH :: int where
  "BLOCKS_PER_FLUSH = 1000"

definition p2p_flush :: "int \<Rightarrow> indexation_state \<Rightarrow> cached_data_t \<Rightarrow> outcome" where
  "p2p_flush last_flushed_block_num s c =
     (let irr = irreversible_block_num s in
      if irr = NO_IRREVERSIBLE_BLOCK then (None, s, c)
      else if irr - last_flushed_block_num < MINIMUM_BLOCKS_PER_FLUSH then (None, s, c)
      else let (err, s1, c1) = flush_part s (move_irreveresible_blocks c (word_of_int irr)) irr
        in (err, if err = None then s1\<lparr>the_trigger := Some (P2p_flush_trigger irr)\<rparr> else s1, c1))"

definition trigger_data_flush :: "indexation_state \<Rightarrow> cached_data_t \<Rightarrow> int \<Rightarrow> outcome option" where
  "trigger_data_flush s c last_block_num = (case the_trigger s of
     None \<Rightarrow> Some (Some Null_pointer, s, c)
   | Some Fake_flush_trigger \<Rightarrow> Some (None, s, c)
   | Some Reindex_flush_trigger \<Rightarrow>
       if last_block_num mod BLOCKS_PER_FLUSH = 0
       then Some (force_trigger_flush_with_all_data s c last_block_num) else Some (None, s, c)
   | Some Live_flush_trigger \<Rightarrow> Some (force_trigger_flush_with_all_data s c last_block_num)
   | Some (P2p_flush_trigger last_flushed) \<Rightarrow> Some (p2p_flush last_flushed s c)
   | Some Lite_live_flush_trigger \<Rightarrow>
       if irreversible_block_num s = NO_IRREVERSIBLE_BLOCK then Some (None, s, c)
       else lite_live_flush (word_of_int (irreversible_block_num s)) s c)"

definition move_irreversible_blocks :: "indexation_state \<Rightarrow> cached_data_t \<Rightarrow> outcome" where
  "move_irreversible_blocks s c =
     flush_part s (move_irreveresible_blocks c (word_of_int (irreversible_block_num s))) (irreversible_block_num s)"

definition flush_all_cached_data :: "indexation_state \<Rightarrow> cached_data_t \<Rightarrow> int \<Rightarrow> outcome" where
  "flush_all_cached_data s c last_block_num =
     (let (st, s1) = get_state s in
      if st = LIVE then move_irreversible_blocks s1 c
      else force_trigger_flush_with_all_data s1 c last_block_num)"

subsection \<open>Changing the state\<close>

definition reset_dumper :: "indexation_state \<Rightarrow> indexation_state" where
  "reset_dumper s =
     (case the_dumper s of None \<Rightarrow> s | Some d \<Rightarrow> emit (Destroy_dumper d) s)\<lparr>the_trigger := None, the_dumper := None\<rparr>"

definition create_dumper :: "data_dumper \<Rightarrow> indexation_state \<Rightarrow> indexation_state" where
  "create_dumper d s = (emit (Create_dumper d) s)\<lparr>the_dumper := Some d\<rparr>"

text \<open>The block shared by the entries of P2P and REINDEX: drop what may be dropped and create the
  dumper, which works synchronously when the constraints stay.\<close>

definition start_massive_dumper :: "env \<Rightarrow> u32 \<Rightarrow> indexation_state \<Rightarrow> indexation_state" where
  "start_massive_dumper e blocks_to_sync s =
     create_dumper (Reindex_data_dumper (\<not> constraints_can_drop e blocks_to_sync))
       (emit (Disable_indexes blocks_to_sync) (emit (Disable_constraints blocks_to_sync) s))"

definition enter_p2p :: "env \<Rightarrow> u32 \<Rightarrow> indexation_state \<Rightarrow> cached_data_t \<Rightarrow> outcome option" where
  "enter_p2p e last_block_num s c =
     andthen (Some (force_trigger_flush_with_all_data s c (sint last_block_num))) (\<lambda>s c.
       let s1 = set_state P2P (reset_dumper s);
           s2 = start_massive_dumper e (expected_number_of_blocks_to_sync e) s1
       in Some (None, s2\<lparr>irreversible_block_num := NO_IRREVERSIBLE_BLOCK, the_trigger := Some (P2p_flush_trigger 0)\<rparr>, c))"

definition enter_reindex :: "env \<Rightarrow> u32 \<Rightarrow> u32 \<Rightarrow> indexation_state \<Rightarrow> cached_data_t \<Rightarrow> outcome option" where
  "enter_reindex e last_block_num number_of_blocks_to_add s c =
     (let (st, s) = get_state s in
      if \<not> (st = START \<or> st = REINDEX_WAIT)
      then Some (Some (Assert_failed ''Reindex always starts after START or REINDEX_WAIT''), s, c)
      else andthen (Some (force_trigger_flush_with_all_data s c (sint last_block_num))) (\<lambda>s c.
        let s1 = set_state REINDEX (reset_dumper s);
            blocks_to_sync = (if number_of_blocks_to_add = 0 \<or> number_of_blocks_to_add = UNKNOWN
              then expected_number_of_blocks_to_sync e else number_of_blocks_to_add);
            s2 = start_massive_dumper e blocks_to_sync s1
        in Some (None, s2\<lparr>the_trigger := Some Reindex_flush_trigger\<rparr>, c)))"

definition enter_live :: "env \<Rightarrow> indexation_state \<Rightarrow> cached_data_t \<Rightarrow> outcome option" where
  "enter_live e s c =
     (let (st, s) = get_state s in
      andthen (if st \<noteq> START then Some (move_irreversible_blocks s c) else Some (None, s, c)) (\<lambda>s c.
        let s1 = set_state LIVE (reset_dumper s);
            s2 = create_dumper Livesync_data_dumper
              (emit Poll_and_create_indexes (emit Enable_constrains (emit Enable_indexes s1)))
        in if is_lite_mode s2
           then Some (None, s2\<lparr>the_trigger := Some Lite_live_flush_trigger\<rparr>, clear_all_items c)
           else flush_all_data_to_reversible (interrupt_after e) (s2\<lparr>the_trigger := Some Live_flush_trigger\<rparr>) c))"

definition enter_waiting :: "INDEXATION \<Rightarrow> indexation_state \<Rightarrow> cached_data_t \<Rightarrow> outcome option" where
  "enter_waiting st s c =
     (let s1 = set_state st (reset_dumper s)
      in Some (None, (create_dumper Fake_data_dumper s1)\<lparr>the_trigger := Some Fake_flush_trigger\<rparr>, c))"

definition update_state ::
    "env \<Rightarrow> INDEXATION \<Rightarrow> u32 \<Rightarrow> u32 \<Rightarrow> indexation_state \<Rightarrow> cached_data_t \<Rightarrow> outcome option" where
  "update_state e state last_block_num number_of_blocks_to_add s c =
     (let (current, s) = get_state s in
      if current = LIVE then Some (Some (Assert_failed ''Move from LIVE state is illegal''), s, c)
      else if state = P2P \<and> current \<noteq> REINDEX \<and> prior_massive_sync_interrupted s
          \<and> last_block_num \<noteq> psql_head_at_startup s + 1
      then Some (Some (Assert_failed ''Refusing to resume interrupted massive sync''), emit Kill_node s, c)
      else case state of
          START \<Rightarrow> Some (None, s, c)
        | P2P \<Rightarrow> enter_p2p e last_block_num s c
        | REINDEX \<Rightarrow> enter_reindex e last_block_num number_of_blocks_to_add s c
        | LIVE \<Rightarrow> enter_live e s c
        | WAIT \<Rightarrow> enter_waiting WAIT s c
        | REINDEX_WAIT \<Rightarrow> enter_waiting REINDEX_WAIT s c)"

text \<open>The constructor; \<open>interrupted\<close> and \<open>head\<close> are read from the database, whose later answers are \<open>answer\<close>.\<close>

definition new_indexation_state ::
    "u32 \<Rightarrow> u32 \<Rightarrow> u32 \<Rightarrow> bool \<Rightarrow> bool \<Rightarrow> u32 \<Rightarrow> INDEXATION \<Rightarrow> (effect list \<Rightarrow> sync_flush) \<Rightarrow> indexation_state result" where
  "new_indexation_state livesync_threshold first_block pruning lite interrupted head db_state answer =
     rbind (fc_assert (1 \<le> first_block) ''psql-first-block < 1'') (\<lambda>_.
       Inr (set_state START
         \<lparr>psql_livesync_threshold = livesync_threshold, psql_first_block = first_block,
          psql_pruning_tail_size = pruning, is_lite_mode = lite, the_dumper = None, the_trigger = None,
          irreversible_block_num = NO_IRREVERSIBLE_BLOCK, prior_massive_sync_interrupted = interrupted,
          psql_head_at_startup = head, cached_state_value = None, db_sync_state = db_state, sync_answer = answer,
          effects = []\<rparr>))"


subsection \<open>The handlers\<close>

definition on_pre_reindex :: "env \<Rightarrow> indexation_state \<Rightarrow> cached_data_t \<Rightarrow> int \<Rightarrow> u32 \<Rightarrow> outcome option" where
  "on_pre_reindex e s c last_block_num number_of_blocks_to_add =
     (let (st, s) = get_state s in
      if can_move_to_livesync e s then update_state e WAIT 0 UNKNOWN s c
      else update_state e REINDEX_WAIT (word_of_int last_block_num) number_of_blocks_to_add s c)"

definition end_of_syncing :: "indexation_state \<Rightarrow> cached_data_t \<Rightarrow> u32 \<Rightarrow> outcome option" where
  "end_of_syncing s c last_block_num =
     andthen (Some (force_trigger_flush_with_all_data s c (sint last_block_num))) (\<lambda>s c.
       Some (None, emit Enable_constrains (emit Enable_indexes (reset_dumper s)), c))"

definition on_post_reindex :: "env \<Rightarrow> indexation_state \<Rightarrow> cached_data_t \<Rightarrow> u32 \<Rightarrow> u32 \<Rightarrow> outcome option" where
  "on_post_reindex e s c last_block_num stop_replay_at =
     (let (st, s) = get_state s; ended = (stop_replay_at \<noteq> 0 \<and> stop_replay_at = last_block_num) in
      case st of
        REINDEX \<Rightarrow> if ended then end_of_syncing s c last_block_num else update_state e P2P last_block_num UNKNOWN s c
      | REINDEX_WAIT \<Rightarrow>
          if ended then end_of_syncing s c last_block_num else update_state e WAIT last_block_num UNKNOWN s c
      | _ \<Rightarrow> Some (None, s, c))"

definition on_end_of_syncing :: "env \<Rightarrow> indexation_state \<Rightarrow> cached_data_t \<Rightarrow> int \<Rightarrow> outcome option" where
  "on_end_of_syncing e s c last_block_num =
     (let (st, s) = get_state s in
      if st = LIVE then Some (None, s, c) else update_state e LIVE (word_of_int last_block_num) UNKNOWN s c)"

text \<open>\<open>on_first_block\<close> and \<open>on_block\<close> work on an empty cache of their own, which is dropped.\<close>

definition on_first_block :: "env \<Rightarrow> indexation_state \<Rightarrow> int \<Rightarrow> outcome option" where
  "on_first_block e s last_block_num =
     (let (st, s) = get_state s; n = word_of_int last_block_num in
      case st of
        START \<Rightarrow> update_state e (if can_move_to_livesync e s then LIVE else P2P) n UNKNOWN s empty_cached_data
      | WAIT \<Rightarrow> update_state e (if can_move_to_livesync e s then LIVE else P2P) n UNKNOWN s empty_cached_data
      | REINDEX_WAIT \<Rightarrow> update_state e REINDEX n UNKNOWN s empty_cached_data
      | _ \<Rightarrow> Some (None, s, empty_cached_data))"

definition on_block :: "env \<Rightarrow> indexation_state \<Rightarrow> int \<Rightarrow> outcome option" where
  "on_block e s last_block_num =
     (let (st, s) = get_state s in
      andthen (if st = START then update_state e WAIT (word_of_int last_block_num) UNKNOWN s empty_cached_data
               else Some (None, s, empty_cached_data)) (\<lambda>s c.
        if psql_first_block s \<le> word_of_int last_block_num then on_first_block e s last_block_num
        else Some (None, s, c)))"

definition on_switch_fork :: "indexation_state \<Rightarrow> cached_data_t \<Rightarrow> u32 \<Rightarrow> indexation_state \<times> cached_data_t" where
  "on_switch_fork s c block_num =
     (let (st, s) = get_state s in
      if st = LIVE \<and> is_lite_mode s \<or> st = P2P then (s, erase_all_items_greater_than_block c block_num)
      else (s, c))"

end
