(* ===== verification/Sql_Serializer.thy ===== *)
theory Sql_Serializer
  imports Accounts_Collector Custom_Json_Types Indexation_State
begin

text \<open>
  The plugin itself (\<open>sql_serializer.cpp\<close>): the handlers of the signals of the chain that collect the rows
  of a block into the cache and drive the indexation state, with \<open>vacuum_cleaner.cpp\<close> as far as it is
  called after a block.

  A handler returns the exception it throws, if any, with the plugin's state, or nothing if a loop of
  the indexation state does not end.  The cache is the one the accounts collector refers to.  The chain
  and the protocol library are parameters (\<open>plugin_env\<close>): which operations are effective or virtual, which
  accounts an operation concerns, how an operation id is composed of block and position, and the
  \<open>sizeof\<close> constants of the statistics.  What the start of HAF (\<open>replay_wal_if_necessary\<close> and
  \<open>inform_hfm_about_starting\<close>), the vacuum commands and the transaction of \<open>flush_pending\<close> answer is a parameter too.
\<close>


subsection \<open>Notifications\<close>

record operation_notification =
  note_op :: hive_operation
  note_block :: u32
  note_trx_in_block :: int
  note_op_in_trx :: int

record full_transaction =
  full_trx_id :: string
  full_ref_block_num :: "16 word"
  full_ref_block_prefix :: u32
  full_expiration :: u32
  full_signatures :: "string list"
  full_rc_cost :: int

text \<open>A block with what the handler reads of the chain database for it; the account and the witness of
  the producer are looked up and may be missing.\<close>

record block_notification =
  note_block_num :: u32
  note_block_id :: string
  note_prev_block_id :: string
  note_timestamp :: u32
  note_transaction_merkle_root :: string
  note_extensions :: "string option"
  note_witness_signature :: string
  note_transactions :: "full_transaction list"
  producer_account :: "int option"
  producer_signing_key :: "string option"
  dgpo_hbd_interest_rate :: "16 word"
  dgpo_total_vesting_shares :: int
  dgpo_total_vesting_fund_hive :: int
  has_hardfork_17 :: bool
  reward_balance :: int
  dgpo_virtual_supply :: int
  dgpo_current_supply :: int
  dgpo_current_hbd_supply :: int
  dgpo_initial_hbd_supply :: int

record plugin_env =
  sync_env :: env
  processing_block :: bool
  producing_block :: bool
  is_effective_operation :: "hive_operation \<Rightarrow> bool"
  is_virtual_operation :: "hive_operation \<Rightarrow> bool"
  is_effective_comment_vote :: "hive_operation \<Rightarrow> bool"
  supplement_operation :: "hive_operation \<Rightarrow> hive_operation"
  impacted_accounts :: "hive_operation \<Rightarrow> account_name list \<times> account_name list"
  to_operation_id :: "u32 \<Rightarrow> u32 \<Rightarrow> int"
  sizeof_block :: u64
  sizeof_transaction :: u64
  startup_result :: "haf_error option"
  vacuum_result :: "string \<Rightarrow> haf_error option"
  custom_json_attempts :: "attempt list"


subsection \<open>The plugin\<close>

datatype plugin_effect =
    Hfm_informed
  | All_accounts_dumped u32
  | Type_definitions_inserted
  | Custom_json_inserts "string list"
  | Vacuum string
  | App_kill

record sql_plugin =
  plugin_last_block_num :: u32
  consecutive_block_failures :: u32
  plugin_first_block :: u32
  dumper_threads :: u32
  op_in_block_number :: u32
  plugin_collector :: accounts_collector
  plugin_filter :: blockchain_filter
  plugin_state :: indexation_state
  is_database_initialized :: bool
  is_hfm_informed_about_starting :: bool
  custom_json_cache :: custom_json_type_cache
  custom_json_types :: "custom_json_row list"
  operations_blocked :: bool
  initialization_connected :: bool
  plugin_effects :: "plugin_effect list"

type_synonym handled = "(haf_error option \<times> sql_plugin) option"

fun and_then :: "handled \<Rightarrow> (sql_plugin \<Rightarrow> handled) \<Rightarrow> handled" where
  "and_then None f = None"
| "and_then (Some (Some e, p)) f = Some (Some e, p)"
| "and_then (Some (None, p)) f = f p"

definition plugin_effect :: "plugin_effect \<Rightarrow> sql_plugin \<Rightarrow> sql_plugin" where
  "plugin_effect e p = p\<lparr>plugin_effects := plugin_effects p @ [e]\<rparr>"

definition currently_caching_data :: "sql_plugin \<Rightarrow> cached_data_t" where
  "currently_caching_data p = collector_cache (plugin_collector p)"

definition set_cache :: "cached_data_t \<Rightarrow> sql_plugin \<Rightarrow> sql_plugin" where
  "set_cache c p = p\<lparr>plugin_collector := (plugin_collector p)\<lparr>collector_cache := c\<rparr>\<rparr>"

text \<open>A handler of the indexation state called with the plugin's cache.\<close>

definition with_outcome :: "sql_plugin \<Rightarrow> outcome option \<Rightarrow> handled" where
  "with_outcome p r = map_option (\<lambda>(e, s, c). (e, set_cache c (p\<lparr>plugin_state := s\<rparr>))) r"

definition can_collect_blocks :: "sql_plugin \<Rightarrow> bool \<times> sql_plugin" where
  "can_collect_blocks p = (let (b, s) = collect_blocks (plugin_state p) in (b, p\<lparr>plugin_state := s\<rparr>))"

definition init_database :: "sql_plugin \<Rightarrow> sql_plugin" where
  "init_database p =
     (let p1 = (if 1 < plugin_first_block p then plugin_effect (All_accounts_dumped (dumper_threads p)) p else p)
      in (plugin_effect Type_definitions_inserted p1)\<lparr>is_database_initialized := True\<rparr>)"

definition need_initialize_database :: "u32 \<Rightarrow> sql_plugin \<Rightarrow> bool \<times> sql_plugin" where
  "need_initialize_database n p =
     (if is_database_initialized p then (False, p)
      else if n = plugin_first_block p - 1 then (True, p)
      else if plugin_first_block p = 1 \<and> n = 1 then (True, p)
      else can_collect_blocks p)"

definition initialize_db_if_needed :: "u32 \<Rightarrow> sql_plugin \<Rightarrow> sql_plugin" where
  "initialize_db_if_needed n p =
     (let (needed, p1) = need_initialize_database n p in if needed then init_database p1 else p1)"

definition start_haf :: "plugin_env \<Rightarrow> sql_plugin \<Rightarrow> handled" where
  "start_haf e p =
     (if is_hfm_informed_about_starting p then Some (None, p)
      else case startup_result e of
        Some err \<Rightarrow> Some (Some (Sql_failure ''HAF failed to start''), p)
      | None \<Rightarrow> Some (None, (plugin_effect Hfm_informed p)\<lparr>is_hfm_informed_about_starting := True\<rparr>))"

definition on_pre_apply_block :: "plugin_env \<Rightarrow> u32 \<Rightarrow> sql_plugin \<Rightarrow> handled" where
  "on_pre_apply_block e n p =
     and_then (start_haf e p) (\<lambda>p.
     and_then (map_option (\<lambda>(err, s, _). (err, p\<lparr>plugin_state := s\<rparr>)) (on_block (sync_env e) (plugin_state p) (sint n))) (\<lambda>p.
       let (collect, p1) = can_collect_blocks (initialize_db_if_needed n p)
       in Some (None, if collect then p1\<lparr>initialization_connected := False\<rparr> else p1)))"

text \<open>The operation, with its hardfork or the number of its \<open>custom_json\<close> id.\<close>

definition get_hardfork_id :: "hive_operation \<Rightarrow> int" where
  "get_hardfork_id op = (case op_payload op of Hardfork h \<Rightarrow> h | _ \<Rightarrow> -1)"

definition cache_operation :: "operation_notification \<Rightarrow> hive_operation \<Rightarrow> int \<Rightarrow> sql_plugin \<Rightarrow> sql_plugin" where
  "cache_operation note op op_id p =
     (let c = currently_caching_data p; h = get_hardfork_id op;
          (cj_type_id, cj) = (case op_payload op of
             Custom_json name \<Rightarrow> get_type_id name (custom_json_cache p)
           | _ \<Rightarrow> (None, custom_json_cache p));
          hardforks = (if 0 < h
            then [\<lparr>block_number = sint (note_block note), hardfork_num = h, hardfork_vop_id = op_id\<rparr>] else []);
          row = \<lparr>block_number = sint (note_block note), operation_id = op_id, op_trx_in_block = note_trx_in_block note,
            op_type_id = to_int16 (op_which op), op_in_trx = note_op_in_trx note, op_body = op_packed op,
            custom_json_type_id = cj_type_id\<rparr>
      in (set_cache (c\<lparr>applied_hardforks := applied_hardforks c @ hardforks, operations := operations c @ [row]\<rparr>) p)
           \<lparr>plugin_filter := remember_trx_id (plugin_filter p) (note_trx_in_block note), custom_json_cache := cj\<rparr>)"

definition on_pre_apply_operation :: "plugin_env \<Rightarrow> operation_notification \<Rightarrow> sql_plugin \<Rightarrow> handled" where
  "on_pre_apply_operation e note p =
     (if \<not> (processing_block e \<and> \<not> producing_block e)
      then Some (Some (Assert_failed ''SQL serializer shall process only operations contained by finished blocks''), p)
      else if \<not> is_effective_operation e (note_op note) then Some (None, p)
      else let (collecting, p) = can_collect_blocks p in
        if \<not> collecting then Some (None, p)
        else let op = (if is_effective_comment_vote e (note_op note) then supplement_operation e (note_op note) else note_op note) in
          if \<not> (is_virtual_operation e op \<or> 0 \<le> note_trx_in_block note)
          then Some (Some (Assert_failed ''Non is_producing real operation with trx_in_block = -1''), p)
          else let op_id = to_operation_id e (note_block note) (op_in_block_number p);
                   (err, col) = collect (impacted_accounts e) op_id op (note_block note) (plugin_collector p);
                   p1 = p\<lparr>plugin_collector := col\<rparr>
            in case err of
                Some x \<Rightarrow> Some (Some x, p1)
              | None \<Rightarrow>
                  let p2 = (if is_op_accepted col then cache_operation note op op_id p1 else p1)
                  in Some (None, p2\<lparr>op_in_block_number := op_in_block_number p2 + 1\<rparr>))"

fun handle_transactions :: "blockchain_filter \<Rightarrow> u64 \<Rightarrow> u32 \<Rightarrow> int \<Rightarrow> full_transaction list \<Rightarrow> cached_data_t \<Rightarrow> cached_data_t" where
  "handle_transactions f bytes n trx_no [] c = c"
| "handle_transactions f bytes n trx_no (t # ts) c =
     (if \<not> is_trx_accepted f trx_no then handle_transactions f bytes n (trx_no + 1) ts c
      else let row = \<lparr>block_number = sint n, hash = full_trx_id t, trx_in_block = trx_no, ref_block_num = full_ref_block_num t,
                ref_block_prefix = full_ref_block_prefix t, expiration = full_expiration t,
                trx_signature = (case full_signatures t of [] \<Rightarrow> None | sig # _ \<Rightarrow> Some sig),
                rc_cost = (if full_rc_cost t < 0 then None else Some (full_rc_cost t))\<rparr>;
              others = map (\<lambda>sig. \<lparr>block_number = sint n, hash = full_trx_id t, multisig_signature = sig\<rparr>) (tl (full_signatures t))
           in handle_transactions f bytes n (trx_no + 1) ts
                (c\<lparr>total_size := total_size c + bytes, transactions := transactions c @ [row],
                   transactions_multisig := transactions_multisig c @ others\<rparr>))"

definition block_row :: "block_notification \<Rightarrow> int \<Rightarrow> string \<Rightarrow> process_block_t" where
  "block_row note account_id key =
     \<lparr>block_number = sint (note_block_num note), hash = note_block_id note, created_at = note_timestamp note,
      prev_hash = note_prev_block_id note, producer_account_id = account_id,
      transaction_merkle_root = note_transaction_merkle_root note, extensions = note_extensions note,
      witness_signature = note_witness_signature note, signing_key = key,
      hbd_interest_rate = dgpo_hbd_interest_rate note, total_vesting_shares = dgpo_total_vesting_shares note,
      total_vesting_fund_hive = dgpo_total_vesting_fund_hive note,
      total_reward_fund_hive = (if has_hardfork_17 note then 0 else reward_balance note),
      virtual_supply = dgpo_virtual_supply note, current_supply = dgpo_current_supply note,
      current_hbd_supply = dgpo_current_hbd_supply note, dhf_interval_ledger = dgpo_initial_hbd_supply note\<rparr>"

text \<open>\<open>vacuum_cleaner::vacuum\<close>: the queries for the commands it executes.\<close>

definition vacuum_queries :: "bool \<Rightarrow> u32 \<Rightarrow> string list" where
  "vacuum_queries pruning n =
     (if n mod 100000 = 0 then [''SELECT hive.get_vacuum_periodic_commands() as vacuum_cmd;''] else []) @
     (if pruning \<and> n mod 500000 = 0 then [''SELECT hive.get_vacuum_full_prune_commands() as vacuum_cmd;''] else [])"

fun vacuum :: "plugin_env \<Rightarrow> string list \<Rightarrow> sql_plugin \<Rightarrow> handled" where
  "vacuum e [] p = Some (None, p)"
| "vacuum e (q # qs) p =
     (case vacuum_result e q of
        Some err \<Rightarrow> Some (Some err, plugin_effect (Vacuum q) p)
      | None \<Rightarrow> vacuum e qs (plugin_effect (Vacuum q) p))"

definition flush_custom_json :: "plugin_env \<Rightarrow> sql_plugin \<Rightarrow> handled" where
  "flush_custom_json e p =
     (case flush_pending (custom_json_cache p) (custom_json_types p) (custom_json_attempts e) of
        (sql, err, cj, table) \<Rightarrow>
          let p1 = p\<lparr>custom_json_cache := cj, custom_json_types := table\<rparr>
          in Some (err, if sql = [] then p1 else plugin_effect (Custom_json_inserts sql) p1))"

definition cache_block :: "plugin_env \<Rightarrow> block_notification \<Rightarrow> int \<Rightarrow> string \<Rightarrow> sql_plugin \<Rightarrow> sql_plugin" where
  "cache_block e note account_id key p =
     (let c = currently_caching_data p in
      set_cache (c\<lparr>total_size := total_size c + sizeof_block e, blocks := blocks c @ [block_row note account_id key]\<rparr>) p)"

definition post_apply_block :: "plugin_env \<Rightarrow> block_notification \<Rightarrow> sql_plugin \<Rightarrow> handled" where
  "post_apply_block e note p =
     (let n = note_block_num note;
          (collecting, p) = can_collect_blocks (p\<lparr>plugin_last_block_num := n, consecutive_block_failures := 0\<rparr>) in
      if \<not> collecting then Some (None, p)
      else let p1 = p\<lparr>op_in_block_number := 0\<rparr>;
               p2 = set_cache (handle_transactions (plugin_filter p1) (sizeof_transaction e) n 0 (note_transactions note)
                      (currently_caching_data p1)) p1
        in case producer_account note of
            None \<Rightarrow> Some (Some Null_pointer, p2)
          | Some account_id \<Rightarrow> (case producer_signing_key note of
              None \<Rightarrow> Some (Some Null_pointer, p2)
            | Some key \<Rightarrow>
                and_then (flush_custom_json e (cache_block e note account_id key p2)) (\<lambda>p3.
                and_then (with_outcome p3 (trigger_data_flush (plugin_state p3) (currently_caching_data p3) (sint n))) (\<lambda>p.
                  vacuum e (vacuum_queries (is_pruning_enabled (plugin_state p)) n) (p\<lparr>plugin_filter := clear_filter (plugin_filter p)\<rparr>)))))"

text \<open>Any exception of the handler stops the node and is thrown again.\<close>

definition on_post_apply_block :: "plugin_env \<Rightarrow> block_notification \<Rightarrow> sql_plugin \<Rightarrow> handled" where
  "on_post_apply_block e note p =
     map_option (\<lambda>(err, p). (err, if err = None then p else plugin_effect App_kill p)) (post_apply_block e note p)"

definition unblock_operation_handlers :: "sql_plugin \<Rightarrow> sql_plugin" where
  "unblock_operation_handlers p =
     (set_cache (snapshot_current_sizes (currently_caching_data p)) p)\<lparr>operations_blocked := False\<rparr>"

definition block_operation_handlers :: "sql_plugin \<Rightarrow> sql_plugin" where
  "block_operation_handlers p = p\<lparr>operations_blocked := True\<rparr>"

text \<open>The handler of a failed block.\<close>

definition on_block_failed :: "sql_plugin \<Rightarrow> handled" where
  "on_block_failed p =
     (let p1 = block_operation_handlers (p\<lparr>consecutive_block_failures := consecutive_block_failures p + 1\<rparr>) in
      case revert_to_snapshot (currently_caching_data p1) of
        Inl err \<Rightarrow> Some (Some err, p1)
      | Inr c \<Rightarrow> Some (None, set_cache c p1))"

definition plugin_on_pre_reindex :: "plugin_env \<Rightarrow> u32 \<Rightarrow> sql_plugin \<Rightarrow> handled" where
  "plugin_on_pre_reindex e stop_replay_at p =
     with_outcome p (on_pre_reindex (sync_env e) (plugin_state p) (currently_caching_data p) (sint (plugin_last_block_num p))
       (if stop_replay_at \<noteq> 0 then stop_replay_at - plugin_last_block_num p else 0))"

definition plugin_on_post_reindex :: "plugin_env \<Rightarrow> u32 \<Rightarrow> sql_plugin \<Rightarrow> handled" where
  "plugin_on_post_reindex e stop_replay_at p =
     with_outcome p (on_post_reindex (sync_env e) (plugin_state p) (currently_caching_data p) (plugin_last_block_num p) stop_replay_at)"

definition plugin_on_end_of_syncing :: "plugin_env \<Rightarrow> sql_plugin \<Rightarrow> handled" where
  "plugin_on_end_of_syncing e p =
     and_then (with_outcome p (on_end_of_syncing (sync_env e) (plugin_state p) (currently_caching_data p) (sint (plugin_last_block_num p))))
       (\<lambda>p. Some (None, initialize_db_if_needed (plugin_last_block_num p) p))"

definition plugin_on_switch_fork :: "u32 \<Rightarrow> sql_plugin \<Rightarrow> sql_plugin" where
  "plugin_on_switch_fork n p =
     (let (s, c) = on_switch_fork (plugin_state p) (currently_caching_data p) n in set_cache c (p\<lparr>plugin_state := s\<rparr>))"

definition plugin_destructor :: "sql_plugin \<Rightarrow> haf_error option \<times> sql_plugin" where
  "plugin_destructor p =
     (case flush_all_cached_data (plugin_state p) (currently_caching_data p) (sint (plugin_last_block_num p)) of
        (err, s, c) \<Rightarrow> (err, set_cache c (p\<lparr>plugin_state := s\<rparr>)))"


subsection \<open>Construction\<close>

text \<open>\<open>plugin_initialize\<close> with the constructor and \<open>load_initial_db_data\<close>: \<open>head\<close> is the last block in the
  database, \<open>initialized\<close> whether it has operation types, \<open>tracked\<close> the three filters of the options.\<close>

record plugin_options =
  opt_first_block :: u32
  opt_operations_threads :: u32
  opt_transactions_threads :: u32
  opt_account_operations_threads :: u32
  opt_livesync_threshold :: u32
  opt_prune_blocks :: u32
  opt_enable_filter :: bool
  opt_account_operations_dump :: bool
  opt_lite_mode :: bool
  opt_lite_schema :: bool

definition plugin_initialize ::
    "plugin_options \<Rightarrow> bool \<Rightarrow> (account_name \<Rightarrow> bool) option \<times> (hive_operation \<Rightarrow> bool) option \<times> (hive_operation \<Rightarrow> bool) option \<Rightarrow>
     bool \<Rightarrow> bool \<Rightarrow> u32 option \<Rightarrow> INDEXATION \<Rightarrow> (effect list \<Rightarrow> sync_flush) \<Rightarrow> custom_json_row list \<Rightarrow>
     chain_db \<Rightarrow> sql_plugin result" where
  "plugin_initialize opt correct tracked initialized interrupted head db_state answer types db =
     rbind (fc_assert (0 < opt_first_block opt) ''psql-first-block option value is less than 1'') (\<lambda>_.
     rbind (fc_assert correct ''SQL database is in invalid state'') (\<lambda>_.
     rbind (new_indexation_state (opt_livesync_threshold opt) (opt_first_block opt) (opt_prune_blocks opt)
         (opt_lite_mode opt \<or> opt_lite_schema opt) interrupted (case head of Some n \<Rightarrow> n | None \<Rightarrow> 0) db_state answer) (\<lambda>s.
       let f = (case tracked of (af, of', obf) \<Rightarrow> fill_filter af of' obf (new_filter (opt_enable_filter opt)))
       in Inr \<lparr>plugin_last_block_num = (case head of Some n \<Rightarrow> n | None \<Rightarrow> 0), consecutive_block_failures = 0,
         plugin_first_block = opt_first_block opt,
         dumper_threads = opt_operations_threads opt + opt_transactions_threads opt + opt_account_operations_threads opt,
         op_in_block_number = 0,
         plugin_collector = new_accounts_collector db empty_cached_data (opt_account_operations_dump opt)
           (if filter_enabled f then Some f else None),
         plugin_filter = f, plugin_state = s, is_database_initialized = initialized, is_hfm_informed_about_starting = False,
         custom_json_cache = load_from_db types new_custom_json_type_cache, custom_json_types = types,
         operations_blocked = True, initialization_connected = True, plugin_effects = []\<rparr>)))"


subsection \<open>The signals of a block\<close>

definition notify_pre_apply_block :: "plugin_env \<Rightarrow> u32 \<Rightarrow> sql_plugin \<Rightarrow> handled" where
  "notify_pre_apply_block e n p =
     and_then (if initialization_connected p then on_pre_apply_block e n p else Some (None, p))
       (\<lambda>p. Some (None, unblock_operation_handlers p))"

definition notify_pre_apply_operation :: "plugin_env \<Rightarrow> operation_notification \<Rightarrow> sql_plugin \<Rightarrow> handled" where
  "notify_pre_apply_operation e note p =
     (if operations_blocked p then Some (None, p) else on_pre_apply_operation e note p)"

definition notify_post_apply_block :: "plugin_env \<Rightarrow> block_notification \<Rightarrow> sql_plugin \<Rightarrow> handled" where
  "notify_post_apply_block e note p =
     and_then (on_post_apply_block e note p) (\<lambda>p. Some (None, block_operation_handlers p))"

fun notify_operations :: "plugin_env \<Rightarrow> operation_notification list \<Rightarrow> sql_plugin \<Rightarrow> handled" where
  "notify_operations e [] p = Some (None, p)"
| "notify_operations e (note # notes) p = and_then (notify_pre_apply_operation e note p) (notify_operations e notes)"

definition notify_block :: "plugin_env \<Rightarrow> block_notification \<Rightarrow> operation_notification list \<Rightarrow> sql_plugin \<Rightarrow> handled" where
  "notify_block e note notes p =
     and_then (notify_pre_apply_block e (note_block_num note) p) (\<lambda>p.
     and_then (notify_operations e notes p) (notify_post_apply_block e note))"

end
