(* ===== verification/Sync_Safety.thy ===== *)
theory Sync_Safety
  imports Indexation_State
begin

text \<open>
  Correctness of the synchronisation state machine: every collected block is written by exactly one
  flush, in order, whatever sequence of blocks, irreversibility events, forks and state changes the
  node goes through.  The model of the machine is in \<open>Indexation_State\<close>; here a run of the node is a
  sequence of its handlers, with the rows collected so far as a ghost.
\<close>

subsection \<open>Rows and blocks\<close>

definition items_covered :: "cached_items \<Rightarrow> bool" where
  "items_covered c \<longleftrightarrow>
     set (block_nums (transactions c)) \<union> set (block_nums (transactions_multisig c)) \<union>
     set (block_nums (operations c)) \<union> set (block_nums (accounts c)) \<union>
     set (block_nums (account_operations c)) \<union> set (block_nums (applied_hardforks c))
     \<subseteq> set (block_nums (blocks c))"

text \<open>The rows of one block.\<close>

definition single_block :: "int \<Rightarrow> cached_items \<Rightarrow> bool" where
  "single_block n b \<longleftrightarrow> block_nums (blocks b) = [n] \<and> items_covered b"

definition append_items :: "cached_data_t \<Rightarrow> cached_items \<Rightarrow> cached_data_t" where
  "append_items c b = c\<lparr>blocks := blocks c @ blocks b, transactions := transactions c @ transactions b,
     transactions_multisig := transactions_multisig c @ transactions_multisig b,
     operations := operations c @ operations b, accounts := accounts c @ accounts b,
     account_operations := account_operations c @ account_operations b,
     applied_hardforks := applied_hardforks c @ applied_hardforks b\<rparr>"

fun dumped :: "effect list \<Rightarrow> cached_items" where
  "dumped [] = items_empty"
| "dumped (Dump_massive sync rows n # es) = items_append rows (dumped es)"
| "dumped (Dump_live rows n # es) = items_append rows (dumped es)"
| "dumped (_ # es) = dumped es"

lemma dumped_append: "dumped (xs @ ys) = items_append (dumped xs) (dumped ys)"
  by (induction xs rule: dumped.induct) (simp_all add: items_append_assoc)

lemma items_append_items [simp]: "items (append_items c b) = items_append (items c) b"
  by (simp add: append_items_def items_defs)

lemma items_covered_filter: "items_covered c \<Longrightarrow> items_covered (items_filter P c)"
  by (auto simp: items_covered_def items_filter_def block_nums_def)

lemma items_covered_empty: "items_covered c \<Longrightarrow> blocks c = [] \<Longrightarrow> c = items_empty"
  by (cases c) (simp add: items_covered_def items_empty_def block_nums_def)

lemma items_covered_items_empty [simp]: "items_covered items_empty" "items_ok items_empty"
  by (simp_all add: items_covered_def items_ok_def items_empty_def ordered_items_def block_nums_def)

lemma items_covered_append: "items_covered a \<Longrightarrow> items_covered b \<Longrightarrow> items_covered (items_append a b)"
  by (auto simp: items_covered_def items_append_def block_nums_def)

lemma ordered_items_append:
  assumes "ordered_items xs" "ordered_items ys" "\<forall>x \<in> set (block_nums xs). \<forall>y \<in> set (block_nums ys). x \<le> y"
  shows "ordered_items (xs @ ys)"
  using assms by (auto simp: ordered_items_def block_nums_def sorted_append)

lemma ordered_items_const:
  "set (block_nums xs) \<subseteq> {n} \<Longrightarrow> 0 < n \<Longrightarrow> n < 2 ^ 31 \<Longrightarrow> ordered_items xs"
  by (induction xs) (auto simp: ordered_items_def block_nums_def)

lemma single_block_set:
  assumes "single_block n b"
  shows "set (block_nums (transactions b)) \<subseteq> {n}" "set (block_nums (transactions_multisig b)) \<subseteq> {n}"
    "set (block_nums (operations b)) \<subseteq> {n}" "set (block_nums (accounts b)) \<subseteq> {n}"
    "set (block_nums (account_operations b)) \<subseteq> {n}" "set (block_nums (applied_hardforks b)) \<subseteq> {n}"
    "set (block_nums (blocks b)) = {n}"
  using assms by (auto simp: single_block_def items_covered_def)

lemma items_ok_append_block:
  assumes "items_ok a" "items_covered a" "single_block n b" "0 < n" "n < 2 ^ 31"
    "\<forall>m \<in> set (block_nums (blocks a)). m < n"
  shows "items_ok (items_append a b) \<and> items_covered (items_append a b)"
proof -
  have ord: "ordered_items (xs @ ys)"
    if "ordered_items xs" "set (block_nums xs) \<subseteq> set (block_nums (blocks a))" "set (block_nums ys) \<subseteq> {n}"
    for xs ys :: "'a block_data_base_scheme list"
    using that assms(6) ordered_items_const[OF that(3) assms(4,5)]
    by (intro ordered_items_append) (auto intro!: less_imp_le)
  have "distinct (block_nums (blocks a @ blocks b))"
    using assms(1,3,6) by (auto simp: items_ok_def single_block_def block_nums_def)
  then have "items_ok (items_append a b)"
    using assms(1,2) single_block_set[OF assms(3)]
    by (auto simp: items_ok_def items_append_def items_covered_def intro!: ord)
  then show ?thesis
    using items_covered_append[OF assms(2)] assms(3) by (simp add: single_block_def)
qed

lemma sint_block_number:
  assumes "0 < n" "n < (2 :: int) ^ 31"
  shows "sint (word_of_int n :: u32) = n"
  using assms by (simp add: sint_word_of_int_u32)

lemma items_ok_head:
  assumes "items_ok c" "blocks c = b # bs"
  shows "0 < block_number b" "block_number b < 2 ^ 31"
    "filter ((\<lambda>m. m \<le> block_number b) \<circ> block_number) (blocks c) = [b]"
    "filter ((\<lambda>m. \<not> m \<le> block_number b) \<circ> block_number) (blocks c) = bs"
proof -
  have "sorted (block_nums (blocks c))" "distinct (block_nums (blocks c))"
    and b: "0 < block_number b" "block_number b < 2 ^ 31"
    using assms by (auto simp: items_ok_def ordered_items_def block_nums_def)
  then have "\<forall>x \<in> set bs. block_number b < block_number x"
    using assms(2) by (auto simp: block_nums_def order.order_iff_strict)
  then have "filter (\<lambda>x. block_number x \<le> block_number b) bs = []"
    "filter (\<lambda>x. \<not> block_number x \<le> block_number b) bs = bs"
    by (auto simp: filter_empty_conv filter_id_conv not_le)
  then show "filter ((\<lambda>m. m \<le> block_number b) \<circ> block_number) (blocks c) = [b]"
    "filter ((\<lambda>m. \<not> m \<le> block_number b) \<circ> block_number) (blocks c) = bs"
    using assms(2) by (simp_all add: comp_def)
  show "0 < block_number b" "block_number b < 2 ^ 31" by (fact b)+
qed

lemma items_above_head:
  assumes "items_ok c" "items_covered c" "blocks c = b # bs" "k < block_number b"
  shows "items_filter (\<lambda>m. m \<le> k) c = items_empty" "items_filter (\<lambda>m. \<not> m \<le> k) c = c"
proof -
  have "sorted (block_nums (blocks c))" using assms(1) by (simp add: items_ok_def ordered_items_def)
  then have least: "\<forall>m \<in> set (block_nums (blocks c)). k < m" using assms(3,4) by (auto simp: block_nums_def)
  have above: "\<forall>x \<in> set xs. k < block_number x" if "set (block_nums xs) \<subseteq> set (block_nums (blocks c))"
    for xs :: "'a block_data_base_scheme list"
    using least that by (auto simp: block_nums_def)
  have "\<forall>x \<in> set (blocks c). k < block_number x" "\<forall>x \<in> set (transactions c). k < block_number x"
    "\<forall>x \<in> set (transactions_multisig c). k < block_number x" "\<forall>x \<in> set (operations c). k < block_number x"
    "\<forall>x \<in> set (accounts c). k < block_number x" "\<forall>x \<in> set (account_operations c). k < block_number x"
    "\<forall>x \<in> set (applied_hardforks c). k < block_number x"
    using assms(2) by (intro above; simp add: items_covered_def)+
  then show "items_filter (\<lambda>m. m \<le> k) c = items_empty" "items_filter (\<lambda>m. \<not> m \<le> k) c = c"
    by (cases c; simp add: items_filter_def items_empty_def filter_empty_conv filter_id_conv not_le)+
qed

lemma items_filter_filter: "items_filter P (items_filter Q c) = items_filter (\<lambda>m. Q m \<and> P m) c"
  by (simp add: items_filter_def comp_def conj_commute)

lemma items_filter_twice:
  assumes "items_ok c" "n \<le> k"
  shows "items_append (items_filter (\<lambda>m. m \<le> n) c) (items_filter (\<lambda>m. m \<le> k) (items_filter (\<lambda>m. \<not> m \<le> n) c)) =
      items_filter (\<lambda>m. m \<le> k) c"
    and "items_filter (\<lambda>m. \<not> m \<le> k) (items_filter (\<lambda>m. \<not> m \<le> n) c) = items_filter (\<lambda>m. \<not> m \<le> k) c"
proof -
  have le: "(\<lambda>m. m \<le> n) = (\<lambda>m. m \<le> k \<and> m \<le> n)" "(\<lambda>m. \<not> m \<le> n \<and> m \<le> k) = (\<lambda>m. m \<le> k \<and> \<not> m \<le> n)"
    "(\<lambda>m. \<not> m \<le> n \<and> \<not> m \<le> k) = (\<lambda>m. \<not> m \<le> k)"
    using assms(2) by auto
  show "items_filter (\<lambda>m. \<not> m \<le> k) (items_filter (\<lambda>m. \<not> m \<le> n) c) = items_filter (\<lambda>m. \<not> m \<le> k) c"
    unfolding items_filter_filter le(3) ..
  have "items_append (items_filter (\<lambda>m. m \<le> n) (items_filter (\<lambda>m. m \<le> k) c))
      (items_filter (\<lambda>m. \<not> m \<le> n) (items_filter (\<lambda>m. m \<le> k) c)) = items_filter (\<lambda>m. m \<le> k) c"
    by (rule items_split[OF items_ok_filter[OF assms(1)]])
  then show "items_append (items_filter (\<lambda>m. m \<le> n) c)
      (items_filter (\<lambda>m. m \<le> k) (items_filter (\<lambda>m. \<not> m \<le> n) c)) = items_filter (\<lambda>m. m \<le> k) c"
    unfolding items_filter_filter le(2) by (subst le(1)) simp
qed


subsection \<open>The interface of a dumper\<close>

definition state_ok :: "indexation_state \<Rightarrow> bool" where
  "state_ok s \<longleftrightarrow> cached_state_value s = None \<or> cached_state_value s = Some (db_sync_state s)"

lemma get_state_ok:
  "state_ok s \<Longrightarrow> get_state s = (db_sync_state s, s\<lparr>cached_state_value := Some (db_sync_state s)\<rparr>)"
  by (auto simp: state_ok_def get_state_def)

text \<open>A flush changes nothing of the state but the memo of the sync state and the list of effects.\<close>

definition flushed :: "indexation_state \<Rightarrow> cached_items \<Rightarrow> cached_items \<Rightarrow> outcome \<Rightarrow> bool" where
  "flushed s rows remaining r \<longleftrightarrow> (\<exists>v es c. r = (None, s\<lparr>cached_state_value := v, effects := effects s @ es\<rparr>, c)
     \<and> (v = None \<or> v = Some (db_sync_state s)) \<and> dumped es = rows \<and> items c = remaining)"

lemma flushed_none:
  "state_ok s \<Longrightarrow> rows = items_empty \<Longrightarrow> items c = remaining \<Longrightarrow> flushed s rows remaining (None, s, c)"
  unfolding flushed_def state_ok_def
  by (intro exI[of _ "cached_state_value s"] exI[of _ "[]"] exI[of _ c]) auto

lemma flushed_state:
  assumes "flushed s rows remaining r" "state_ok s"
  shows "\<exists>s' c'. r = (None, s', c') \<and> state_ok s' \<and> the_dumper s' = the_dumper s"
  using assms by (auto simp: flushed_def state_ok_def)

lemma flushed_trans:
  assumes "flushed s rows1 rem1 (None, s1, c1)" "flushed s1 rows2 rem2 r"
  shows "flushed s (items_append rows1 rows2) rem2 r"
proof -
  obtain v1 es1 where s1: "s1 = s\<lparr>cached_state_value := v1, effects := effects s @ es1\<rparr>" "dumped es1 = rows1"
    using assms(1) by (auto simp: flushed_def)
  obtain v2 es2 c2 where r: "r = (None, s1\<lparr>cached_state_value := v2, effects := effects s1 @ es2\<rparr>, c2)"
    "v2 = None \<or> v2 = Some (db_sync_state s1)" "dumped es2 = rows2" "items c2 = rem2"
    using assms(2) by (auto simp: flushed_def)
  show ?thesis
    unfolding flushed_def
    by (intro exI[of _ v2] exI[of _ "es1 @ es2"] exI[of _ c2]) (use s1 r in \<open>simp add: dumped_append\<close>)
qed

lemma wait_for_contexts_frame:
  assumes "state_ok s"
  shows "\<exists>v es. wait_for_contexts s = s\<lparr>cached_state_value := v, effects := effects s @ es\<rparr>
    \<and> (v = None \<or> v = Some (db_sync_state s)) \<and> dumped es = items_empty"
proof (cases "is_pruning_enabled s \<and> db_sync_state s \<noteq> LIVE")
  case True
  then show ?thesis
    using assms by (intro exI[of _ "Some (db_sync_state s)"] exI[of _ "[Wait_for_contexts (psql_pruning_tail_size s)]"])
      (simp add: wait_for_contexts_def get_state_ok emit_def)
next
  case False
  then show ?thesis
    using assms
    by (cases "is_pruning_enabled s"; intro exI[of _ "if is_pruning_enabled s then Some (db_sync_state s)
          else cached_state_value s"] exI[of _ "[]"])
      (auto simp: wait_for_contexts_def get_state_ok state_ok_def)
qed

text \<open>What the state machine relies on: a dumper that accepts the rows, given the answer of the database, writes all of them
  and leaves the cache empty.\<close>

locale dumper_contract =
  fixes d :: data_dumper
    and accepts :: "sync_flush \<Rightarrow> cached_items \<Rightarrow> bool"
  assumes flush_accepted: "accepts answer (items c) \<Longrightarrow>
    \<exists>es c'. dumper_flush answer (Some d) c n = (None, es, c') \<and> dumped es = items c \<and> items c' = items_empty"
begin

lemma force_flushed:
  assumes "state_ok s" "the_dumper s = Some d" "items_covered (items c)"
    "blocks c \<noteq> [] \<longrightarrow> (\<forall>es. accepts (sync_answer s es) (items c))"
  shows "flushed s (items c) items_empty (force_trigger_flush_with_all_data s c n)"
proof (cases "blocks c = []")
  case True
  then have "items c = items_empty" using items_covered_empty[OF assms(3)] by simp
  then show ?thesis
    using True assms(1) by (simp add: force_trigger_flush_with_all_data_def flushed_none)
next
  case False
  obtain v es where w: "wait_for_contexts s = s\<lparr>cached_state_value := v, effects := effects s @ es\<rparr>"
    "v = None \<or> v = Some (db_sync_state s)" "dumped es = items_empty"
    using wait_for_contexts_frame[OF assms(1)] by blast
  obtain es' c' where f: "dumper_flush (sync_answer s (effects s @ es)) (Some d) c n = (None, es', c')"
      "dumped es' = items c" "items c' = items_empty"
    using flush_accepted[of "sync_answer s (effects s @ es)" c n] assms(4) False by blast
  show ?thesis
    unfolding flushed_def
    by (intro exI[of _ v] exI[of _ "es @ es'"] exI[of _ c'])
      (use False w f assms(2) in \<open>simp add: force_trigger_flush_with_all_data_def dumped_append\<close>)
qed

lemma part_flushed:
  assumes "state_ok s" "the_dumper s = Some d" "items_covered (items (fst p))"
    "blocks (fst p) \<noteq> [] \<longrightarrow> (\<forall>es. accepts (sync_answer s es) (items (fst p)))"
  shows "flushed s (items (fst p)) (items (snd p)) (flush_part s p n)"
  using force_flushed[OF assms, of n] unfolding flushed_def flush_part_def by force

end

text \<open>The loops hand over one block at a time.\<close>

locale block_dumper = dumper_contract +
  assumes accepts_block: "length (blocks i) = 1 \<Longrightarrow> accepts answer i"
begin

lemma head_flushed:
  assumes "state_ok s" "the_dumper s = Some d" "items_ok (items c)" "items_covered (items c)" "blocks c = b # bs"
  defines "r \<equiv> flush_part s (move_all_items_upto_block c (word_of_int (block_number b))) (block_number b)"
  shows "flushed s (items_filter (\<lambda>m. m \<le> block_number b) (items c))
      (items_filter (\<lambda>m. \<not> m \<le> block_number b) (items c)) r"
    and "blocks (snd (snd r)) = bs" "items_ok (items (snd (snd r)))" "items_covered (items (snd (snd r)))"
proof -
  let ?p = "move_all_items_upto_block c (word_of_int (block_number b))"
  have head: "blocks (items c) = b # bs" using assms(5) by simp
  note h = items_ok_head[OF assms(3) head]
  have p: "items (fst ?p) = items_filter (\<lambda>m. m \<le> block_number b) (items c)"
    "items (snd ?p) = items_filter (\<lambda>m. \<not> m \<le> block_number b) (items c)"
    using move_all_items_upto_block_spec(1,2)[OF assms(3)] sint_block_number[OF h(1,2)] by simp_all
  have "blocks (items (fst ?p)) = [b]" unfolding p(1) using h(3) by (simp add: items_filter_def)
  then have "accepts (sync_answer s es) (items (fst ?p))" for es by (intro accepts_block) simp
  then show fl: "flushed s (items_filter (\<lambda>m. m \<le> block_number b) (items c))
      (items_filter (\<lambda>m. \<not> m \<le> block_number b) (items c)) r"
    unfolding r_def p[symmetric]
    by (intro part_flushed) (use assms(1,2) items_covered_filter[OF assms(4)] p in simp_all)
  then have snd: "items (snd (snd r)) = items_filter (\<lambda>m. \<not> m \<le> block_number b) (items c)"
    by (auto simp: flushed_def)
  have "blocks (items (snd (snd r))) = bs" unfolding snd using h(4) by (simp add: items_filter_def)
  then show "blocks (snd (snd r)) = bs" by simp
  show "items_ok (items (snd (snd r)))" "items_covered (items (snd (snd r)))"
    unfolding snd by (rule items_ok_filter[OF assms(3)], rule items_covered_filter[OF assms(4)])
qed

lemma flush_all_flushed:
  assumes "state_ok s" "the_dumper s = Some d" "items_ok (items c)" "items_covered (items c)"
  shows "\<exists>r. flush_all_data_to_reversible None s c = Some r \<and> flushed s (items c) items_empty r"
  using assms
proof (induction "blocks c" arbitrary: s c)
  case Nil
  then have "flushed s (items c) items_empty (None, s, c)"
    using items_covered_empty[OF Nil.prems(4)] by (intro flushed_none) simp_all
  then show ?case using Nil.hyps by (subst flush_all_data_to_reversible.simps) simp
next
  case (Cons b bs)
  let ?r = "flush_part s (move_all_items_upto_block c (word_of_int (block_number b))) (block_number b)"
  note h = head_flushed[OF Cons.prems Cons.hyps(2)[symmetric]]
  obtain s1 c1 where r: "?r = (None, s1, c1)" "state_ok s1" "the_dumper s1 = Some d"
    using flushed_state[OF h(1) Cons.prems(1)] Cons.prems(2) by metis
  obtain r2 where r2: "flush_all_data_to_reversible None s1 c1 = Some r2" "flushed s1 (items c1) items_empty r2"
    using Cons.hyps(1)[of c1 s1] r h(2-4) by auto
  have c1: "items c1 = items_filter (\<lambda>m. \<not> m \<le> block_number b) (items c)"
    using h(1) by (auto simp: r flushed_def)
  have "flushed s (items_append (items_filter (\<lambda>m. m \<le> block_number b) (items c)) (items c1)) items_empty r2"
    using flushed_trans[OF h(1)[unfolded r] r2(2)] .
  then have "flushed s (items c) items_empty r2"
    unfolding c1 items_split[OF Cons.prems(3)] .
  moreover have "flush_all_data_to_reversible None s c = Some r2"
    using r r2(1) Cons.hyps(2)[symmetric] by (subst flush_all_data_to_reversible.simps) (simp add: Let_def)
  ultimately show ?case by blast
qed

lemma lite_live_flushed:
  assumes "state_ok s" "the_dumper s = Some d" "items_ok (items c)" "items_covered (items c)" "uint irr < 2 ^ 31"
  shows "\<exists>r. lite_live_flush irr s c = Some r \<and>
    flushed s (items_filter (\<lambda>m. m \<le> uint irr) (items c)) (items_filter (\<lambda>m. \<not> m \<le> uint irr) (items c)) r"
  using assms(1-4)
proof (induction "blocks c" arbitrary: s c)
  case Nil
  then have e: "items c = items_empty" using items_covered_empty[OF Nil.prems(4)] by simp
  have "flushed s (items_filter (\<lambda>m. m \<le> uint irr) (items c)) (items_filter (\<lambda>m. \<not> m \<le> uint irr) (items c)) (None, s, c)"
    using Nil.prems(1) by (intro flushed_none) (simp_all add: e items_filter_def items_empty_def)
  then show ?case using Nil.hyps by (subst lite_live_flush.simps) simp
next
  case (Cons b bs)
  let ?n = "block_number b"
  note h = items_ok_head[OF Cons.prems(3), of b bs]
  have n: "0 < ?n" "?n < 2 ^ 31" using h Cons.hyps(2) by auto
  have cmp: "(word_of_int ?n :: u32) \<le> irr \<longleftrightarrow> ?n \<le> uint irr"
    using n by (simp add: word_le_def take_bit_int_eq_self unsigned_of_int)
  show ?case
  proof (cases "?n \<le> uint irr")
    case False
    have all: "items_filter (\<lambda>m. m \<le> uint irr) (items c) = items_empty"
      "items_filter (\<lambda>m. \<not> m \<le> uint irr) (items c) = items c"
      using items_above_head[OF Cons.prems(3,4), of b bs "uint irr"] False Cons.hyps(2) by auto
    then have "flushed s (items_filter (\<lambda>m. m \<le> uint irr) (items c))
        (items_filter (\<lambda>m. \<not> m \<le> uint irr) (items c)) (None, s, c)"
      using Cons.prems(1) by (intro flushed_none) simp_all
    then show ?thesis using False cmp Cons.hyps(2)[symmetric] by (subst lite_live_flush.simps) simp
  next
    case True
    let ?r = "flush_part s (move_all_items_upto_block c (word_of_int ?n)) ?n"
    note hf = head_flushed[OF Cons.prems Cons.hyps(2)[symmetric]]
    obtain s1 c1 where r: "?r = (None, s1, c1)" "state_ok s1" "the_dumper s1 = Some d"
      using flushed_state[OF hf(1) Cons.prems(1)] Cons.prems(2) by metis
    obtain r2 where r2: "lite_live_flush irr s1 c1 = Some r2"
      "flushed s1 (items_filter (\<lambda>m. m \<le> uint irr) (items c1)) (items_filter (\<lambda>m. \<not> m \<le> uint irr) (items c1)) r2"
      using Cons.hyps(1)[of c1 s1] r hf(2-4) by auto
    have c1: "items c1 = items_filter (\<lambda>m. \<not> m \<le> ?n) (items c)"
      using hf(1) by (auto simp: r flushed_def)
    have split: "items_append (items_filter (\<lambda>m. m \<le> ?n) (items c)) (items_filter (\<lambda>m. m \<le> uint irr) (items c1)) =
        items_filter (\<lambda>m. m \<le> uint irr) (items c)"
      "items_filter (\<lambda>m. \<not> m \<le> uint irr) (items c1) = items_filter (\<lambda>m. \<not> m \<le> uint irr) (items c)"
      unfolding c1 using items_filter_twice[OF Cons.prems(3) True] by auto
    have "flushed s (items_filter (\<lambda>m. m \<le> uint irr) (items c)) (items_filter (\<lambda>m. \<not> m \<le> uint irr) (items c)) r2"
      using flushed_trans[OF hf(1)[unfolded r] r2(2)] unfolding split .
    moreover have "lite_live_flush irr s c = Some r2"
      using r r2(1) True cmp Cons.hyps(2)[symmetric] by (subst lite_live_flush.simps) (simp add: Let_def)
    ultimately show ?thesis by blast
  qed
qed

end


interpretation reindex: dumper_contract "Reindex_data_dumper sync" "\<lambda>answer _. sync \<longrightarrow> answer = Sync_committed" for sync
  by unfold_locales (auto simp: dumper_flush_def massive_flush_def)

interpretation parallel: block_dumper "Reindex_data_dumper False" "\<lambda>_ _. True"
  by unfold_locales (simp_all add: dumper_flush_def massive_flush_def)

interpretation livesync: block_dumper Livesync_data_dumper "\<lambda>_ i. length (blocks i) = 1"
  by unfold_locales (simp_all add: dumper_flush_def massive_flush_def)

text \<open>The errors with which the database may answer a synchronous flush, and a flush that met one: rows had to be written and
  the error is thrown.\<close>

definition database_error :: "indexation_state \<Rightarrow> haf_error \<Rightarrow> bool" where
  "database_error s x \<longleftrightarrow> (\<exists>es. sync_answer s es = Sync_rolled_back x \<or> sync_answer s es = Sync_in_doubt x)"

definition failing :: "indexation_state \<Rightarrow> cached_data_t \<Rightarrow> outcome \<Rightarrow> bool" where
  "failing s c r \<longleftrightarrow> items c \<noteq> items_empty \<and> (\<exists>x. fst r = Some x \<and> database_error s x)"

lemma failing_error: "failing s c r \<Longrightarrow> fst r \<noteq> None" "\<not> failing s empty_cached_data r"
  by (auto simp: failing_def)

lemma database_error_frame [simp]: "database_error (s\<lparr>cached_state_value := v\<rparr>) = database_error s"
  by (simp add: database_error_def fun_eq_iff)

lemma force_failing_or_flushed:
  assumes "state_ok s" "the_dumper s = Some (Reindex_data_dumper sync)" "items_covered (items c)"
  shows "flushed s (items c) items_empty (force_trigger_flush_with_all_data s c n)
    \<or> failing s c (force_trigger_flush_with_all_data s c n)"
proof (cases "blocks c = []")
  case True
  then show ?thesis using reindex.force_flushed[OF assms] by simp
next
  case False
  obtain v es where w: "wait_for_contexts s = s\<lparr>cached_state_value := v, effects := effects s @ es\<rparr>"
    "v = None \<or> v = Some (db_sync_state s)" "dumped es = items_empty"
    using wait_for_contexts_frame[OF assms(1)] by blast
  have rows: "items c \<noteq> items_empty" using False by (metis blocks_items cached_items.select_convs(1) items_empty_def)
  show ?thesis
  proof (cases "sync \<longrightarrow> sync_answer s (effects s @ es) = Sync_committed")
    case True
    then have "flushed s (items c) items_empty (force_trigger_flush_with_all_data s c n)"
      unfolding flushed_def
      by (intro exI[of _ v] exI[of _ "es @ [Dump_massive sync (items c) n]"] exI[of _ "clear_all_items c"])
        (use False w assms(2) in \<open>auto simp: force_trigger_flush_with_all_data_def dumped_append dumper_flush_def massive_flush_def Let_def\<close>)
    then show ?thesis by simp
  next
    case False
    then have sync: "sync" "sync_answer s (effects s @ es) \<noteq> Sync_committed" by simp_all
    then obtain x where x: "sync_answer s (effects s @ es) = Sync_rolled_back x \<or> sync_answer s (effects s @ es) = Sync_in_doubt x"
      by (cases "sync_answer s (effects s @ es)") simp_all
    then have "fst (force_trigger_flush_with_all_data s c n) = Some x"
      using \<open>blocks c \<noteq> []\<close> w(1) assms(2) sync(1)
      by (elim disjE) (simp_all add: force_trigger_flush_with_all_data_def dumper_flush_def massive_flush_def Let_def)
    moreover have "database_error s x" unfolding database_error_def using x by blast
    ultimately show ?thesis using rows by (simp add: failing_def)
  qed
qed

lemma part_failing_or_flushed:
  assumes "state_ok s" "the_dumper s = Some (Reindex_data_dumper sync)" "items_covered (items (fst p))"
  shows "flushed s (items (fst p)) (items (snd p)) (flush_part s p n) \<or> failing s (fst p) (flush_part s p n)"
  using force_failing_or_flushed[OF assms, of n]
proof
  assume "flushed s (items (fst p)) items_empty (force_trigger_flush_with_all_data s (fst p) n)"
  then have "flushed s (items (fst p)) (items (snd p)) (flush_part s p n)"
    unfolding flushed_def flush_part_def by force
  then show ?thesis ..
next
  assume "failing s (fst p) (force_trigger_flush_with_all_data s (fst p) n)"
  then have "failing s (fst p) (flush_part s p n)" by (simp add: failing_def flush_part_def split_beta)
  then show ?thesis ..
qed

subsection \<open>The invariant of the machine\<close>

definition no_dumper :: "indexation_state \<Rightarrow> bool" where
  "no_dumper s \<longleftrightarrow> the_dumper s = None \<and> the_trigger s = None"

definition machine_ok :: "indexation_state \<Rightarrow> cached_data_t \<Rightarrow> bool" where
  "machine_ok s c \<longleftrightarrow> state_ok s \<and> \<not> is_lite_mode s \<and> items_ok (items c) \<and> items_covered (items c) \<and>
     (case db_sync_state s of
        START \<Rightarrow> items c = items_empty \<and> no_dumper s
      | WAIT \<Rightarrow> items c = items_empty \<and> the_dumper s = Some Fake_data_dumper \<and> the_trigger s = Some Fake_flush_trigger
      | REINDEX_WAIT \<Rightarrow> items c = items_empty \<and>
          (no_dumper s \<or> the_dumper s = Some Fake_data_dumper \<and> the_trigger s = Some Fake_flush_trigger)
      | REINDEX \<Rightarrow> (items c = items_empty \<and> no_dumper s) \<or>
          (\<exists>sync. the_dumper s = Some (Reindex_data_dumper sync) \<and> the_trigger s = Some Reindex_flush_trigger)
      | P2P \<Rightarrow> \<exists>sync n. the_dumper s = Some (Reindex_data_dumper sync) \<and> the_trigger s = Some (P2p_flush_trigger n)
      | LIVE \<Rightarrow> items c = items_empty \<and> the_dumper s = Some Livesync_data_dumper
          \<and> the_trigger s = Some Live_flush_trigger)"

text \<open>All rows the machine has been given: written ones and cached ones.\<close>

definition total_rows :: "indexation_state \<Rightarrow> cached_data_t \<Rightarrow> cached_items" where
  "total_rows s c = items_append (dumped (effects s)) (items c)"

text \<open>A returning handler that throws nothing keeps the invariant and all rows.\<close>

definition conserving :: "indexation_state \<Rightarrow> cached_data_t \<Rightarrow> outcome option \<Rightarrow> bool" where
  "conserving s c r \<longleftrightarrow> (\<exists>err s' c'. r = Some (err, s', c') \<and>
     (err = None \<longrightarrow> machine_ok s' c' \<and> total_rows s' c' = total_rows s c))"

lemma items_empty_blocks: "items c = items_empty \<Longrightarrow> blocks c = []"
  by (simp add: items_empty_def flip: blocks_items)

lemma machine_flushed:
  assumes "machine_ok s c"
  shows "flushed s (items c) items_empty (force_trigger_flush_with_all_data s c n)
    \<or> failing s c (force_trigger_flush_with_all_data s c n)"
proof (cases "items c = items_empty")
  case True
  then show ?thesis
    using assms items_empty_blocks[OF True]
    by (simp add: force_trigger_flush_with_all_data_def flushed_none machine_ok_def)
next
  case False
  then obtain sync where "the_dumper s = Some (Reindex_data_dumper sync)"
    using assms by (auto simp: machine_ok_def split: INDEXATION.splits)
  then show ?thesis
    using assms by (intro force_failing_or_flushed) (auto simp: machine_ok_def)
qed

lemma machine_split:
  assumes "machine_ok s c"
  shows "(\<exists>rows remaining. flushed s rows remaining (move_irreversible_blocks s c)
      \<and> items_append rows remaining = items c \<and> items_ok remaining \<and> items_covered remaining)
    \<or> failing s c (move_irreversible_blocks s c)"
proof -
  define p where "p = move_irreveresible_blocks c (word_of_int (irreversible_block_num s))"
  have ok: "items_ok (items c)" "items_covered (items c)" "state_ok s" using assms by (auto simp: machine_ok_def)
  have p: "items_append (items (fst p)) (items (snd p)) = items c \<and> items_covered (items (fst p))
      \<and> items_ok (items (snd p)) \<and> items_covered (items (snd p))"
    using ok(1,2) by (simp add: p_def move_irreveresible_blocks_def move_all_items_upto_block_spec
        items_split items_covered_filter items_ok_filter del: not_le)
  have "flushed s (items (fst p)) (items (snd p)) (flush_part s p (irreversible_block_num s))
    \<or> failing s c (flush_part s p (irreversible_block_num s))"
  proof (cases "blocks (fst p) = []")
    case True
    then have "items (fst p) = items_empty" using p items_covered_empty by (metis blocks_items)
    then show ?thesis
      using True ok(3) by (simp add: flush_part_def force_trigger_flush_with_all_data_def flushed_none)
  next
    case False
    then have "blocks c \<noteq> []"
      using p by (metis append_is_Nil_conv blocks_items items_append_def cached_items.select_convs(1))
    then have rows: "items c \<noteq> items_empty" using items_empty_blocks by blast
    then obtain sync where "the_dumper s = Some (Reindex_data_dumper sync)"
      using assms by (auto simp: machine_ok_def split: INDEXATION.splits)
    then show ?thesis
      using part_failing_or_flushed[OF ok(3), of sync p] p rows by (auto simp: failing_def)
  qed
  then show ?thesis using p unfolding move_irreversible_blocks_def p_def by blast
qed

lemma reset_dumper_frame [simp]:
  "dumped (effects (reset_dumper s)) = dumped (effects s)" "is_lite_mode (reset_dumper s) = is_lite_mode s"
  "the_dumper (reset_dumper s) = None" "the_trigger (reset_dumper s) = None"
  "db_sync_state (reset_dumper s) = db_sync_state s" "cached_state_value (reset_dumper s) = cached_state_value s"
  "sync_answer (reset_dumper s) = sync_answer s"
  by (auto simp: reset_dumper_def emit_def dumped_append split: option.split)

lemmas transition_defs = dumped_append set_state_def create_dumper_def start_massive_dumper_def emit_def Let_def

lemma flushed_cases:
  assumes "flushed s rows remaining r"
  obtains s' c' where "r = (None, s', c')" "items c' = remaining" "dumped (effects s') = items_append (dumped (effects s)) rows"
    "is_lite_mode s' = is_lite_mode s" "the_dumper s' = the_dumper s" "the_trigger s' = the_trigger s"
    "db_sync_state s' = db_sync_state s" "state_ok s'" "sync_answer s' = sync_answer s"
  using assms by (auto simp: flushed_def dumped_append state_ok_def)

lemma andthen_failing: "failing s c r \<Longrightarrow> andthen (Some r) f = Some r"
  by (cases r; cases "fst r") (auto simp: failing_def)

text \<open>A change of the state writes the cached rows or meets an error of the database.\<close>

definition succeeding :: "indexation_state \<Rightarrow> cached_data_t \<Rightarrow> INDEXATION \<Rightarrow> outcome option \<Rightarrow> bool" where
  "succeeding s c st r \<longleftrightarrow> (\<exists>s' c'. r = Some (None, s', c') \<and> machine_ok s' c' \<and> total_rows s' c' = total_rows s c
     \<and> items c' = items_empty \<and> db_sync_state s' = st \<and> the_trigger s' \<noteq> None \<and> sync_answer s' = sync_answer s)
   \<or> (\<exists>r'. r = Some r' \<and> failing s c r')"

lemma succeeding_conserving: "succeeding s c st r \<Longrightarrow> conserving s c r"
  by (auto simp: succeeding_def conserving_def failing_def)

lemma failing_succeeding: "failing s c r \<Longrightarrow> succeeding s c st (andthen (Some r) f)"
  by (auto simp: andthen_failing succeeding_def)

lemma failing_cached: "failing (s\<lparr>cached_state_value := v\<rparr>) c r = failing s c r"
  by (simp add: failing_def)

lemma machine_ok_cached [simp]:
  assumes "state_ok s"
  shows "machine_ok (s\<lparr>cached_state_value := Some (db_sync_state s)\<rparr>) c = machine_ok s c"
    and "total_rows (s\<lparr>cached_state_value := Some (db_sync_state s)\<rparr>) c = total_rows s c"
    and "state_ok (s\<lparr>cached_state_value := Some (db_sync_state s)\<rparr>)"
    and "conserving (s\<lparr>cached_state_value := Some (db_sync_state s)\<rparr>) c r = conserving s c r"
    and "succeeding (s\<lparr>cached_state_value := Some (db_sync_state s)\<rparr>) c st r = succeeding s c st r"
  using assms
  by (auto simp: machine_ok_def total_rows_def state_ok_def no_dumper_def conserving_def succeeding_def failing_cached
      split: INDEXATION.split)

lemma enter_p2p_succeeds:
  assumes "machine_ok s c"
  shows "succeeding s c P2P (enter_p2p e n s c)"
proof (cases "failing s c (force_trigger_flush_with_all_data s c (sint n))")
  case True
  then show ?thesis unfolding enter_p2p_def by (rule failing_succeeding)
next
  case False
  then have "flushed s (items c) items_empty (force_trigger_flush_with_all_data s c (sint n))"
    using machine_flushed[OF assms] by blast
  then obtain s1 c1 where f: "force_trigger_flush_with_all_data s c (sint n) = (None, s1, c1)" "items c1 = items_empty"
    "dumped (effects s1) = items_append (dumped (effects s)) (items c)" "is_lite_mode s1 = is_lite_mode s"
    "sync_answer s1 = sync_answer s"
    by (rule flushed_cases)
  have "\<not> is_lite_mode s" using assms by (simp add: machine_ok_def)
  then show ?thesis
    using f by (simp add: enter_p2p_def succeeding_def machine_ok_def total_rows_def transition_defs state_ok_def)
qed

lemma enter_reindex_succeeds:
  assumes "machine_ok s c" "db_sync_state s = START \<or> db_sync_state s = REINDEX_WAIT"
  shows "succeeding s c REINDEX (enter_reindex e n m s c)"
proof -
  let ?s = "s\<lparr>cached_state_value := Some (db_sync_state s)\<rparr>"
  have ok: "state_ok s" "\<not> is_lite_mode s" using assms(1) by (auto simp: machine_ok_def)
  have m: "machine_ok ?s c" using assms(1) ok(1) by simp
  show ?thesis
  proof (cases "failing ?s c (force_trigger_flush_with_all_data ?s c (sint n))")
    case True
    have "succeeding ?s c REINDEX (enter_reindex e n m s c)"
      using failing_succeeding[OF True] assms(2) by (auto simp: enter_reindex_def get_state_ok[OF ok(1)])
    then show ?thesis using ok(1) by simp
  next
    case False
    then have "flushed ?s (items c) items_empty (force_trigger_flush_with_all_data ?s c (sint n))"
      using machine_flushed[OF m] by blast
    then obtain s1 c1 where f: "force_trigger_flush_with_all_data ?s c (sint n) = (None, s1, c1)" "items c1 = items_empty"
      "dumped (effects s1) = items_append (dumped (effects ?s)) (items c)" "is_lite_mode s1 = is_lite_mode ?s"
      "sync_answer s1 = sync_answer ?s"
      by (rule flushed_cases)
    show ?thesis
      using f ok assms(2)
      by (auto simp: enter_reindex_def get_state_ok succeeding_def machine_ok_def total_rows_def transition_defs state_ok_def)
  qed
qed

lemma enter_waiting_succeeds:
  assumes "machine_ok s c" "items c = items_empty" "st = WAIT \<or> st = REINDEX_WAIT"
  shows "succeeding s c st (enter_waiting st s c)"
  using assms
  by (auto simp: enter_waiting_def succeeding_def machine_ok_def total_rows_def transition_defs state_ok_def)

lemma enter_live_after_flush:
  assumes "machine_ok s c" "interrupt_after e = None"
    "(if db_sync_state s \<noteq> START then Some (move_irreversible_blocks (s\<lparr>cached_state_value := Some (db_sync_state s)\<rparr>) c)
      else Some (None, s\<lparr>cached_state_value := Some (db_sync_state s)\<rparr>, c)) = Some r"
    "flushed (s\<lparr>cached_state_value := Some (db_sync_state s)\<rparr>) rows remaining r"
    "items_append rows remaining = items c" "items_ok remaining" "items_covered remaining"
  shows "succeeding s c LIVE (enter_live e s c)"
proof -
  have ok: "state_ok s" "\<not> is_lite_mode s" using assms(1) by (auto simp: machine_ok_def)
  note r = assms(3-7)
  obtain s1 c1 where s1: "r = (None, s1, c1)" "items c1 = remaining"
    "dumped (effects s1) = items_append (dumped (effects s)) rows" "is_lite_mode s1 = is_lite_mode s"
    "sync_answer s1 = sync_answer s"
    by (rule flushed_cases[OF r(2)]) auto
  let ?s3 = "(create_dumper Livesync_data_dumper (emit Poll_and_create_indexes (emit Enable_constrains
      (emit Enable_indexes (set_state LIVE (reset_dumper s1))))))\<lparr>the_trigger := Some Live_flush_trigger\<rparr>"
  have s3: "state_ok ?s3" "the_dumper ?s3 = Some Livesync_data_dumper" "\<not> is_lite_mode ?s3"
    "dumped (effects ?s3) = dumped (effects s1)" "db_sync_state ?s3 = LIVE" "the_trigger ?s3 = Some Live_flush_trigger"
    "sync_answer ?s3 = sync_answer s1"
    using s1(4) ok(2) by (simp_all add: transition_defs state_ok_def)
  have lite: "\<not> is_lite_mode (create_dumper Livesync_data_dumper (emit Poll_and_create_indexes (emit Enable_constrains
      (emit Enable_indexes (set_state LIVE (reset_dumper s1))))))"
    using s3(3) by simp
  obtain r4 where r4: "flush_all_data_to_reversible None ?s3 c1 = Some r4" "flushed ?s3 (items c1) items_empty r4"
    using livesync.flush_all_flushed[OF s3(1,2), of c1] s1(2) r(4,5) by auto
  obtain s4 c4 where s4: "r4 = (None, s4, c4)" "items c4 = items_empty"
    "dumped (effects s4) = items_append (dumped (effects ?s3)) (items c1)" "is_lite_mode s4 = is_lite_mode ?s3"
    "the_dumper s4 = the_dumper ?s3" "the_trigger s4 = the_trigger ?s3" "db_sync_state s4 = db_sync_state ?s3" "state_ok s4"
    "sync_answer s4 = sync_answer ?s3"
    using flushed_cases[OF r4(2)] by metis
  have "enter_live e s c = Some (None, s4, c4)"
    using r(1) s1(1) r4(1) s4(1) lite assms(2)
    by (simp add: enter_live_def get_state_ok[OF ok(1)] Let_def)
  moreover have "machine_ok s4 c4" using s3 s4 by (simp add: machine_ok_def)
  moreover have "total_rows s4 c4 = total_rows s c"
    using s4 s3 s1 r(3) by (simp add: total_rows_def items_append_assoc)
  ultimately show ?thesis using s1(5) s3(5-7) s4(2,6,7,9) by (simp add: succeeding_def)
qed

lemma enter_live_succeeds:
  assumes "machine_ok s c" "interrupt_after e = None"
  shows "succeeding s c LIVE (enter_live e s c)"
proof -
  let ?s = "s\<lparr>cached_state_value := Some (db_sync_state s)\<rparr>"
  have ok: "state_ok s" "items_ok (items c)" "items_covered (items c)" using assms(1) by (auto simp: machine_ok_def)
  have m: "machine_ok ?s c" using assms(1) ok(1) by simp
  consider "db_sync_state s = START" | "db_sync_state s \<noteq> START" "failing ?s c (move_irreversible_blocks ?s c)"
    | rows remaining where "db_sync_state s \<noteq> START" "flushed ?s rows remaining (move_irreversible_blocks ?s c)"
        "items_append rows remaining = items c" "items_ok remaining" "items_covered remaining"
    using machine_split[OF m] by blast
  then show ?thesis
  proof cases
    case 1
    have "flushed ?s items_empty (items c) (None, ?s, c)" using ok(1) by (simp add: flushed_none)
    then show ?thesis by (rule enter_live_after_flush[OF assms, rotated]) (use 1 ok(2,3) in simp_all)
  next
    case 2
    then have "succeeding ?s c LIVE (enter_live e s c)"
      using failing_succeeding by (auto simp: enter_live_def get_state_ok[OF ok(1)])
    then show ?thesis using ok(1) by simp
  next
    case 3
    show ?thesis by (rule enter_live_after_flush[OF assms _ 3(2-5)]) (use 3(1) in simp)
  qed
qed

definition refused :: "indexation_state \<Rightarrow> INDEXATION \<Rightarrow> u32 \<Rightarrow> bool" where
  "refused s st n \<longleftrightarrow> st = P2P \<and> db_sync_state s \<noteq> REINDEX \<and> prior_massive_sync_interrupted s
     \<and> n \<noteq> psql_head_at_startup s + 1"

lemma update_state_succeeds:
  assumes "machine_ok s c" "db_sync_state s \<noteq> LIVE" "interrupt_after e = None" "\<not> refused s st n"
    "st = REINDEX \<longrightarrow> db_sync_state s = START \<or> db_sync_state s = REINDEX_WAIT"
    "st = WAIT \<or> st = REINDEX_WAIT \<longrightarrow> items c = items_empty" "st \<noteq> START"
  shows "succeeding s c st (update_state e st n m s c)"
proof -
  let ?s = "s\<lparr>cached_state_value := Some (db_sync_state s)\<rparr>"
  have ok: "state_ok s" using assms(1) by (simp add: machine_ok_def)
  have m: "machine_ok ?s c" using assms(1) ok by simp
  have eq: "update_state e st n m s c = (case st of START \<Rightarrow> Some (None, ?s, c)
      | P2P \<Rightarrow> enter_p2p e n ?s c | REINDEX \<Rightarrow> enter_reindex e n m ?s c | LIVE \<Rightarrow> enter_live e ?s c
      | WAIT \<Rightarrow> enter_waiting WAIT ?s c | REINDEX_WAIT \<Rightarrow> enter_waiting REINDEX_WAIT ?s c)"
    using assms(2,4) by (auto simp: update_state_def get_state_ok[OF ok] refused_def)
  have "succeeding ?s c st (update_state e st n m s c)"
    unfolding eq using assms(3,5-7) enter_p2p_succeeds[OF m] enter_reindex_succeeds[OF m]
      enter_live_succeeds[OF m] enter_waiting_succeeds[OF m]
    by (cases st) simp_all
  then show ?thesis using ok by simp
qed

lemma update_state_refused:
  assumes "state_ok s" "db_sync_state s \<noteq> LIVE" "refused s st n"
  shows "update_state e st n m s c = Some (Some (Assert_failed ''Refusing to resume interrupted massive sync''),
    emit Kill_node (s\<lparr>cached_state_value := Some (db_sync_state s)\<rparr>), c)"
  using assms by (simp add: update_state_def get_state_ok refused_def)

lemma update_state_live:
  assumes "state_ok s" "db_sync_state s = LIVE"
  shows "update_state e st n m s c = Some (Some (Assert_failed ''Move from LIVE state is illegal''),
    s\<lparr>cached_state_value := Some LIVE\<rparr>, c)"
  using assms by (simp add: update_state_def get_state_ok)

lemma machine_ok_items: "items c = items c' \<Longrightarrow> machine_ok s c = machine_ok s c'"
  unfolding machine_ok_def by (simp only:)

text \<open>After the replay was stopped at a block the machine has no dumper any more.\<close>

definition replay_ended :: "indexation_state \<Rightarrow> bool" where
  "replay_ended s \<longleftrightarrow> db_sync_state s = REINDEX \<and> the_trigger s = None"

text \<open>\<open>on_first_block\<close> and \<open>on_block\<close> do not touch the caller's cache.\<close>

definition block_handled :: "indexation_state \<Rightarrow> cached_data_t \<Rightarrow> outcome option \<Rightarrow> bool" where
  "block_handled s c r \<longleftrightarrow> (\<exists>err s' c'. r = Some (err, s', c') \<and>
     (if err = None then machine_ok s' c \<and> dumped (effects s') = dumped (effects s) \<and> (replay_ended s' \<longrightarrow> replay_ended s)
        \<and> sync_answer s' = sync_answer s
      else prior_massive_sync_interrupted s))"

lemma succeeding_block_handled:
  assumes "succeeding s empty_cached_data st r" "items c = items_empty"
  shows "block_handled s c r"
  using assms
  by (fastforce simp: succeeding_def failing_error(2) block_handled_def total_rows_def machine_ok_def replay_ended_def
      split: INDEXATION.splits)

lemma waiting_empty:
  assumes "machine_ok s c" "db_sync_state s = START \<or> db_sync_state s = WAIT \<or> db_sync_state s = REINDEX_WAIT"
  shows "items c = items_empty" "machine_ok s empty_cached_data"
proof -
  show "items c = items_empty" using assms by (auto simp: machine_ok_def)
  then show "machine_ok s empty_cached_data" using assms(1) machine_ok_items[of c empty_cached_data s] by simp
qed

lemma start_to_wait:
  assumes "machine_ok s c" "db_sync_state s = START" "interrupt_after e = None"
  obtains w where "update_state e WAIT n UNKNOWN (s\<lparr>cached_state_value := Some START\<rparr>) empty_cached_data =
      Some (None, w, empty_cached_data)"
    "machine_ok w empty_cached_data" "db_sync_state w = WAIT" "dumped (effects w) = dumped (effects s)"
    "prior_massive_sync_interrupted w = prior_massive_sync_interrupted s" "psql_first_block w = psql_first_block s"
    "psql_livesync_threshold w = psql_livesync_threshold s" "psql_head_at_startup w = psql_head_at_startup s"
    "sync_answer w = sync_answer s"
proof -
  let ?s = "s\<lparr>cached_state_value := Some (db_sync_state s)\<rparr>"
  define w where "w = (create_dumper Fake_data_dumper (set_state WAIT (reset_dumper ?s)))\<lparr>the_trigger := Some Fake_flush_trigger\<rparr>"
  have "state_ok s" using assms(1) by (simp add: machine_ok_def)
  then have m: "machine_ok ?s empty_cached_data"
    using waiting_empty(2)[OF assms(1) disjI1[OF assms(2)]] by (simp only: machine_ok_cached(1))
  have up: "update_state e WAIT n UNKNOWN ?s empty_cached_data = Some (None, w, empty_cached_data)"
    using assms(2) by (simp add: w_def update_state_def get_state_def enter_waiting_def Let_def)
  have "succeeding ?s empty_cached_data WAIT (Some (None, w, empty_cached_data))"
    unfolding up[symmetric] using m assms(2,3) by (intro update_state_succeeds) (auto simp: refused_def)
  then have "machine_ok w empty_cached_data" "db_sync_state w = WAIT" "dumped (effects w) = dumped (effects s)"
    by (auto simp: succeeding_def failing_def total_rows_def)
  moreover have "prior_massive_sync_interrupted w = prior_massive_sync_interrupted s" "psql_first_block w = psql_first_block s"
    "psql_livesync_threshold w = psql_livesync_threshold s" "psql_head_at_startup w = psql_head_at_startup s"
    "sync_answer w = sync_answer s"
    by (simp_all add: w_def transition_defs reset_dumper_def split: option.split)
  ultimately show thesis using that up[unfolded assms(2)] by blast
qed

lemma on_first_block_handled:
  assumes "machine_ok s c" "interrupt_after e = None"
  shows "block_handled s c (on_first_block e s n)"
proof -
  let ?s = "s\<lparr>cached_state_value := Some (db_sync_state s)\<rparr>"
  let ?next = "if db_sync_state s = REINDEX_WAIT then REINDEX else if can_move_to_livesync e ?s then LIVE else P2P"
  have ok: "state_ok s" using assms(1) by (simp add: machine_ok_def)
  have bh: "block_handled ?s c r = block_handled s c r" for r by (simp add: block_handled_def replay_ended_def)
  show ?thesis
  proof (cases "db_sync_state s = START \<or> db_sync_state s = WAIT \<or> db_sync_state s = REINDEX_WAIT")
    case True
    note empty = waiting_empty[OF assms(1) True]
    have m: "machine_ok ?s empty_cached_data" using empty(2) ok by simp
    have eq: "on_first_block e s n = update_state e ?next (word_of_int n) UNKNOWN ?s empty_cached_data"
      using True by (auto simp: on_first_block_def get_state_ok[OF ok])
    have "block_handled ?s c (on_first_block e s n)"
    proof (cases "refused ?s ?next (word_of_int n)")
      case True
      then show ?thesis
        using ok \<open>db_sync_state s = START \<or> _\<close>
        by (subst eq, subst update_state_refused) (auto simp: block_handled_def refused_def)
    next
      case False
      then have "succeeding ?s empty_cached_data ?next (on_first_block e s n)"
        unfolding eq using True m assms(2) by (intro update_state_succeeds) auto
      then show ?thesis by (rule succeeding_block_handled[OF _ empty(1)])
    qed
    then show ?thesis using bh by simp
  next
    case False
    then have "on_first_block e s n = Some (None, ?s, empty_cached_data)"
      by (cases "db_sync_state s") (simp_all add: on_first_block_def get_state_ok[OF ok])
    then show ?thesis using assms(1) ok by (simp add: block_handled_def replay_ended_def)
  qed
qed

lemma on_block_handled:
  assumes "machine_ok s c" "interrupt_after e = None"
  shows "block_handled s c (on_block e s n)"
proof -
  let ?s = "s\<lparr>cached_state_value := Some (db_sync_state s)\<rparr>"
  have ok: "state_ok s" using assms(1) by (simp add: machine_ok_def)
  have first: "block_handled s c (if psql_first_block s1 \<le> word_of_int n then on_first_block e s1 n else Some (None, s1, c1))"
    if "machine_ok s1 c" "dumped (effects s1) = dumped (effects s)"
      "prior_massive_sync_interrupted s1 = prior_massive_sync_interrupted s" "replay_ended s1 \<longrightarrow> replay_ended s"
      "sync_answer s1 = sync_answer s" for s1 c1
  proof -
    have "block_handled s1 c r \<Longrightarrow> block_handled s c r" for r
      unfolding block_handled_def using that(2-5) by metis
    moreover have "block_handled s1 c (Some (None, s1, c1))" using that(1) by (simp add: block_handled_def)
    ultimately show ?thesis using on_first_block_handled[OF that(1) assms(2), of n] by simp
  qed
  show ?thesis
  proof (cases "db_sync_state s = START")
    case True
    have empty: "items c = items_empty" using waiting_empty(1)[OF assms(1)] True by blast
    obtain w where up: "update_state e WAIT (word_of_int n) UNKNOWN (s\<lparr>cached_state_value := Some START\<rparr>) empty_cached_data =
        Some (None, w, empty_cached_data)"
      and w: "machine_ok w empty_cached_data" "db_sync_state w = WAIT" "dumped (effects w) = dumped (effects s)"
        "prior_massive_sync_interrupted w = prior_massive_sync_interrupted s" "sync_answer w = sync_answer s"
      using start_to_wait[OF assms(1) True assms(2), of "word_of_int n"] by metis
    have "machine_ok w c" using w(1) machine_ok_items[of empty_cached_data c w] empty by simp
    then show ?thesis
      using first[of w empty_cached_data] w(2-5) True
      by (simp add: on_block_def get_state_ok[OF ok] up replay_ended_def)
  next
    case False
    then show ?thesis
      using first[of ?s empty_cached_data] assms(1) ok by (simp add: on_block_def get_state_ok[OF ok] replay_ended_def)
  qed
qed


subsection \<open>Runs of the node\<close>

text \<open>One block: the machine is told about it before it is applied; if blocks are collected, its rows
  are appended to the cache and the cache is offered to the flush trigger
  (\<open>on_pre_apply_block\<close> and \<open>on_post_apply_block\<close> of the plugin).\<close>

definition apply_block :: "env \<Rightarrow> int \<Rightarrow> cached_items \<Rightarrow> indexation_state \<Rightarrow> cached_data_t \<Rightarrow> outcome option" where
  "apply_block e n rows s c =
     andthen (map_option (\<lambda>(err, s1, _). (err, s1, c)) (on_block e s n)) (\<lambda>s1 c1.
       let (collect, s2) = collect_blocks s1 in
       if collect then trigger_data_flush s2 (append_items c1 rows) n else Some (None, s2, c1))"

definition collecting :: "INDEXATION \<Rightarrow> bool" where
  "collecting st \<longleftrightarrow> st \<in> {REINDEX, P2P, LIVE}"

lemma collect_blocks_collecting:
  "state_ok s \<Longrightarrow> collect_blocks s = (collecting (db_sync_state s), s\<lparr>cached_state_value := Some (db_sync_state s)\<rparr>)"
  by (cases "db_sync_state s")
    (simp_all add: collect_blocks_def get_state_ok indexation_value_def COLLECT_BLOCKS_MASK_def collecting_def)

text \<open>A state of a run: the machine, the cache and, as a ghost, all rows collected so far.\<close>

type_synonym run_state = "indexation_state \<times> cached_data_t \<times> cached_items"

definition block_fits :: "int \<Rightarrow> cached_items \<Rightarrow> cached_data_t \<Rightarrow> bool" where
  "block_fits n rows c \<longleftrightarrow> single_block n rows \<and> 0 < n \<and> n < 2 ^ 31 \<and> (\<forall>m \<in> set (block_nums (blocks c)). m < n)"

text \<open>Forks do not reach below the blocks that were written while irreversible.\<close>

definition fork_above :: "u32 \<Rightarrow> cached_items \<Rightarrow> bool" where
  "fork_above n rows \<longleftrightarrow> uint n < 2 ^ 31 - 1 \<and> items_filter (\<lambda>m. m \<le> uint n) rows = rows"

inductive sync_step :: "env \<Rightarrow> run_state \<Rightarrow> run_state \<Rightarrow> bool" for e where
  block: "block_fits n rows c \<Longrightarrow> apply_block e n rows s c = Some (None, s', c') \<Longrightarrow>
    sync_step e (s, c, all) (s', c', if collecting (db_sync_state s') then items_append all rows else all)"
| irreversible: "sync_step e (s, c, all) (on_irreversible_block s n, c, all)"
| fork: "on_switch_fork s c n = (s', c') \<Longrightarrow> fork_above n (dumped (effects s)) \<Longrightarrow>
    sync_step e (s, c, all) (s', c', if db_sync_state s = P2P then items_filter (\<lambda>m. m \<le> uint n) all else all)"
| end_sync: "on_end_of_syncing e s c n = Some (None, s', c') \<Longrightarrow> sync_step e (s, c, all) (s', c', all)"
| pre_reindex: "db_sync_state s = START \<Longrightarrow> on_pre_reindex e s c n m = Some (None, s', c') \<Longrightarrow>
    sync_step e (s, c, all) (s', c', all)"
| post_reindex: "on_post_reindex e s c n stop = Some (None, s', c') \<Longrightarrow> sync_step e (s, c, all) (s', c', all)"

inductive_cases sync_stepE: "sync_step e (s, c, all) (s', c', all')"

inductive sync_reachable :: "run_state \<Rightarrow> run_state \<Rightarrow> bool" for init where
  sync_refl: "sync_reachable init init"
| sync_trans: "sync_reachable init st \<Longrightarrow> interrupt_after e = None \<Longrightarrow> sync_step e st st' \<Longrightarrow> sync_reachable init st'"

lemma flushed_machine:
  assumes "flushed s rows remaining r" "machine_ok s c" "items_ok remaining" "items_covered remaining"
    "db_sync_state s \<in> {REINDEX, P2P} \<and> the_trigger s \<noteq> None \<or> remaining = items_empty"
  obtains s' c' where "r = (None, s', c')" "machine_ok s' c'" "items c' = remaining"
    "dumped (effects s') = items_append (dumped (effects s)) rows" "db_sync_state s' = db_sync_state s"
    "the_trigger s' = the_trigger s"
proof -
  obtain s' c' where f: "r = (None, s', c')" "items c' = remaining"
    "dumped (effects s') = items_append (dumped (effects s)) rows" "is_lite_mode s' = is_lite_mode s"
    "the_dumper s' = the_dumper s" "the_trigger s' = the_trigger s" "db_sync_state s' = db_sync_state s" "state_ok s'"
    using flushed_cases[OF assms(1)] by metis
  have "machine_ok s' c'"
    using assms(2-5) f(2,4-8) by (cases "db_sync_state s") (auto simp: machine_ok_def no_dumper_def)
  then show thesis using that f by blast
qed

definition flush_kept :: "indexation_state \<Rightarrow> cached_items \<Rightarrow> outcome option \<Rightarrow> bool" where
  "flush_kept s all r \<longleftrightarrow> (\<exists>s' c'. r = Some (None, s', c') \<and> machine_ok s' c' \<and> total_rows s' c' = all
     \<and> db_sync_state s' = db_sync_state s)
   \<or> (\<exists>r' x. r = Some r' \<and> fst r' = Some x \<and> database_error s x)"

lemma p2p_flush_kept:
  assumes "machine_ok s c" "db_sync_state s = P2P"
  shows "flush_kept s (total_rows s c) (Some (p2p_flush k s c))"
proof (cases "irreversible_block_num s = NO_IRREVERSIBLE_BLOCK \<or> irreversible_block_num s - k < MINIMUM_BLOCKS_PER_FLUSH")
  case True
  then show ?thesis using assms(1) by (auto simp: p2p_flush_def flush_kept_def Let_def)
next
  case False
  show ?thesis
  proof (cases "failing s c (move_irreversible_blocks s c)")
    case True
    then show ?thesis
      using False
      by (auto simp: p2p_flush_def Let_def flush_kept_def failing_def split_beta simp flip: move_irreversible_blocks_def)
  next
    case nofail: False
    obtain rows remaining where split: "flushed s rows remaining (move_irreversible_blocks s c)"
      "items_append rows remaining = items c" "items_ok remaining" "items_covered remaining"
      using machine_split[OF assms(1)] nofail by blast
    have trig: "the_trigger s \<noteq> None" using assms by (auto simp: machine_ok_def)
    obtain s1 c1 where f: "move_irreversible_blocks s c = (None, s1, c1)" "machine_ok s1 c1" "items c1 = remaining"
      "dumped (effects s1) = items_append (dumped (effects s)) rows" "db_sync_state s1 = db_sync_state s"
      by (rule flushed_machine[OF split(1) assms(1) split(3,4)]) (use assms(2) trig in auto)
    have "machine_ok (s1\<lparr>the_trigger := Some (P2p_flush_trigger (irreversible_block_num s))\<rparr>) c1"
      using f(2,5) assms(2) by (auto simp: machine_ok_def state_ok_def)
    then show ?thesis
      using False f(1,3-5) split(2)
      by (simp add: p2p_flush_def Let_def flush_kept_def total_rows_def items_append_assoc
          flip: move_irreversible_blocks_def)
  qed
qed

lemma trigger_data_flush_kept:
  assumes "machine_ok s c" "block_fits n rows c" "collecting (db_sync_state s)" "the_trigger s \<noteq> None"
  shows "flush_kept s (items_append (total_rows s c) rows) (trigger_data_flush s (append_items c rows) n)"
proof -
  let ?c = "append_items c rows"
  have ok: "state_ok s" "items_ok (items c)" "items_covered (items c)" using assms(1) by (auto simp: machine_ok_def)
  have ok': "items_ok (items ?c)" "items_covered (items ?c)"
    using items_ok_append_block[OF ok(2,3)] assms(2) by (auto simp: block_fits_def)
  have total: "total_rows s ?c = items_append (total_rows s c) rows"
    by (simp add: total_rows_def items_append_assoc)
  have force: "flush_kept s (total_rows s ?c) (Some (force_trigger_flush_with_all_data s ?c n))"
    if "flushed s (items ?c) items_empty (force_trigger_flush_with_all_data s ?c n)"
    by (rule flushed_machine[OF that assms(1)]) (auto simp: flush_kept_def total_rows_def)
  have m: "machine_ok s ?c" if "db_sync_state s \<noteq> LIVE"
    using assms(1,3,4) ok' that by (auto simp: machine_ok_def collecting_def no_dumper_def)
  from assms(3) consider "db_sync_state s = REINDEX" | "db_sync_state s = P2P" | "db_sync_state s = LIVE"
    by (auto simp: collecting_def)
  then have "flush_kept s (total_rows s ?c) (trigger_data_flush s ?c n)"
  proof cases
    case 1
    then have "the_trigger s = Some Reindex_flush_trigger"
      using assms(1,4) by (auto simp: machine_ok_def no_dumper_def)
    moreover have "flush_kept s (total_rows s ?c) (Some (None, s, ?c))"
      using m 1 by (simp add: flush_kept_def)
    moreover have "flush_kept s (total_rows s ?c) (Some (force_trigger_flush_with_all_data s ?c n))"
      using machine_flushed[OF m, of n] force 1 by (auto simp: failing_def flush_kept_def)
    ultimately show ?thesis by (simp add: trigger_data_flush_def)
  next
    case 2
    then show ?thesis
      using p2p_flush_kept[OF m] assms(1) by (auto simp: machine_ok_def trigger_data_flush_def)
  next
    case 3
    then have live: "the_trigger s = Some Live_flush_trigger" "the_dumper s = Some Livesync_data_dumper" "items c = items_empty"
      using assms(1) by (auto simp: machine_ok_def)
    have "length (blocks (items ?c)) = 1"
      using live(3) assms(2) by (simp add: block_fits_def single_block_def block_nums_def flip: length_map[of block_number])
    then have "flushed s (items ?c) items_empty (force_trigger_flush_with_all_data s ?c n)"
      using live(2) ok(1) ok'(2) by (intro livesync.force_flushed) auto
    then show ?thesis using force live(1) by (simp add: trigger_data_flush_def)
  qed
  then show ?thesis unfolding total .
qed

subsection \<open>Conservation\<close>

definition sync_inv :: "run_state \<Rightarrow> bool" where
  "sync_inv st = (case st of (s, c, all) \<Rightarrow> machine_ok s c \<and> total_rows s c = all)"

lemma apply_block_kept:
  assumes "machine_ok s c" "block_fits n rows c" "interrupt_after e = None"
    "apply_block e n rows s c = Some (None, s', c')"
  shows "machine_ok s' c'"
    "total_rows s' c' = (if collecting (db_sync_state s') then items_append (total_rows s c) rows else total_rows s c)"
proof -
  obtain err s1 c1 where b: "on_block e s n = Some (err, s1, c1)"
    "if err = None then machine_ok s1 c \<and> dumped (effects s1) = dumped (effects s) \<and> (replay_ended s1 \<longrightarrow> replay_ended s)
       \<and> sync_answer s1 = sync_answer s
     else prior_massive_sync_interrupted s"
    using on_block_handled[OF assms(1,3), of n] unfolding block_handled_def by blast
  have err: "err = None" using assms(4) b(1) by (cases err) (simp_all add: apply_block_def)
  have m: "machine_ok s1 c" "total_rows s1 c = total_rows s c" and ok: "state_ok s1"
    using b(2) err by (auto simp: total_rows_def machine_ok_def)
  let ?s2 = "s1\<lparr>cached_state_value := Some (db_sync_state s1)\<rparr>"
  have m2: "machine_ok ?s2 c" "total_rows ?s2 c = total_rows s c" using m ok by simp_all
  have eq: "(if collecting (db_sync_state s1) then trigger_data_flush ?s2 (append_items c rows) n
      else Some (None, ?s2, c)) = Some (None, s', c')"
    using assms(4) b(1) err by (simp add: apply_block_def collect_blocks_collecting[OF ok])
  have "machine_ok s' c' \<and>
    total_rows s' c' = (if collecting (db_sync_state s') then items_append (total_rows s c) rows else total_rows s c)"
  proof (cases "collecting (db_sync_state s1)")
    case True
    then have flush: "trigger_data_flush ?s2 (append_items c rows) n = Some (None, s', c')" using eq by simp
    then have "the_trigger ?s2 \<noteq> None" by (cases "the_trigger s1") (simp_all add: trigger_data_flush_def)
    then have "flush_kept ?s2 (items_append (total_rows ?s2 c) rows) (Some (None, s', c'))"
      using trigger_data_flush_kept[OF m2(1) assms(2)] True flush by simp
    then show ?thesis using True m2(2) by (simp add: flush_kept_def)
  next
    case False
    then show ?thesis using eq m2 by auto
  qed
  then show "machine_ok s' c'"
    "total_rows s' c' = (if collecting (db_sync_state s') then items_append (total_rows s c) rows else total_rows s c)"
    by blast+
qed

lemma items_filter_append: "items_filter P (items_append a b) = items_append (items_filter P a) (items_filter P b)"
  by (simp add: items_filter_def items_append_def)

lemma switch_fork_kept:
  assumes "machine_ok s c" "fork_above n (dumped (effects s))" "on_switch_fork s c n = (s', c')"
  shows "machine_ok s' c'"
    "total_rows s' c' = (if db_sync_state s = P2P then items_filter (\<lambda>m. m \<le> uint n) (total_rows s c) else total_rows s c)"
proof -
  have ok: "state_ok s" "items_ok (items c)" "items_covered (items c)" "\<not> is_lite_mode s"
    using assms(1) by (auto simp: machine_ok_def)
  let ?s = "s\<lparr>cached_state_value := Some (db_sync_state s)\<rparr>"
  have m: "machine_ok ?s c" "total_rows ?s c = total_rows s c" using assms(1) ok(1) by simp_all
  have "machine_ok s' c' \<and> total_rows s' c' =
    (if db_sync_state s = P2P then items_filter (\<lambda>m. m \<le> uint n) (total_rows s c) else total_rows s c)"
  proof (cases "db_sync_state s = P2P")
    case True
    then have r: "s' = ?s" "c' = erase_all_items_greater_than_block c n"
      using assms(3) by (auto simp: on_switch_fork_def get_state_ok[OF ok(1)])
    have e: "items c' = items_filter (\<lambda>m. m \<le> uint n) (items c)"
      unfolding r using erase_all_items_greater_than_block_spec[OF ok(2)] assms(2) by (simp add: fork_above_def)
    have "machine_ok ?s c'"
      using assms(1) True ok e items_ok_filter[OF ok(2)] items_covered_filter[OF ok(3)]
      by (auto simp: machine_ok_def state_ok_def)
    then show ?thesis
      using True r(1) e assms(2) by (simp add: total_rows_def items_filter_append fork_above_def)
  next
    case False
    then have "s' = ?s" "c' = c"
      using assms(3) ok(4) by (auto simp: on_switch_fork_def get_state_ok[OF ok(1)])
    then show ?thesis using False m by simp
  qed
  then show "machine_ok s' c'"
    "total_rows s' c' = (if db_sync_state s = P2P then items_filter (\<lambda>m. m \<le> uint n) (total_rows s c) else total_rows s c)"
    by blast+
qed

lemma on_end_of_syncing_conserving:
  assumes "machine_ok s c" "interrupt_after e = None"
  shows "conserving s c (on_end_of_syncing e s c n)"
proof -
  let ?s = "s\<lparr>cached_state_value := Some (db_sync_state s)\<rparr>"
  have ok: "state_ok s" using assms(1) by (simp add: machine_ok_def)
  have m: "machine_ok ?s c" using assms(1) ok by simp
  have "conserving ?s c (on_end_of_syncing e s c n)"
  proof (cases "db_sync_state s = LIVE")
    case True
    then show ?thesis using m by (simp add: on_end_of_syncing_def get_state_ok[OF ok] conserving_def)
  next
    case False
    then have "succeeding ?s c LIVE (update_state e LIVE (word_of_int n) UNKNOWN ?s c)"
      using m assms(2) by (intro update_state_succeeds) (auto simp: refused_def)
    then show ?thesis
      using False by (simp add: on_end_of_syncing_def get_state_ok[OF ok] succeeding_conserving)
  qed
  then show ?thesis using ok by simp
qed

lemma on_pre_reindex_conserving:
  assumes "machine_ok s c" "interrupt_after e = None" "db_sync_state s = START"
  shows "conserving s c (on_pre_reindex e s c n m)"
proof -
  let ?s = "s\<lparr>cached_state_value := Some (db_sync_state s)\<rparr>"
  have ok: "state_ok s" using assms(1) by (simp add: machine_ok_def)
  have m: "machine_ok ?s c" using assms(1) ok by simp
  have empty: "items c = items_empty" using waiting_empty[OF assms(1)] assms(3) by blast
  have "succeeding ?s c st (update_state e st k l ?s c)" if "st = WAIT \<or> st = REINDEX_WAIT" for st k l
    using that m assms(2,3) empty by (intro update_state_succeeds) (auto simp: refused_def)
  then have "conserving ?s c (on_pre_reindex e s c n m)"
    by (auto simp: on_pre_reindex_def get_state_ok[OF ok] intro: succeeding_conserving)
  then show ?thesis using ok by simp
qed

lemma end_of_syncing_conserving:
  assumes "machine_ok s c" "db_sync_state s = REINDEX \<or> db_sync_state s = REINDEX_WAIT"
  shows "conserving s c (end_of_syncing s c n)"
proof (cases "failing s c (force_trigger_flush_with_all_data s c (sint n))")
  case True
  then show ?thesis unfolding end_of_syncing_def by (intro succeeding_conserving[OF failing_succeeding])
next
  case False
  then have "flushed s (items c) items_empty (force_trigger_flush_with_all_data s c (sint n))"
    using machine_flushed[OF assms(1)] by blast
  then obtain s1 c1 where f: "force_trigger_flush_with_all_data s c (sint n) = (None, s1, c1)" "items c1 = items_empty"
    "dumped (effects s1) = items_append (dumped (effects s)) (items c)" "is_lite_mode s1 = is_lite_mode s"
    "db_sync_state s1 = db_sync_state s" "state_ok s1"
    by (rule flushed_cases)
  then show ?thesis
    using assms
    by (auto simp: end_of_syncing_def conserving_def total_rows_def machine_ok_def no_dumper_def emit_def
        dumped_append state_ok_def)
qed

lemma on_post_reindex_conserving:
  assumes "machine_ok s c" "interrupt_after e = None"
  shows "conserving s c (on_post_reindex e s c n stop)"
proof -
  let ?s = "s\<lparr>cached_state_value := Some (db_sync_state s)\<rparr>"
  have ok: "state_ok s" using assms(1) by (simp add: machine_ok_def)
  have m: "machine_ok ?s c" using assms(1) ok by simp
  have live: "conserving ?s c (update_state e P2P k l ?s c)" if "db_sync_state s = REINDEX" for k l
    using that m assms(2) by (intro succeeding_conserving[OF update_state_succeeds]) (auto simp: refused_def)
  have wait: "conserving ?s c (update_state e WAIT k l ?s c)" if "db_sync_state s = REINDEX_WAIT" for k l
    using that m assms(2) waiting_empty(1)[OF assms(1)]
    by (intro succeeding_conserving[OF update_state_succeeds]) (auto simp: refused_def)
  have "conserving ?s c (on_post_reindex e s c n stop)"
    using live wait end_of_syncing_conserving[OF m] m
    by (cases "db_sync_state s") (auto simp: on_post_reindex_def get_state_ok[OF ok] conserving_def[of _ _ "Some (None, _, _)"])
  then show ?thesis using ok by simp
qed

lemma conservingD:
  "conserving s c r \<Longrightarrow> r = Some (None, s', c') \<Longrightarrow> machine_ok s' c' \<and> total_rows s' c' = total_rows s c"
  by (simp add: conserving_def)

lemma sync_step_inv:
  assumes "sync_step e (s, c, all) (s', c', all')" "interrupt_after e = None" "machine_ok s c" "total_rows s c = all"
  shows "machine_ok s' c' \<and> total_rows s' c' = all'"
  using assms(1)
proof cases
  case (block n rows)
  then show ?thesis using apply_block_kept[OF assms(3) _ assms(2)] assms(4) by blast
next
  case (irreversible n)
  then show ?thesis
    using assms(3,4)
    by (cases "db_sync_state s")
      (auto simp: on_irreversible_block_def machine_ok_def total_rows_def state_ok_def no_dumper_def)
next
  case (fork n)
  then show ?thesis using switch_fork_kept[OF assms(3)] assms(4) by blast
next
  case (end_sync n)
  then show ?thesis using conservingD[OF on_end_of_syncing_conserving[OF assms(3,2)]] assms(4) by blast
next
  case (pre_reindex n m)
  then show ?thesis using conservingD[OF on_pre_reindex_conserving[OF assms(3,2)]] assms(4) by blast
next
  case (post_reindex n stop)
  then show ?thesis using conservingD[OF on_post_reindex_conserving[OF assms(3,2)]] assms(4) by blast
qed

lemma sync_reachable_inv:
  assumes "sync_reachable init st" "sync_inv init"
  shows "sync_inv st"
  using assms
proof (induction rule: sync_reachable.induct)
  case (sync_trans st e st')
  obtain s c all s' c' all' where st: "st = (s, c, all)" "st' = (s', c', all')" by (cases st; cases st') auto
  then show ?case
    using sync_trans.IH[OF sync_trans.prems] sync_step_inv[of e s c all s' c' all'] sync_trans.hyps(2,3)
    by (simp add: sync_inv_def)
qed

lemma new_indexation_state_ok:
  assumes "new_indexation_state threshold first pruning False interrupted head db answer = Inr s"
  shows "sync_inv (s, empty_cached_data, items_empty)"
  using assms
  by (auto simp: new_indexation_state_def sync_inv_def machine_ok_def total_rows_def transition_defs state_ok_def
      no_dumper_def split: if_splits)

end
