(* ===== verification/Plugin_Properties.thy ===== *)
theory Plugin_Properties
  imports Sql_Serializer Sync_Safety
begin

text \<open>
  The plugin collects blocks completely: what the handlers of a block (\<open>Sql_Serializer\<close>) put into the cache
  is one row for the block, one for each transaction, one for each effective operation, numbered from the
  position counter on, and rows of the same block for accounts; and with the invariants of the indexation
  state (\<open>Sync_Safety\<close>) these rows are dumped or cached.  A block that fails leaves no rows behind, but
  leaves the position counter as it is.
\<close>


subsection \<open>Frames\<close>

lemma set_cache_simps [simp]:
  "currently_caching_data (set_cache c p) = c" "plugin_state (set_cache c p) = plugin_state p"
  "plugin_filter (set_cache c p) = plugin_filter p" "op_in_block_number (set_cache c p) = op_in_block_number p"
  "the_filter (plugin_collector (set_cache c p)) = the_filter (plugin_collector p)"
  "operations_blocked (set_cache c p) = operations_blocked p"
  by (simp_all add: set_cache_def currently_caching_data_def)

lemma plugin_effect_simps [simp]:
  "plugin_collector (plugin_effect e p) = plugin_collector p" "plugin_state (plugin_effect e p) = plugin_state p"
  "plugin_filter (plugin_effect e p) = plugin_filter p" "op_in_block_number (plugin_effect e p) = op_in_block_number p"
  "operations_blocked (plugin_effect e p) = operations_blocked p"
  by (simp_all add: plugin_effect_def)

text \<open>The fields the properties are about.\<close>

definition same_rows :: "sql_plugin \<Rightarrow> sql_plugin \<Rightarrow> bool" where
  "same_rows p p' \<longleftrightarrow> plugin_collector p' = plugin_collector p \<and> plugin_state p' = plugin_state p \<and>
     plugin_filter p' = plugin_filter p \<and> op_in_block_number p' = op_in_block_number p"

lemma same_rows_cache: "same_rows p p' \<Longrightarrow> currently_caching_data p' = currently_caching_data p"
  by (simp add: same_rows_def currently_caching_data_def)

lemma vacuum_same_rows: "vacuum e qs p = Some (err, p') \<Longrightarrow> same_rows p p'"
proof (induction qs arbitrary: p)
  case (Cons q qs)
  then show ?case
    by (cases "vacuum_result e q") (fastforce simp: same_rows_def)+
qed (simp add: same_rows_def)

lemma flush_custom_json_same_rows: "flush_custom_json e p = Some (err, p') \<Longrightarrow> same_rows p p'"
  by (auto simp: flush_custom_json_def same_rows_def Let_def split: prod.splits if_splits)

lemma and_then_None_iff:
  "and_then r f = Some (None, p') \<longleftrightarrow> (\<exists>p1. r = Some (None, p1) \<and> f p1 = Some (None, p'))"
  by (cases r rule: option.exhaust; cases "fst (the r)"; auto split: prod.splits)

text \<open>Reading the state fills its cache.\<close>

definition touch :: "indexation_state \<Rightarrow> indexation_state" where
  "touch s = s\<lparr>cached_state_value := Some (db_sync_state s)\<rparr>"

lemma touch_touch [simp]: "touch (touch s) = touch s" "db_sync_state (touch s) = db_sync_state s" "effects (touch s) = effects s"
  by (simp_all add: touch_def)

lemma state_ok_touch [simp]: "state_ok s \<Longrightarrow> state_ok (touch s)"
  by (auto simp: state_ok_def touch_def)

lemma machine_ok_touch [simp]: "machine_ok s c \<Longrightarrow> machine_ok (touch s) c"
  using machine_ok_cached[of s] by (simp add: touch_def machine_ok_def[of s])

lemma can_collect_blocks_eq:
  "state_ok (plugin_state p) \<Longrightarrow>
   can_collect_blocks p = (collecting (db_sync_state (plugin_state p)), p\<lparr>plugin_state := touch (plugin_state p)\<rparr>)"
  by (simp add: can_collect_blocks_def collect_blocks_collecting touch_def)

text \<open>A plugin that runs without a filter, and the invariant of such a plugin outside lite mode (\<open>machine_ok\<close> excludes it).\<close>

definition plugin_unfiltered :: "sql_plugin \<Rightarrow> bool" where
  "plugin_unfiltered p \<longleftrightarrow> the_filter (plugin_collector p) = None \<and> \<not> filter_enabled (plugin_filter p)"

definition plugin_ok :: "sql_plugin \<Rightarrow> bool" where
  "plugin_ok p \<longleftrightarrow> machine_ok (plugin_state p) (currently_caching_data p) \<and> plugin_unfiltered p"

definition plugin_rows :: "sql_plugin \<Rightarrow> cached_items" where
  "plugin_rows p = total_rows (plugin_state p) (currently_caching_data p)"


subsection \<open>What the rows of a block should be\<close>

definition stored_operation :: "plugin_env \<Rightarrow> operation_notification \<Rightarrow> hive_operation" where
  "stored_operation e note =
     (if is_effective_comment_vote e (note_op note) then supplement_operation e (note_op note) else note_op note)"

type_synonym op_key = "int \<times> int \<times> int \<times> int \<times> string"

definition op_key :: "process_operation_t \<Rightarrow> op_key" where
  "op_key r = (operation_id r, op_trx_in_block r, op_in_trx r, op_type_id r, op_body r)"

fun op_keys :: "plugin_env \<Rightarrow> u32 \<Rightarrow> u32 \<Rightarrow> operation_notification list \<Rightarrow> op_key list" where
  "op_keys e n k [] = []"
| "op_keys e n k (note # notes) =
     (if is_effective_operation e (note_op note)
      then (to_operation_id e n k, note_trx_in_block note, note_op_in_trx note, to_int16 (op_which (stored_operation e note)),
            op_packed (stored_operation e note)) # op_keys e n (k + 1) notes
      else op_keys e n k notes)"

definition transaction_row :: "u32 \<Rightarrow> int \<Rightarrow> full_transaction \<Rightarrow> process_transaction_t" where
  "transaction_row n trx_no t =
     \<lparr>block_number = sint n, hash = full_trx_id t, trx_in_block = trx_no, ref_block_num = full_ref_block_num t,
      ref_block_prefix = full_ref_block_prefix t, expiration = full_expiration t,
      trx_signature = (case full_signatures t of [] \<Rightarrow> None | sig # _ \<Rightarrow> Some sig),
      rc_cost = (if full_rc_cost t < 0 then None else Some (full_rc_cost t))\<rparr>"

fun transaction_rows :: "u32 \<Rightarrow> int \<Rightarrow> full_transaction list \<Rightarrow> process_transaction_t list" where
  "transaction_rows n k [] = []"
| "transaction_rows n k (t # ts) = transaction_row n k t # transaction_rows n (k + 1) ts"

definition multisig_rows :: "u32 \<Rightarrow> full_transaction list \<Rightarrow> process_transaction_multisig_t list" where
  "multisig_rows n ts = concat (map (\<lambda>t. map (\<lambda>sig. \<lparr>block_number = sint n, hash = full_trx_id t, multisig_signature = sig\<rparr>)
     (tl (full_signatures t))) ts)"

lemma handle_transactions_rows:
  "\<not> filter_enabled f \<Longrightarrow> \<exists>bytes'. handle_transactions f bytes n k ts c =
     c\<lparr>total_size := bytes', transactions := transactions c @ transaction_rows n k ts,
       transactions_multisig := transactions_multisig c @ multisig_rows n ts\<rparr>"
proof (induction ts arbitrary: k c)
  case Nil
  then show ?case by (cases c) (simp add: multisig_rows_def)
next
  case (Cons t ts)
  have "is_trx_accepted f k" using Cons.prems by (simp add: is_trx_accepted_def)
  then show ?case
    using Cons.IH[OF Cons.prems, of "k + 1" "c\<lparr>total_size := total_size c + bytes, transactions := transactions c @ [transaction_row n k t],
      transactions_multisig := transactions_multisig c @
        map (\<lambda>sig. \<lparr>block_number = sint n, hash = full_trx_id t, multisig_signature = sig\<rparr>) (tl (full_signatures t))\<rparr>"]
    by (simp add: multisig_rows_def transaction_row_def Let_def)
qed

lemma transaction_rows_block: "block_number ` set (transaction_rows n k ts) \<subseteq> {sint n}"
  by (induction ts arbitrary: k) (auto simp: transaction_row_def)

lemma multisig_rows_block: "block_number ` set (multisig_rows n ts) \<subseteq> {sint n}"
  by (auto simp: multisig_rows_def)

subsection \<open>Collecting operations\<close>

text \<open>Rows that operations of block \<open>n\<close> may add.\<close>

definition op_rows :: "u32 \<Rightarrow> cached_items \<Rightarrow> bool" where
  "op_rows n d \<longleftrightarrow> blocks d = [] \<and> transactions d = [] \<and> transactions_multisig d = [] \<and>
     block_number ` set (operations d) \<subseteq> {sint n} \<and> block_number ` set (accounts d) \<subseteq> {sint n} \<and>
     block_number ` set (account_operations d) \<subseteq> {sint n} \<and> block_number ` set (applied_hardforks d) \<subseteq> {sint n}"

definition gathers :: "plugin_env \<Rightarrow> u32 \<Rightarrow> operation_notification list \<Rightarrow> sql_plugin \<Rightarrow> sql_plugin \<Rightarrow> bool" where
  "gathers e n notes p p' \<longleftrightarrow>
     (let keys = (if collecting (db_sync_state (plugin_state p)) then op_keys e n (op_in_block_number p) notes else []) in
     (plugin_state p' = plugin_state p \<or> plugin_state p' = touch (plugin_state p)) \<and>
     the_filter (plugin_collector p') = None \<and> plugin_filter p' = plugin_filter p \<and>
     op_in_block_number p' = op_in_block_number p + of_nat (length keys) \<and>
     stash (currently_caching_data p') = stash (currently_caching_data p) \<and>
     (\<exists>d. items (currently_caching_data p') = items_append (items (currently_caching_data p)) d \<and> op_rows n d \<and>
        map op_key (operations d) = keys \<and> (collecting (db_sync_state (plugin_state p)) \<or> d = items_empty)))"

lemma op_rows_append: "op_rows n a \<Longrightarrow> op_rows n b \<Longrightarrow> op_rows n (items_append a b)"
  by (simp add: op_rows_def items_append_def image_Un)

lemma operations_items_empty [simp]: "operations items_empty = []"
  by (simp add: items_empty_def)

lemma op_rows_empty [simp]: "op_rows n items_empty"
  by (simp add: op_rows_def items_empty_def)

lemma op_keys_append: "op_keys e n k (a @ b) = op_keys e n k a @ op_keys e n (k + of_nat (length (op_keys e n k a))) b"
  by (induction e n k a rule: op_keys.induct) (simp_all add: add.assoc add.commute[of _ 1] add.left_commute)

lemma gathers_none:
  assumes "plugin_state p' = plugin_state p \<or> plugin_state p' = touch (plugin_state p)"
    "plugin_collector p' = plugin_collector p" "plugin_filter p' = plugin_filter p" "op_in_block_number p' = op_in_block_number p"
    "the_filter (plugin_collector p) = None" "\<not> collecting (db_sync_state (plugin_state p)) \<or> op_keys e n (op_in_block_number p) notes = []"
  shows "gathers e n notes p p'"
proof -
  have "currently_caching_data p' = currently_caching_data p" using assms(2) by (simp add: currently_caching_data_def)
  then show ?thesis
    unfolding gathers_def Let_def using assms
    by (auto intro!: exI[of _ items_empty])
qed

lemma collect_places:
  assumes "collect imp op_id op n s = (err, s')" "the_filter s = None"
  shows "the_filter s' = None \<and> (\<exists>news rows. collector_cache s' = (collector_cache s)\<lparr>accounts := accounts (collector_cache s) @ news,
      account_operations := account_operations (collector_cache s) @ rows\<rparr>
    \<and> block_number ` set news \<subseteq> {sint n} \<and> block_number ` set rows \<subseteq> {sint n})"
proof -
  let ?s2 = "on_collect op (s\<lparr>processed_operation_id := op_id, processed_operation_type_id := op_which op, collector_block_num := n,
    impacted := fst (imp op), owner_impacted := snd (imp op)\<rparr>)"
  have s2: "the_filter ?s2 = None" "collector_cache ?s2 = collector_cache s" "collector_block_num ?s2 = n"
    using assms(2) by (simp_all add: on_collect_def)
  consider "s' = s\<lparr>processed_operation_id := op_id\<rparr>" | "visit op ?s2 = (err, s')"
    using assms(1) by (auto simp: collect_def Let_def split: if_splits)
  then show ?thesis
  proof cases
    case 1
    then show ?thesis using assms(2) by (intro conjI exI[of _ "[]"]) simp_all
  next
    case 2
    then show ?thesis using placing.visit_law[OF 2] s2 unfolding places_def by metis
  qed
qed

lemma cache_operation_rows:
  assumes "\<not> filter_enabled (plugin_filter p)"
  shows "\<exists>hs row. items (currently_caching_data (cache_operation note op op_id p)) =
      items_append (items (currently_caching_data p)) (items_empty\<lparr>operations := [row], applied_hardforks := hs\<rparr>)
    \<and> op_key row = (op_id, note_trx_in_block note, note_op_in_trx note, to_int16 (op_which op), op_packed op)
    \<and> block_number row = sint (note_block note) \<and> block_number ` set hs \<subseteq> {sint (note_block note)}
    \<and> stash (currently_caching_data (cache_operation note op op_id p)) = stash (currently_caching_data p)
    \<and> plugin_filter (cache_operation note op op_id p) = plugin_filter p
    \<and> plugin_state (cache_operation note op op_id p) = plugin_state p
    \<and> op_in_block_number (cache_operation note op op_id p) = op_in_block_number p
    \<and> the_filter (plugin_collector (cache_operation note op op_id p)) = the_filter (plugin_collector p)"
proof -
  define cj where "cj = (case op_payload op of Custom_json name \<Rightarrow> get_type_id name (custom_json_cache p) | _ \<Rightarrow> (None, custom_json_cache p))"
  define row where "row = \<lparr>block_number = sint (note_block note), operation_id = op_id, op_trx_in_block = note_trx_in_block note,
      op_type_id = to_int16 (op_which op), op_in_trx = note_op_in_trx note, op_body = op_packed op,
      custom_json_type_id = fst cj\<rparr>"
  define hs where "hs = (if 0 < get_hardfork_id op
      then [\<lparr>block_number = sint (note_block note), hardfork_num = get_hardfork_id op, hardfork_vop_id = op_id\<rparr>] else [])"
  let ?c = "currently_caching_data p"
  have eq: "cache_operation note op op_id p =
      (set_cache (?c\<lparr>applied_hardforks := applied_hardforks ?c @ hs, operations := operations ?c @ [row]\<rparr>) p)
        \<lparr>plugin_filter := plugin_filter p, custom_json_cache := snd cj\<rparr>"
    unfolding cache_operation_def Let_def cj_def[symmetric] row_def hs_def
    using assms by (simp add: remember_trx_id_def split: prod.splits)
  show ?thesis
    by (intro exI[of _ hs] exI[of _ row])
      (auto simp: eq set_cache_def currently_caching_data_def items_defs op_key_def row_def hs_def)
qed

lemma on_pre_apply_operation_gathers:
  assumes "state_ok (plugin_state p)" "the_filter (plugin_collector p) = None" "\<not> filter_enabled (plugin_filter p)"
    "note_block note = n" "on_pre_apply_operation e note p = Some (None, p')"
  shows "gathers e n [note] p p'"
proof -
  let ?s = "touch (plugin_state p)" and ?op = "stored_operation e note" and ?c = "currently_caching_data p"
  let ?id = "to_operation_id e n (op_in_block_number p)"
  have env: "processing_block e \<and> \<not> producing_block e" using assms(5) by (simp add: on_pre_apply_operation_def split: if_splits)
  show ?thesis
  proof (cases "is_effective_operation e (note_op note) \<and> collecting (db_sync_state (plugin_state p))")
    case False
    then have "p' = p \<or> p' = p\<lparr>plugin_state := ?s\<rparr>"
      using assms(5) env by (auto simp: on_pre_apply_operation_def can_collect_blocks_eq[OF assms(1)] split: if_splits)
    then show ?thesis using False assms(2) by (intro gathers_none) auto
  next
    case True
    obtain err col where c: "collect (impacted_accounts e) ?id ?op n (plugin_collector p) = (err, col)" by fastforce
    define p1 where "p1 = p\<lparr>plugin_state := ?s, plugin_collector := col\<rparr>"
    obtain news rows where col: "the_filter col = None" "collector_cache col = ?c\<lparr>accounts := accounts ?c @ news,
        account_operations := account_operations ?c @ rows\<rparr>"
      "block_number ` set news \<subseteq> {sint n}" "block_number ` set rows \<subseteq> {sint n}"
      using collect_places[OF c assms(2)] by (auto simp: currently_caching_data_def)
    have p': "p' = (cache_operation note ?op ?id p1)\<lparr>op_in_block_number := op_in_block_number (cache_operation note ?op ?id p1) + 1\<rparr>"
      using assms(5) env True c col(1)
      by (auto simp: on_pre_apply_operation_def can_collect_blocks_eq[OF assms(1)] Let_def assms(4) p1_def is_op_accepted_def
          simp flip: stored_operation_def split: if_splits option.splits)
    have p1: "\<not> filter_enabled (plugin_filter p1)" "plugin_state p1 = ?s" "op_in_block_number p1 = op_in_block_number p"
      "the_filter (plugin_collector p1) = None" "plugin_filter p1 = plugin_filter p"
      "currently_caching_data p1 = ?c\<lparr>accounts := accounts ?c @ news, account_operations := account_operations ?c @ rows\<rparr>"
      using assms(3) col(1,2) by (simp_all add: p1_def currently_caching_data_def)
    obtain hs row where r: "items (currently_caching_data (cache_operation note ?op ?id p1)) =
        items_append (items (currently_caching_data p1)) (items_empty\<lparr>operations := [row], applied_hardforks := hs\<rparr>)"
      "op_key row = (?id, note_trx_in_block note, note_op_in_trx note, to_int16 (op_which ?op), op_packed ?op)"
      "block_number row = sint n" "block_number ` set hs \<subseteq> {sint n}"
      "stash (currently_caching_data (cache_operation note ?op ?id p1)) = stash (currently_caching_data p1)"
      "plugin_filter (cache_operation note ?op ?id p1) = plugin_filter p1" "plugin_state (cache_operation note ?op ?id p1) = ?s"
      "op_in_block_number (cache_operation note ?op ?id p1) = op_in_block_number p1"
      "the_filter (plugin_collector (cache_operation note ?op ?id p1)) = None"
      using cache_operation_rows[OF p1(1), of "note" ?op ?id] p1 assms(4) by auto
    define d where "d = items_empty\<lparr>operations := [row], applied_hardforks := hs, accounts := news, account_operations := rows\<rparr>"
    have d: "items (currently_caching_data p1) = items_append (items ?c) (items_empty\<lparr>accounts := news, account_operations := rows\<rparr>)"
      using p1(6) by (simp add: items_defs)
    have cp: "currently_caching_data p' = currently_caching_data (cache_operation note ?op ?id p1)"
      by (simp add: p' currently_caching_data_def)
    have "items (currently_caching_data p') = items_append (items ?c) d"
      unfolding cp r(1) d items_append_assoc by (simp add: d_def items_append_def items_empty_def)
    moreover have "op_rows n d" using col(3,4) r(3,4) by (simp add: op_rows_def d_def items_empty_def)
    moreover have "map op_key (operations d) = op_keys e n (op_in_block_number p) [note]" using r(2) True by (simp add: d_def)
    moreover have "stash (currently_caching_data p') = stash ?c"
      unfolding cp using r(5) p1(6) by simp
    ultimately show ?thesis
      unfolding gathers_def Let_def using True r(6-9) p1(3,5) by (auto simp: p')
  qed
qed

lemma gathers_frame:
  assumes "gathers e n nts p p'"
  shows "plugin_state p' = plugin_state p \<or> plugin_state p' = touch (plugin_state p)" "the_filter (plugin_collector p') = None"
    "plugin_filter p' = plugin_filter p" "stash (currently_caching_data p') = stash (currently_caching_data p)"
    "op_in_block_number p' = op_in_block_number p +
       of_nat (length (if collecting (db_sync_state (plugin_state p)) then op_keys e n (op_in_block_number p) nts else []))"
  using assms unfolding gathers_def Let_def by - (elim conjE, assumption)+

lemma gathers_rows:
  assumes "gathers e n nts p p'"
  obtains d where "items (currently_caching_data p') = items_append (items (currently_caching_data p)) d" "op_rows n d"
    "map op_key (operations d) = (if collecting (db_sync_state (plugin_state p)) then op_keys e n (op_in_block_number p) nts else [])"
    "collecting (db_sync_state (plugin_state p)) \<or> d = items_empty"
  using assms unfolding gathers_def Let_def by (elim conjE exE) (rule that)

lemma gathers_trans:
  assumes "gathers e n a p p1" "gathers e n b p1 p2"
  shows "gathers e n (a @ b) p p2"
proof -
  have st: "plugin_state p1 = plugin_state p \<or> plugin_state p1 = touch (plugin_state p)"
    "plugin_state p2 = plugin_state p1 \<or> plugin_state p2 = touch (plugin_state p1)"
    using assms by (simp_all add: gathers_def Let_def)
  have db: "db_sync_state (plugin_state p1) = db_sync_state (plugin_state p)" using st(1) by auto
  obtain d1 where d1: "items (currently_caching_data p1) = items_append (items (currently_caching_data p)) d1" "op_rows n d1"
    "map op_key (operations d1) = (if collecting (db_sync_state (plugin_state p)) then op_keys e n (op_in_block_number p) a else [])"
    "collecting (db_sync_state (plugin_state p)) \<or> d1 = items_empty"
    using assms(1) by (rule gathers_rows)
  obtain d2 where d2: "items (currently_caching_data p2) = items_append (items (currently_caching_data p1)) d2" "op_rows n d2"
    "map op_key (operations d2) = (if collecting (db_sync_state (plugin_state p)) then op_keys e n (op_in_block_number p1) b else [])"
    "collecting (db_sync_state (plugin_state p)) \<or> d2 = items_empty"
    using assms(2) unfolding db[symmetric] by (rule gathers_rows)
  note d = d1(1) d2(1) d1(2) d2(2) d1(3) d2(3) d1(4) d2(4)
  have k: "op_in_block_number p1 = op_in_block_number p +
      of_nat (length (if collecting (db_sync_state (plugin_state p)) then op_keys e n (op_in_block_number p) a else []))"
    "op_in_block_number p2 = op_in_block_number p1 +
      of_nat (length (if collecting (db_sync_state (plugin_state p)) then op_keys e n (op_in_block_number p1) b else []))"
    using assms db by (simp_all add: gathers_def Let_def)
  have "items (currently_caching_data p2) = items_append (items (currently_caching_data p)) (items_append d1 d2)"
    using d(1,2) by (simp add: items_append_assoc)
  moreover have "map op_key (operations (items_append d1 d2)) =
      (if collecting (db_sync_state (plugin_state p)) then op_keys e n (op_in_block_number p) (a @ b) else [])"
    using d(5,6) k(1) by (simp add: items_append_def op_keys_append)
  moreover have "op_in_block_number p2 = op_in_block_number p +
      of_nat (length (if collecting (db_sync_state (plugin_state p)) then op_keys e n (op_in_block_number p) (a @ b) else []))"
    using k by (simp add: op_keys_append add.assoc)
  moreover have "collecting (db_sync_state (plugin_state p)) \<or> items_append d1 d2 = items_empty"
    using d(7,8) by (auto simp: items_append_def items_empty_def)
  ultimately show ?thesis
    using assms st op_rows_append[OF d(3,4)] unfolding gathers_def Let_def by auto
qed

lemma notify_operations_gathers:
  assumes "state_ok (plugin_state p)" "the_filter (plugin_collector p) = None" "\<not> filter_enabled (plugin_filter p)"
    "\<not> operations_blocked p" "\<forall>nt \<in> set nts. note_block nt = n" "notify_operations e nts p = Some (None, p')"
  shows "gathers e n nts p p'"
  using assms
proof (induction nts arbitrary: p)
  case Nil
  then show ?case by (intro gathers_none) auto
next
  case (Cons nt nts)
  obtain p1 where p1: "on_pre_apply_operation e nt p = Some (None, p1)" "notify_operations e nts p1 = Some (None, p')"
    using Cons.prems(4,6) by (auto simp: notify_pre_apply_operation_def and_then_None_iff)
  have g: "gathers e n [nt] p p1"
    using on_pre_apply_operation_gathers[OF Cons.prems(1-3) _ p1(1)] Cons.prems(5) by simp
  have "\<not> operations_blocked p1"
    using p1(1) Cons.prems(4)
    by (auto simp: on_pre_apply_operation_def can_collect_blocks_def Let_def cache_operation_def split: if_splits option.splits prod.splits)
  moreover have "state_ok (plugin_state p1)" "the_filter (plugin_collector p1) = None" "\<not> filter_enabled (plugin_filter p1)"
    using g Cons.prems(1,3) by (auto simp: gathers_def Let_def)
  ultimately have "gathers e n nts p1 p'" using Cons.IH Cons.prems(5) p1(2) by simp
  from gathers_trans[OF g this] show ?case by simp
qed

subsection \<open>Before the block\<close>

definition touched :: "sql_plugin \<Rightarrow> sql_plugin \<Rightarrow> bool" where
  "touched p p' \<longleftrightarrow> plugin_collector p' = plugin_collector p \<and> plugin_filter p' = plugin_filter p \<and>
     op_in_block_number p' = op_in_block_number p \<and> (plugin_state p' = plugin_state p \<or> plugin_state p' = touch (plugin_state p))"

lemma touched_trans: "touched p p1 \<Longrightarrow> touched p1 p2 \<Longrightarrow> touched p p2"
  by (auto simp: touched_def)

lemma can_collect_blocks_touched:
  assumes "state_ok (plugin_state p)" "can_collect_blocks p = (b, p')"
  shows "touched p p'" "b = collecting (db_sync_state (plugin_state p))"
  using assms can_collect_blocks_eq[OF assms(1)] by (auto simp: touched_def)

lemma initialize_db_touched:
  assumes "state_ok (plugin_state p)"
  shows "touched p (initialize_db_if_needed n p)"
proof -
  obtain needed p1 where n: "need_initialize_database n p = (needed, p1)" by fastforce
  have "touched p p1"
    using n can_collect_blocks_touched(1)[OF assms]
    by (auto simp: need_initialize_database_def touched_def split: if_splits)
  moreover have "touched p1 (if needed then init_database p1 else p1)"
    by (simp add: touched_def init_database_def Let_def)
  ultimately have "touched p (if needed then init_database p1 else p1)" by (rule touched_trans)
  then show ?thesis unfolding initialize_db_if_needed_def n by simp
qed

lemma touched_ok:
  assumes "touched p p'" "plugin_ok p"
  shows "plugin_ok p'" "plugin_rows p' = plugin_rows p" "currently_caching_data p' = currently_caching_data p"
proof -
  show c: "currently_caching_data p' = currently_caching_data p"
    using assms(1) by (simp add: touched_def currently_caching_data_def)
  show "plugin_ok p'" "plugin_rows p' = plugin_rows p"
    using assms c by (auto simp: touched_def plugin_ok_def plugin_unfiltered_def plugin_rows_def total_rows_def)
qed

lemma start_haf_touched: "start_haf e p = Some (None, p') \<Longrightarrow> touched p p'"
  by (auto simp: start_haf_def touched_def split: if_splits option.splits)

lemma plugin_ok_state_ok: "plugin_ok p \<Longrightarrow> state_ok (plugin_state p)"
  by (simp add: plugin_ok_def plugin_unfiltered_def machine_ok_def)

lemma on_pre_apply_block_ok:
  assumes "plugin_ok p" "interrupt_after (sync_env e) = None" "on_pre_apply_block e n p = Some (None, p')"
  shows "plugin_ok p'" "plugin_rows p' = plugin_rows p" "currently_caching_data p' = currently_caching_data p"
    "op_in_block_number p' = op_in_block_number p"
proof -
  obtain p1 p2 where p1: "start_haf e p = Some (None, p1)"
    and p2: "map_option (\<lambda>(err, s, _). (err, p1\<lparr>plugin_state := s\<rparr>)) (on_block (sync_env e) (plugin_state p1) (sint n)) = Some (None, p2)"
    and p'0: "(let (collect, p3) = can_collect_blocks (initialize_db_if_needed n p2)
       in Some (None :: haf_error option, if collect then p3\<lparr>initialization_connected := False\<rparr> else p3)) = Some (None, p')"
    using assms(3) unfolding on_pre_apply_block_def and_then_None_iff by blast
  obtain s c where s: "on_block (sync_env e) (plugin_state p1) (sint n) = Some (None, s, c)" "p2 = p1\<lparr>plugin_state := s\<rparr>"
    using p2 by auto
  note p' = p'0[unfolded s(2)]
  note 1 = touched_ok[OF start_haf_touched[OF p1] assms(1)]
  have "block_handled (plugin_state p1) (currently_caching_data p1) (Some (None, s, c))"
    using on_block_handled[of "plugin_state p1" "currently_caching_data p1" "sync_env e" "sint n"] 1(1) assms(2) s(1)
    by (simp add: plugin_ok_def plugin_unfiltered_def)
  then have m: "machine_ok s (currently_caching_data p1)" "dumped (effects s) = dumped (effects (plugin_state p1))"
    by (auto simp: block_handled_def)
  let ?p2 = "p1\<lparr>plugin_state := s\<rparr>"
  have 2: "plugin_ok ?p2" "plugin_rows ?p2 = plugin_rows p1" "currently_caching_data ?p2 = currently_caching_data p1"
    using m 1(1) by (simp_all add: plugin_ok_def plugin_unfiltered_def plugin_rows_def total_rows_def currently_caching_data_def)
  obtain collect p3 where p3: "can_collect_blocks (initialize_db_if_needed n ?p2) = (collect, p3)" by fastforce
  note init = initialize_db_touched[OF plugin_ok_state_ok[OF 2(1)], of n]
  have "touched (initialize_db_if_needed n ?p2) p3"
    using can_collect_blocks_touched(1)[OF plugin_ok_state_ok[OF touched_ok(1)[OF init 2(1)]] p3] .
  with init have "touched ?p2 p3" by (rule touched_trans)
  moreover have "touched p3 p'" using p' p3 by (auto simp: touched_def)
  ultimately have t: "touched ?p2 p'" by (rule touched_trans)
  show "plugin_ok p'" "plugin_rows p' = plugin_rows p" "currently_caching_data p' = currently_caching_data p"
    using touched_ok[OF t 2(1)] 1 2 by simp_all
  show "op_in_block_number p' = op_in_block_number p"
    using t start_haf_touched[OF p1] by (simp add: touched_def)
qed

lemma plugin_ok_same_items:
  assumes "plugin_ok p" "items c = items (currently_caching_data p)"
  shows "plugin_ok (set_cache c p)" "plugin_rows (set_cache c p) = plugin_rows p"
  using assms machine_ok_items[of c "currently_caching_data p"] by (simp_all add: plugin_ok_def plugin_unfiltered_def plugin_rows_def total_rows_def)

lemma plugin_ok_touched_items:
  assumes "plugin_ok p" "the_filter (plugin_collector p') = None" "plugin_filter p' = plugin_filter p"
    "plugin_state p' = plugin_state p \<or> plugin_state p' = touch (plugin_state p)"
    "items (currently_caching_data p') = items (currently_caching_data p)"
  shows "plugin_ok p'" "plugin_rows p' = plugin_rows p"
proof -
  have "machine_ok (plugin_state p) (currently_caching_data p')"
    using assms(1) machine_ok_items[OF assms(5)] by (simp add: plugin_ok_def plugin_unfiltered_def)
  then have "machine_ok (plugin_state p') (currently_caching_data p')" using assms(4) machine_ok_touch by metis
  then show "plugin_ok p'" using assms(1-3) by (simp add: plugin_ok_def plugin_unfiltered_def)
  have "effects (plugin_state p') = effects (plugin_state p)" using assms(4) by auto
  then show "plugin_rows p' = plugin_rows p" using assms(5) by (simp add: plugin_rows_def total_rows_def)
qed

lemma items_snapshot [simp]: "items (snapshot_current_sizes c) = items c"
  by (simp add: snapshot_current_sizes_def items_defs)

lemma notify_pre_apply_block_ok:
  assumes "plugin_ok p" "interrupt_after (sync_env e) = None" "notify_pre_apply_block e n p = Some (None, p')"
  shows "plugin_ok p'" "plugin_rows p' = plugin_rows p" "\<not> operations_blocked p'" "op_in_block_number p' = op_in_block_number p"
    "currently_caching_data p' = snapshot_current_sizes (currently_caching_data p)"
proof -
  obtain p1 where p1: "(if initialization_connected p then on_pre_apply_block e n p else Some (None, p)) = Some (None, p1)"
    and p': "p' = unblock_operation_handlers p1"
    using assms(3) by (auto simp: notify_pre_apply_block_def and_then_None_iff)
  have ok: "plugin_ok p1" "plugin_rows p1 = plugin_rows p" "currently_caching_data p1 = currently_caching_data p"
    "op_in_block_number p1 = op_in_block_number p"
    using on_pre_apply_block_ok[OF assms(1,2)] p1 assms(1) by (auto split: if_splits)
  let ?p2 = "set_cache (snapshot_current_sizes (currently_caching_data p1)) p1"
  have "plugin_ok ?p2" "plugin_rows ?p2 = plugin_rows p1"
    using plugin_ok_same_items[OF ok(1), of "snapshot_current_sizes (currently_caching_data p1)"] by simp_all
  then show "plugin_ok p'" "plugin_rows p' = plugin_rows p" "\<not> operations_blocked p'" "op_in_block_number p' = op_in_block_number p"
    "currently_caching_data p' = snapshot_current_sizes (currently_caching_data p)"
    using ok by (auto simp: p' unblock_operation_handlers_def plugin_ok_def plugin_unfiltered_def plugin_rows_def currently_caching_data_def set_cache_def)
qed


subsection \<open>After the block\<close>

definition with_items :: "cached_data_t \<Rightarrow> cached_items \<Rightarrow> cached_data_t" where
  "with_items c i = c\<lparr>blocks := blocks i, transactions := transactions i, transactions_multisig := transactions_multisig i,
     operations := operations i, accounts := accounts i, account_operations := account_operations i,
     applied_hardforks := applied_hardforks i\<rparr>"

lemma items_with_items [simp]: "items (with_items c i) = i"
  by (cases i) (simp add: with_items_def items_defs)

lemma append_with_items: "items c = items_append i d \<Longrightarrow> append_items (with_items c i) d = c"
  by (rule cached_data_t.equality) (simp_all add: with_items_def append_items_def items_defs)

lemma trigger_data_flush_rows:
  assumes "machine_ok s c0" "collecting (db_sync_state s)" "single_block m d" "0 < m" "m < 2 ^ 31"
    "\<forall>b \<in> set (block_nums (blocks c0)). b < m" "items c = items_append (items c0) d"
    "trigger_data_flush s c m = Some (None, s', c')"
  shows "machine_ok s' c' \<and> total_rows s' c' = items_append (total_rows s c0) d \<and> db_sync_state s' = db_sync_state s"
proof -
  let ?base = "with_items c (items c0)"
  have "blocks ?base = blocks c0" by (simp add: with_items_def)
  then have base: "machine_ok s ?base" "total_rows s ?base = total_rows s c0" "block_fits m d ?base"
    using assms(1,3-6) machine_ok_items[of ?base c0] by (simp_all add: total_rows_def block_fits_def)
  have "the_trigger s \<noteq> None" using assms(8) by (cases "the_trigger s") (simp_all add: trigger_data_flush_def)
  from trigger_data_flush_kept[OF base(1,3) assms(2) this] show ?thesis
    using assms(8) base(2) by (simp add: append_with_items[OF assms(7)] flush_kept_def)
qed

lemma sint_block: "0 < sint (n :: u32) \<Longrightarrow> sint n < 2 ^ 31"
  using sint_lt[of n] by simp

lemma notify_post_apply_block_ok:
  assumes "plugin_ok p0" "state_ok (plugin_state p)" "the_filter (plugin_collector p) = None" "plugin_filter p = plugin_filter p0"
    "plugin_state p = plugin_state p0 \<or> plugin_state p = touch (plugin_state p0)"
    "items (currently_caching_data p) = items_append (items (currently_caching_data p0)) d" "op_rows n d"
    "note_block_num note = n" "0 < sint n" "\<forall>b \<in> set (block_nums (blocks (currently_caching_data p0))). b < sint n"
    "collecting (db_sync_state (plugin_state p0))" "notify_post_apply_block e note p = Some (None, p')"
  shows "plugin_ok p' \<and> op_in_block_number p' = 0 \<and> db_sync_state (plugin_state p') = db_sync_state (plugin_state p0) \<and>
    (\<exists>rows. plugin_rows p' = items_append (plugin_rows p0) rows \<and> single_block (sint n) rows \<and> operations rows = operations d
     \<and> transactions rows = transaction_rows n 0 (note_transactions note)
     \<and> transactions_multisig rows = multisig_rows n (note_transactions note))"
proof -
  let ?q = "p\<lparr>plugin_last_block_num := n, consecutive_block_failures := 0\<rparr>" and ?ts = "note_transactions note"
  let ?p1 = "?q\<lparr>plugin_state := touch (plugin_state p), op_in_block_number := 0\<rparr>" and ?c = "currently_caching_data p"
  have coll: "can_collect_blocks ?q = (True, ?q\<lparr>plugin_state := touch (plugin_state p)\<rparr>)"
    using can_collect_blocks_eq[of ?q] assms(2,5,11) by auto
  have nf: "\<not> filter_enabled (plugin_filter p)" using assms(1,4) by (simp add: plugin_ok_def plugin_unfiltered_def)
  obtain bytes where h: "handle_transactions (plugin_filter p) (sizeof_transaction e) n 0 ?ts ?c =
      ?c\<lparr>total_size := bytes, transactions := transactions ?c @ transaction_rows n 0 ?ts,
        transactions_multisig := transactions_multisig ?c @ multisig_rows n ?ts\<rparr>" (is "_ = ?h")
    using handle_transactions_rows[OF nf] by blast
  let ?p2 = "set_cache ?h ?p1"
  have c1: "currently_caching_data ?p1 = ?c" by (simp add: currently_caching_data_def)
  obtain a k p3 p5 where ak: "producer_account note = Some a" "producer_signing_key note = Some k"
    and flushed: "flush_custom_json e (cache_block e note a k ?p2) = Some (None, p3)"
    and post: "and_then (with_outcome p3 (trigger_data_flush (plugin_state p3) (currently_caching_data p3) (sint n)))
      (\<lambda>p. vacuum e (vacuum_queries (is_pruning_enabled (plugin_state p)) n) (p\<lparr>plugin_filter := clear_filter (plugin_filter p)\<rparr>)) = Some (None, p5)"
    and p': "p' = block_operation_handlers p5"
    using assms(12) coll h c1
    by (auto simp: notify_post_apply_block_def and_then_None_iff on_post_apply_block_def post_apply_block_def Let_def assms(8)
        split: option.splits prod.splits if_splits)
  have p3: "plugin_state p3 = touch (plugin_state p)" "op_in_block_number p3 = 0" "plugin_filter p3 = plugin_filter p"
    "the_filter (plugin_collector p3) = None"
    "currently_caching_data p3 = ?h\<lparr>total_size := bytes + sizeof_block e, blocks := blocks ?c @ [block_row note a k]\<rparr>"
    using flush_custom_json_same_rows[OF flushed] assms(3)
    by (simp_all add: same_rows_def cache_block_def Let_def same_rows_cache[OF flush_custom_json_same_rows[OF flushed]])
  define rows where "rows = d\<lparr>blocks := [block_row note a k], transactions := transaction_rows n 0 ?ts,
    transactions_multisig := multisig_rows n ?ts\<rparr>"
  have d: "blocks d = []" "transactions d = []" "transactions_multisig d = []" using assms(7) by (simp_all add: op_rows_def)
  have items3: "items (currently_caching_data p3) = items_append (items (currently_caching_data p0)) rows"
    using assms(6) d unfolding p3(5) rows_def by (simp add: items_defs)
  have nums: "block_nums (blocks rows) = [sint n]" by (simp add: rows_def block_nums_def block_row_def assms(8))
  have single: "single_block (sint n) rows"
    using assms(7) transaction_rows_block[of n 0 ?ts] multisig_rows_block[of n ?ts] nums
    by (simp add: single_block_def items_covered_def) (simp add: rows_def op_rows_def block_nums_def)
  obtain s c where flush: "trigger_data_flush (plugin_state p3) (currently_caching_data p3) (sint n) = Some (None, s, c)"
    and vac: "vacuum e (vacuum_queries (is_pruning_enabled s) n) ((set_cache c (p3\<lparr>plugin_state := s\<rparr>))
        \<lparr>plugin_filter := clear_filter (plugin_filter p3)\<rparr>) = Some (None, p5)"
    using post by (auto simp: and_then_None_iff with_outcome_def)
  have m0: "machine_ok (plugin_state p3) (currently_caching_data p0)" "db_sync_state (plugin_state p3) = db_sync_state (plugin_state p0)"
    "effects (plugin_state p3) = effects (plugin_state p0)"
    using assms(1,5) p3(1) by (auto simp: plugin_ok_def plugin_unfiltered_def)
  have res: "machine_ok s c" "total_rows s c = items_append (total_rows (plugin_state p3) (currently_caching_data p0)) rows"
    "db_sync_state s = db_sync_state (plugin_state p3)"
    using trigger_data_flush_rows[OF m0(1) _ single assms(9) sint_block[OF assms(9)] assms(10) items3 flush] m0(2) assms(11) by simp_all
  have same: "same_rows ((set_cache c (p3\<lparr>plugin_state := s\<rparr>))\<lparr>plugin_filter := clear_filter (plugin_filter p3)\<rparr>) p5"
    using vacuum_same_rows[OF vac] .
  have p5: "plugin_state p' = s" "currently_caching_data p' = c" "op_in_block_number p' = 0" "the_filter (plugin_collector p') = None"
    "\<not> filter_enabled (plugin_filter p')"
    using same p3(2-4) nf
    by (auto simp: p' block_operation_handlers_def same_rows_def currently_caching_data_def set_cache_def clear_filter_def)
  have "plugin_rows p' = items_append (plugin_rows p0) rows"
    using p5(1,2) res(2) m0(3) by (simp add: plugin_rows_def total_rows_def)
  moreover have "plugin_ok p'" using p5 res(1) by (simp add: plugin_ok_def plugin_unfiltered_def)
  ultimately show ?thesis using p5(1,3) res(3) m0(2) single by (auto simp: rows_def intro!: exI[of _ rows])
qed

lemma notify_post_apply_block_idle:
  assumes "plugin_ok p" "\<not> collecting (db_sync_state (plugin_state p))" "notify_post_apply_block e note p = Some (None, p')"
  shows "plugin_ok p' \<and> plugin_rows p' = plugin_rows p \<and> op_in_block_number p' = op_in_block_number p
    \<and> db_sync_state (plugin_state p') = db_sync_state (plugin_state p)"
proof -
  let ?q = "p\<lparr>plugin_last_block_num := note_block_num note, consecutive_block_failures := 0\<rparr>"
  have "can_collect_blocks ?q = (False, ?q\<lparr>plugin_state := touch (plugin_state p)\<rparr>)"
    using can_collect_blocks_eq[of ?q] assms(2) plugin_ok_state_ok[OF assms(1)] by simp
  then have "p' = block_operation_handlers (?q\<lparr>plugin_state := touch (plugin_state p)\<rparr>)"
    using assms(3) by (simp add: notify_post_apply_block_def on_post_apply_block_def post_apply_block_def)
  then show ?thesis
    using assms(1) by (simp add: plugin_ok_def plugin_unfiltered_def plugin_rows_def total_rows_def currently_caching_data_def block_operation_handlers_def)
qed

text \<open>The rows of one applied block.\<close>

definition block_rows :: "plugin_env \<Rightarrow> block_notification \<Rightarrow> u32 \<Rightarrow> operation_notification list \<Rightarrow> cached_items \<Rightarrow> bool" where
  "block_rows e note k nts rows \<longleftrightarrow> single_block (sint (note_block_num note)) rows \<and>
     map op_key (operations rows) = op_keys e (note_block_num note) k nts \<and>
     transactions rows = transaction_rows (note_block_num note) 0 (note_transactions note) \<and>
     transactions_multisig rows = multisig_rows (note_block_num note) (note_transactions note)"

lemma notify_block_phases:
  assumes "plugin_ok p" "interrupt_after (sync_env e) = None" "\<forall>nt \<in> set nts. note_block nt = n"
    "notify_pre_apply_block e n p = Some (None, p1)" "notify_operations e nts p1 = Some (None, p2)"
  shows "plugin_ok p1" "plugin_rows p1 = plugin_rows p" "op_in_block_number p1 = op_in_block_number p"
    "items (currently_caching_data p1) = items (currently_caching_data p)"
    "stash (currently_caching_data p2) = stash (snapshot_current_sizes (currently_caching_data p))" "gathers e n nts p1 p2"
proof -
  note pre = notify_pre_apply_block_ok[OF assms(1,2,4)]
  have ops: "the_filter (plugin_collector p1) = None" "\<not> filter_enabled (plugin_filter p1)" using pre(1) by (simp_all add: plugin_ok_def plugin_unfiltered_def)
  show g: "gathers e n nts p1 p2"
    using notify_operations_gathers[OF plugin_ok_state_ok[OF pre(1)] ops pre(3) assms(3,5)] .
  show "plugin_ok p1" "plugin_rows p1 = plugin_rows p" "op_in_block_number p1 = op_in_block_number p"
    "items (currently_caching_data p1) = items (currently_caching_data p)" using pre by simp_all
  show "stash (currently_caching_data p2) = stash (snapshot_current_sizes (currently_caching_data p))"
    using g pre(5) by (simp add: gathers_def Let_def)
qed

subsection \<open>Applied blocks\<close>

lemma notify_block_rows:
  assumes "plugin_ok p" "interrupt_after (sync_env e) = None" "0 < sint (note_block_num note)"
    "\<forall>b \<in> set (block_nums (blocks (currently_caching_data p))). b < sint (note_block_num note)"
    "\<forall>nt \<in> set nts. note_block nt = note_block_num note" "notify_block e note nts p = Some (None, p')"
  shows "plugin_ok p' \<and>
    (if collecting (db_sync_state (plugin_state p'))
     then op_in_block_number p' = 0 \<and>
       (\<exists>rows. plugin_rows p' = items_append (plugin_rows p) rows \<and> block_rows e note (op_in_block_number p) nts rows)
     else plugin_rows p' = plugin_rows p)"
proof -
  obtain p1 p2 where ph: "notify_pre_apply_block e (note_block_num note) p = Some (None, p1)"
    "notify_operations e nts p1 = Some (None, p2)" and post: "notify_post_apply_block e note p2 = Some (None, p')"
    using assms(6) by (auto simp: notify_block_def and_then_None_iff)
  note ok = notify_block_phases[OF assms(1,2,5) ph]
  have nums: "\<forall>b \<in> set (block_nums (blocks (currently_caching_data p1))). b < sint (note_block_num note)"
    using assms(4) arg_cong[OF ok(4), of blocks] by simp
  have p2: "state_ok (plugin_state p2)" "the_filter (plugin_collector p2) = None" "plugin_filter p2 = plugin_filter p1"
    "plugin_state p2 = plugin_state p1 \<or> plugin_state p2 = touch (plugin_state p1)"
    using gathers_frame[OF ok(6)] plugin_ok_state_ok[OF ok(1)] by auto
  obtain d where d0: "items (currently_caching_data p2) = items_append (items (currently_caching_data p1)) d"
    "op_rows (note_block_num note) d"
    "map op_key (operations d) = (if collecting (db_sync_state (plugin_state p1))
       then op_keys e (note_block_num note) (op_in_block_number p1) nts else [])"
    "collecting (db_sync_state (plugin_state p1)) \<or> d = items_empty"
    using ok(6) by (rule gathers_rows)
  show ?thesis
  proof (cases "collecting (db_sync_state (plugin_state p1))")
    case True
    note d = d0(1,2) d0(3)[unfolded if_P[OF True] ok(3)]
    show ?thesis
      using notify_post_apply_block_ok[OF ok(1) p2 d(1,2) refl assms(3) nums True post] True d(3) ok(2)
      unfolding block_rows_def by auto
  next
    case False
    then have "items (currently_caching_data p2) = items (currently_caching_data p1)"
      using d0(1,4) by simp
    from plugin_ok_touched_items[OF ok(1) p2(2,3,4) this] have "plugin_ok p2" "plugin_rows p2 = plugin_rows p1" .
    moreover have "db_sync_state (plugin_state p2) = db_sync_state (plugin_state p1)" using p2(4) by auto
    ultimately show ?thesis
      using notify_post_apply_block_idle[OF _ _ post] False ok(2) by simp
  qed
qed

subsection \<open>Failed blocks\<close>

text \<open>Also an operation that throws only appends rows.\<close>

definition appends :: "sql_plugin \<Rightarrow> sql_plugin \<Rightarrow> bool" where
  "appends p p' \<longleftrightarrow> (plugin_state p' = plugin_state p \<or> plugin_state p' = touch (plugin_state p)) \<and>
     the_filter (plugin_collector p') = None \<and> plugin_filter p' = plugin_filter p \<and>
     stash (currently_caching_data p') = stash (currently_caching_data p) \<and>
     (\<exists>d. items (currently_caching_data p') = items_append (items (currently_caching_data p)) d)"

lemma gathers_appends: "gathers e n nts p p' \<Longrightarrow> appends p p'"
  using gathers_frame[of e n nts p p'] gathers_rows[of e n nts p p'] unfolding appends_def by blast

lemma appends_trans:
  assumes "appends p p1" "appends p1 p2"
  shows "appends p p2"
proof -
  have "plugin_state p2 = plugin_state p \<or> plugin_state p2 = touch (plugin_state p)"
    using assms by (auto simp: appends_def)
  moreover have "\<exists>d. items (currently_caching_data p2) = items_append (items (currently_caching_data p)) d"
    using assms by (auto simp: appends_def items_append_assoc)
  ultimately show ?thesis using assms by (simp add: appends_def)
qed

lemma on_pre_apply_operation_appends:
  assumes "state_ok (plugin_state p)" "the_filter (plugin_collector p) = None"
    "on_pre_apply_operation e nt p = Some (Some err, p')"
  shows "appends p p'"
proof -
  let ?s = "touch (plugin_state p)" and ?op = "stored_operation e nt" and ?c = "currently_caching_data p"
  obtain err' col where c: "collect (impacted_accounts e) (to_operation_id e (note_block nt) (op_in_block_number p)) ?op (note_block nt)
      (plugin_collector p) = (err', col)" by fastforce
  have "p' = p \<or> p' = p\<lparr>plugin_state := ?s\<rparr> \<or> p' = p\<lparr>plugin_state := ?s, plugin_collector := col\<rparr>"
    using assms(3) c
    by (auto simp: on_pre_apply_operation_def can_collect_blocks_eq[OF assms(1)] Let_def simp flip: stored_operation_def
        split: if_splits option.splits)
  moreover have "appends p (p\<lparr>plugin_state := ?s, plugin_collector := col\<rparr>)"
  proof -
    obtain news rows where "the_filter col = None"
      "collector_cache col = ?c\<lparr>accounts := accounts ?c @ news, account_operations := account_operations ?c @ rows\<rparr>"
      using collect_places[OF c assms(2)] by (auto simp: currently_caching_data_def)
    then show ?thesis
      unfolding appends_def
      by (auto simp: currently_caching_data_def items_defs intro!: exI[of _ "items_empty\<lparr>accounts := news, account_operations := rows\<rparr>"])
  qed
  moreover have "\<exists>d. items ?c = items_append (items ?c) d" by (rule exI[of _ items_empty]) simp
  ultimately show ?thesis using assms(2) by (auto simp: appends_def currently_caching_data_def)
qed

lemma on_pre_apply_operation_blocked:
  "on_pre_apply_operation e nt p = Some (err, p') \<Longrightarrow> operations_blocked p' = operations_blocked p"
  by (auto simp: on_pre_apply_operation_def can_collect_blocks_def Let_def cache_operation_def split: if_splits option.splits prod.splits)

lemma notify_operations_appends:
  assumes "state_ok (plugin_state p)" "the_filter (plugin_collector p) = None" "\<not> filter_enabled (plugin_filter p)"
    "\<not> operations_blocked p" "notify_operations e nts p = Some (err, p')"
  shows "appends p p'"
  using assms
proof (induction nts arbitrary: p)
  case Nil
  then show ?case using gathers_appends[OF gathers_none[of p p e n "[]"]] by simp
next
  case (Cons nt nts)
  have op: "notify_pre_apply_operation e nt p = on_pre_apply_operation e nt p"
    using Cons.prems(4) by (simp add: notify_pre_apply_operation_def)
  obtain r where r: "on_pre_apply_operation e nt p = Some r"
    using Cons.prems(5) unfolding notify_operations.simps op by (cases "on_pre_apply_operation e nt p") auto
  show ?case
  proof (cases "fst r")
    case (Some x)
    then have "on_pre_apply_operation e nt p = Some (Some x, p')"
      using Cons.prems(5) r unfolding notify_operations.simps op by (cases r) simp
    then show ?thesis using on_pre_apply_operation_appends Cons.prems(1,2) by blast
  next
    case None
    then obtain p1 where p1: "on_pre_apply_operation e nt p = Some (None, p1)" using r by (cases r) auto
    have g: "gathers e (note_block nt) [nt] p p1" using on_pre_apply_operation_gathers[OF Cons.prems(1-3) refl p1] .
    have "state_ok (plugin_state p1)" "the_filter (plugin_collector p1) = None" "\<not> filter_enabled (plugin_filter p1)"
      using gathers_frame[OF g] Cons.prems(1,3) by auto
    moreover have "\<not> operations_blocked p1" using on_pre_apply_operation_blocked[OF p1] Cons.prems(4) by simp
    moreover have "notify_operations e nts p1 = Some (err, p')"
      using Cons.prems(5) p1 unfolding notify_operations.simps op by simp
    ultimately have "appends p1 p'" by (rule Cons.IH)
    then show ?thesis using gathers_appends[OF g] appends_trans by blast
  qed
qed

lemma failed_block_reverts:
  assumes "plugin_ok p" "interrupt_after (sync_env e) = None"
    "notify_pre_apply_block e n p = Some (None, p1)" "notify_operations e nts p1 = Some (err, p2)"
  shows "\<exists>p3. on_block_failed p2 = Some (None, p3) \<and> plugin_ok p3 \<and> plugin_rows p3 = plugin_rows p \<and>
    items (currently_caching_data p3) = items (currently_caching_data p) \<and> op_in_block_number p3 = op_in_block_number p2"
proof -
  note pre = notify_pre_apply_block_ok[OF assms(1-3)]
  have f: "the_filter (plugin_collector p1) = None" "\<not> filter_enabled (plugin_filter p1)"
    using pre(1) by (simp_all add: plugin_ok_def plugin_unfiltered_def)
  have app: "appends p1 p2"
    using notify_operations_appends[OF plugin_ok_state_ok[OF pre(1)] f pre(3) assms(4)] .
  then obtain d where d: "items (currently_caching_data p2) = items_append (items (currently_caching_data p)) d"
    using pre(5) by (auto simp: appends_def)
  have "stash (currently_caching_data p2) = stash (snapshot_current_sizes (currently_caching_data p))"
    using app pre(5) by (simp add: appends_def)
  from revert_append[OF this d] obtain c where c: "revert_to_snapshot (currently_caching_data p2) = Inr c"
    "items c = items (currently_caching_data p)" by blast
  let ?p = "block_operation_handlers (p2\<lparr>consecutive_block_failures := consecutive_block_failures p2 + 1\<rparr>)"
  have q: "currently_caching_data ?p = currently_caching_data p2" "plugin_state ?p = plugin_state p2"
    "the_filter (plugin_collector ?p) = None" "plugin_filter ?p = plugin_filter p1" "op_in_block_number ?p = op_in_block_number p2"
    using app by (simp_all add: block_operation_handlers_def currently_caching_data_def appends_def)
  then have failed: "on_block_failed p2 = Some (None, set_cache c ?p)" using c(1) by (simp add: on_block_failed_def Let_def)
  have "plugin_ok (set_cache c ?p)" "plugin_rows (set_cache c ?p) = plugin_rows p1"
    using plugin_ok_touched_items[OF pre(1), of "set_cache c ?p"] q app c(2) pre(5) by (simp_all add: appends_def)
  then show ?thesis using failed c(2) pre(2) q(5) by simp
qed


subsection \<open>A sample node\<close>

text \<open>A node that replays, with an empty cache.\<close>

definition sample_plugin_env :: plugin_env where
  "sample_plugin_env = \<lparr>sync_env = \<lparr>behind_us = 0, constraints_can_drop = (\<lambda>_. True), interrupt_after = None\<rparr>,
     processing_block = True, producing_block = False, is_effective_operation = (\<lambda>_. True), is_virtual_operation = (\<lambda>_. False),
     is_effective_comment_vote = (\<lambda>_. False), supplement_operation = (\<lambda>op. op), impacted_accounts = (\<lambda>_. ([], [])),
     to_operation_id = (\<lambda>n k. uint n * 100 + uint k), sizeof_block = 200, sizeof_transaction = 100, startup_result = None,
     vacuum_result = (\<lambda>_. None), custom_json_attempts = []\<rparr>"

definition sample_replay :: indexation_state where
  "sample_replay = \<lparr>psql_livesync_threshold = 0, psql_first_block = 1, psql_pruning_tail_size = 0, is_lite_mode = False,
     the_dumper = Some (Reindex_data_dumper False), the_trigger = Some Reindex_flush_trigger, irreversible_block_num = 0,
     prior_massive_sync_interrupted = False, psql_head_at_startup = 0, cached_state_value = None, db_sync_state = REINDEX,
     sync_answer = (\<lambda>_. Sync_committed), effects = []\<rparr>"

definition sample_plugin :: sql_plugin where
  "sample_plugin = \<lparr>plugin_last_block_num = 4, consecutive_block_failures = 0, plugin_first_block = 1, dumper_threads = 3,
     op_in_block_number = 0,
     plugin_collector = new_accounts_collector \<lparr>chain_accounts = Map.empty, operation_count = Map.empty\<rparr> empty_cached_data True None,
     plugin_filter = new_filter False, plugin_state = sample_replay, is_database_initialized = True,
     is_hfm_informed_about_starting = True, custom_json_cache = new_custom_json_type_cache, custom_json_types = [],
     operations_blocked = True, initialization_connected = False, plugin_effects = []\<rparr>"

definition sample_operation :: operation_notification where
  "sample_operation = \<lparr>note_op = \<lparr>op_which = 2, op_payload = Other_operation, op_packed = ''t''\<rparr>, note_block = 5,
     note_trx_in_block = 0, note_op_in_trx = 0\<rparr>"

definition sample_block :: block_notification where
  "sample_block = \<lparr>note_block_num = 5, note_block_id = ''b'', note_prev_block_id = ''a'', note_timestamp = 15,
     note_transaction_merkle_root = [], note_extensions = None, note_witness_signature = [],
     note_transactions = [\<lparr>full_trx_id = ''x'', full_ref_block_num = 4, full_ref_block_prefix = 0, full_expiration = 20,
       full_signatures = [''s1'', ''s2''], full_rc_cost = 9\<rparr>],
     producer_account = Some 3, producer_signing_key = Some ''k'', dgpo_hbd_interest_rate = 0, dgpo_total_vesting_shares = 0,
     dgpo_total_vesting_fund_hive = 0, has_hardfork_17 = False, reward_balance = 0, dgpo_virtual_supply = 0,
     dgpo_current_supply = 0, dgpo_current_hbd_supply = 0, dgpo_initial_hbd_supply = 0\<rparr>"

lemmas sample_plugin_defs = sample_plugin_def sample_replay_def sample_plugin_env_def sample_operation_def sample_block_def

lemmas plugin_eval = notify_block_def notify_pre_apply_block_def unblock_operation_handlers_def notify_pre_apply_operation_def
  on_pre_apply_operation_def can_collect_blocks_def collect_blocks_def get_state_def indexation_value_def COLLECT_BLOCKS_MASK_def
  collect_def on_collect_def visit_def is_op_accepted_def cache_operation_def get_hardfork_id_def remember_trx_id_def
  notify_post_apply_block_def on_post_apply_block_def post_apply_block_def is_trx_accepted_def cache_block_def
  flush_custom_json_def flush_pending_def with_outcome_def trigger_data_flush_def BLOCKS_PER_FLUSH_def vacuum_queries_def
  clear_filter_def block_operation_handlers_def set_cache_def currently_caching_data_def new_accounts_collector_def
  new_filter_def new_custom_json_type_cache_def empty_cached_data_def snapshot_current_sizes_def Let_def

lemma sample_pre:
  "\<exists>p1 p2. notify_pre_apply_block sample_plugin_env 5 sample_plugin = Some (None, p1) \<and>
     notify_operations sample_plugin_env [sample_operation] p1 = Some (None, p2) \<and> collecting (db_sync_state (plugin_state p1))
     \<and> op_in_block_number p2 = 1"
  by (simp add: plugin_eval sample_plugin_defs collecting_def)

lemma sample_plugin_ok: "plugin_ok sample_plugin" "op_in_block_number sample_plugin = 0" "interrupt_after (sync_env sample_plugin_env) = None"
  "blocks (currently_caching_data sample_plugin) = []"
  by (simp_all add: plugin_ok_def plugin_unfiltered_def machine_ok_def sample_plugin_defs state_ok_def new_filter_def new_accounts_collector_def
      currently_caching_data_def empty_cached_data_def items_defs items_ok_def items_covered_def ordered_items_def block_nums_def ex_bool_eq)

lemma sample_applied:
  "\<exists>p'. notify_block sample_plugin_env sample_block [sample_operation] sample_plugin = Some (None, p') \<and>
     collecting (db_sync_state (plugin_state p'))"
  by (simp add: plugin_eval sample_plugin_defs collecting_def)

lemma sample_retry:
  "\<exists>p1 p2 p3 p'. notify_pre_apply_block sample_plugin_env 5 sample_plugin = Some (None, p1) \<and>
     notify_operations sample_plugin_env [sample_operation] p1 = Some (None, p2) \<and> collecting (db_sync_state (plugin_state p1)) \<and>
     on_block_failed p2 = Some (None, p3) \<and>
     notify_block sample_plugin_env sample_block [sample_operation] p3 = Some (None, p') \<and>
     collecting (db_sync_state (plugin_state p'))"
  by (simp add: plugin_eval on_block_failed_def revert_to_snapshot_def erase_from_def sample_plugin_defs collecting_def)


subsection \<open>Properties\<close>

text \<open>C3: In a node outside lite mode that uses no filter and gets no stop request, a block the plugin has applied without an
  exception is kept completely: in a collecting state the rows dumped or cached grow by the rows of exactly this block, one per
  transaction and further signature, one per effective operation with ids counted from the position counter, and the counter is
  back at zero; otherwise the rows do not change.  The block is newer than the cached ones, and its operations carry its number.\<close>

theorem applied_block_is_kept_completely:
  assumes "machine_ok (plugin_state p) (currently_caching_data p)" "\<not> is_lite_mode (plugin_state p)"
    "the_filter (plugin_collector p) = None" "\<not> filter_enabled (plugin_filter p)" "interrupt_after (sync_env e) = None"
    "0 < sint (note_block_num note)"
    "\<forall>b \<in> set (block_nums (blocks (currently_caching_data p))). b < sint (note_block_num note)"
    "\<forall>nt \<in> set nts. note_block nt = note_block_num note" "notify_block e note nts p = Some (None, p')"
  shows "machine_ok (plugin_state p') (currently_caching_data p') \<and> plugin_unfiltered p' \<and>
    (if collecting (db_sync_state (plugin_state p'))
     then op_in_block_number p' = 0 \<and>
       (\<exists>rows. plugin_rows p' = items_append (plugin_rows p) rows \<and> block_rows e note (op_in_block_number p) nts rows)
     else plugin_rows p' = plugin_rows p)"
proof -
  have "plugin_ok p" using assms(1,3,4) by (simp add: plugin_ok_def plugin_unfiltered_def)
  from notify_block_rows[OF this assms(5-9)] show ?thesis by (auto simp: plugin_ok_def)
qed

text \<open>C21: In a node outside lite mode without a filter and without a stop request: when a block fails while its operations are applied, whether an operation handler of the plugin has thrown or not,
  the handler of the failure succeeds and leaves no row of the block behind: the cache has the rows from before the block.\<close>

theorem failed_block_leaves_no_rows:
  assumes "plugin_ok p" "interrupt_after (sync_env e) = None"
    "notify_pre_apply_block e n p = Some (None, p1)" "notify_operations e nts p1 = Some (err, p2)"
  shows "\<exists>p3. on_block_failed p2 = Some (None, p3) \<and> plugin_ok p3 \<and> plugin_rows p3 = plugin_rows p \<and>
    items (currently_caching_data p3) = items (currently_caching_data p)"
  using failed_block_reverts[OF assms] by blast

text \<open>C35: In a node outside lite mode without a filter and without a stop request: the handler of a failed block does not reset the position counter: when a block has failed after its
  operations were seen, the operation ids of the next applied block start behind those of the failed one instead of at
  position zero.\<close>

theorem block_after_failure_has_shifted_ids:
  assumes "plugin_ok p" "interrupt_after (sync_env e) = None" "op_in_block_number p = 0" "\<forall>nt \<in> set nts. note_block nt = n"
    "notify_pre_apply_block e n p = Some (None, p1)" "notify_operations e nts p1 = Some (None, p2)"
    "collecting (db_sync_state (plugin_state p1))" "on_block_failed p2 = Some (None, p3)"
    "0 < sint (note_block_num note)" "\<forall>b \<in> set (block_nums (blocks (currently_caching_data p))). b < sint (note_block_num note)"
    "\<forall>nt \<in> set nts'. note_block nt = note_block_num note" "notify_block e note nts' p3 = Some (None, p')"
    "collecting (db_sync_state (plugin_state p'))"
  shows "\<exists>rows. plugin_rows p' = items_append (plugin_rows p) rows \<and>
    block_rows e note (of_nat (length (op_keys e n 0 nts))) nts' rows"
proof -
  have p3: "plugin_ok p3" "plugin_rows p3 = plugin_rows p" "op_in_block_number p3 = op_in_block_number p2"
    "items (currently_caching_data p3) = items (currently_caching_data p)"
    using failed_block_reverts[OF assms(1,2,5,6)] assms(8) by auto
  have "op_in_block_number p2 = of_nat (length (op_keys e n 0 nts))"
    using gathers_frame(5)[OF notify_block_phases(6)[OF assms(1,2,4-6)]] assms(3,7) notify_block_phases(3)[OF assms(1,2,4-6)] by simp
  moreover have "\<forall>b \<in> set (block_nums (blocks (currently_caching_data p3))). b < sint (note_block_num note)"
    using assms(10) arg_cong[OF p3(4), of blocks] by simp
  ultimately show ?thesis
    using notify_block_rows[OF p3(1) assms(2,9) _ assms(11,12)] assms(13) p3(2,3) by simp
qed

theorem applied_block_is_kept_completely_witness:
  "\<exists>p' rows. notify_block sample_plugin_env sample_block [sample_operation] sample_plugin = Some (None, p') \<and>
     op_in_block_number p' = 0 \<and> plugin_rows p' = items_append (plugin_rows sample_plugin) rows \<and>
     block_rows sample_plugin_env sample_block 0 [sample_operation] rows"
proof -
  obtain p' where p': "notify_block sample_plugin_env sample_block [sample_operation] sample_plugin = Some (None, p')"
    "collecting (db_sync_state (plugin_state p'))" using sample_applied by blast
  have "0 < sint (note_block_num sample_block)" "note_block sample_operation = note_block_num sample_block"
    by (simp_all add: sample_plugin_defs)
  then show ?thesis
    using applied_block_is_kept_completely[OF _ _ _ _ sample_plugin_ok(3) _ _ _ p'(1)] p' sample_plugin_ok
    by (simp add: block_nums_def plugin_ok_def plugin_unfiltered_def machine_ok_def)
qed

theorem failed_block_leaves_no_rows_witness:
  "\<exists>p1 p2 p3. notify_pre_apply_block sample_plugin_env 5 sample_plugin = Some (None, p1) \<and>
     notify_operations sample_plugin_env [sample_operation] p1 = Some (None, p2) \<and>
     on_block_failed p2 = Some (None, p3) \<and> plugin_ok p3 \<and> plugin_rows p3 = plugin_rows sample_plugin"
proof -
  obtain p1 p2 where p: "notify_pre_apply_block sample_plugin_env 5 sample_plugin = Some (None, p1)"
    "notify_operations sample_plugin_env [sample_operation] p1 = Some (None, p2)" using sample_retry by blast
  then show ?thesis using failed_block_leaves_no_rows[OF sample_plugin_ok(1,3) p] by blast
qed

theorem block_after_failure_has_shifted_ids_witness:
  "\<exists>p1 p2 p3 p' rows. notify_pre_apply_block sample_plugin_env 5 sample_plugin = Some (None, p1) \<and>
     notify_operations sample_plugin_env [sample_operation] p1 = Some (None, p2) \<and> on_block_failed p2 = Some (None, p3) \<and>
     notify_block sample_plugin_env sample_block [sample_operation] p3 = Some (None, p') \<and>
     plugin_rows p' = items_append (plugin_rows sample_plugin) rows \<and> map operation_id (operations rows) = [501]"
proof -
  obtain p1 p2 p3 p' where p: "notify_pre_apply_block sample_plugin_env 5 sample_plugin = Some (None, p1)"
    "notify_operations sample_plugin_env [sample_operation] p1 = Some (None, p2)" "collecting (db_sync_state (plugin_state p1))"
    "on_block_failed p2 = Some (None, p3)"
    "notify_block sample_plugin_env sample_block [sample_operation] p3 = Some (None, p')"
    "collecting (db_sync_state (plugin_state p'))" using sample_retry by blast
  have s: "0 < sint (note_block_num sample_block)" "\<forall>nt \<in> set [sample_operation]. note_block nt = note_block_num sample_block"
    "\<forall>nt \<in> set [sample_operation]. note_block nt = 5"
    "\<forall>b \<in> set (block_nums (blocks (currently_caching_data sample_plugin))). b < sint (note_block_num sample_block)"
    using sample_plugin_ok(4) by (simp_all add: sample_plugin_defs block_nums_def)
  obtain rows where rows: "plugin_rows p' = items_append (plugin_rows sample_plugin) rows"
    "block_rows sample_plugin_env sample_block (of_nat (length (op_keys sample_plugin_env 5 0 [sample_operation]))) [sample_operation] rows"
    using block_after_failure_has_shifted_ids[OF sample_plugin_ok(1,3,2) s(3) p(1-4) s(1,4,2) p(5,6)] by blast
  have "map fst (map op_key (operations rows)) = [501]"
    using rows(2) by (simp add: block_rows_def) (simp add: sample_plugin_defs)
  then have "map operation_id (operations rows) = [501]" by (simp add: op_key_def comp_def)
  then show ?thesis
    using p(1,2,4,5) rows(1) by (intro exI[of _ p1] exI[of _ p2] exI[of _ p3] exI[of _ p'] exI[of _ rows] conjI)
qed

end
