(* ===== verification/Sync_Properties.thy ===== *)
theory Sync_Properties
  imports Sync_Safety
begin

text \<open>
  The properties of the synchronisation state machine, over the runs of theory \<open>Sync_Safety\<close>, and the
  behaviour of lite mode, in which only irreversible blocks are written.
\<close>

definition sample_env :: env where
  "sample_env = \<lparr>behind_us = 90000000000, constraints_can_drop = (\<lambda>_. True), interrupt_after = None\<rparr>"

definition sample_machine :: indexation_state where
  "sample_machine = set_state START
     \<lparr>psql_livesync_threshold = 0, psql_first_block = 1, psql_pruning_tail_size = 0, is_lite_mode = False,
      the_dumper = None, the_trigger = None, irreversible_block_num = NO_IRREVERSIBLE_BLOCK,
      prior_massive_sync_interrupted = False, psql_head_at_startup = 0, cached_state_value = None,
      db_sync_state = START, sync_answer = (\<lambda>_. Sync_committed), effects = []\<rparr>"

definition sample_block_row :: "int \<Rightarrow> process_block_t" where
  "sample_block_row n = \<lparr>block_number = n, hash = [], created_at = 0, prev_hash = [], producer_account_id = 3,
     transaction_merkle_root = [], extensions = None, witness_signature = [], signing_key = [],
     hbd_interest_rate = 0, total_vesting_shares = 0, total_vesting_fund_hive = 0,
     total_reward_fund_hive = 0, virtual_supply = 0, current_supply = 0, current_hbd_supply = 0,
     dhf_interval_ledger = 0\<rparr>"

definition sample_rows_of :: "int \<Rightarrow> cached_items" where
  "sample_rows_of n = items_empty\<lparr>blocks := [sample_block_row n]\<rparr>"

text \<open>The sample machine after block 1: it is in P2P and caches the block.\<close>

definition sample_p2p :: indexation_state where
  "sample_p2p = fst (snd (the (apply_block sample_env 1 (sample_rows_of 1) sample_machine empty_cached_data)))"

lemmas machine_eval = sample_p2p_def apply_block_def on_block_def on_first_block_def get_state_def sample_machine_def
  sample_env_def update_state_def enter_waiting_def enter_p2p_def force_trigger_flush_with_all_data_def
  reset_dumper_def transition_defs can_move_to_livesync_def collect_blocks_def indexation_value_def
  COLLECT_BLOCKS_MASK_def trigger_data_flush_def p2p_flush_def expected_number_of_blocks_to_sync_def
  NO_IRREVERSIBLE_BLOCK_def

lemma sample_apply_block:
  "apply_block sample_env 1 (sample_rows_of 1) sample_machine empty_cached_data =
     Some (None, sample_p2p, append_items empty_cached_data (sample_rows_of 1))"
  "db_sync_state sample_p2p = P2P"
  by (simp_all add: machine_eval empty_cached_data_def)

lemma sample_fits: "block_fits 1 (sample_rows_of 1) empty_cached_data"
  by (simp add: block_fits_def single_block_def sample_rows_of_def sample_block_row_def items_covered_def
      items_empty_def empty_cached_data_def block_nums_def)

lemma sample_new:
  "new_indexation_state 0 1 0 False False 0 START (\<lambda>_. Sync_committed) = Inr sample_machine"
  by (simp add: new_indexation_state_def sample_machine_def)

lemma sample_reachable:
  "sync_reachable (sample_machine, empty_cached_data, items_empty)
     (sample_p2p, append_items empty_cached_data (sample_rows_of 1), sample_rows_of 1)"
proof -
  have "sync_step sample_env (sample_machine, empty_cached_data, items_empty)
      (sample_p2p, append_items empty_cached_data (sample_rows_of 1), sample_rows_of 1)"
    using sync_step.block[OF sample_fits sample_apply_block(1), of items_empty] sample_apply_block(2)
    by (simp add: collecting_def)
  moreover have "interrupt_after sample_env = None" by (simp add: sample_env_def)
  ultimately show ?thesis by (blast intro: sync_reachable.intros)
qed

text \<open>C2: Whatever sequence of blocks, irreversibility events, forks and state changes (replay, P2P
  synchronisation, LIVE) a node outside lite mode goes through without an error and without a stop
  request, forks not reaching below a block written as irreversible, the rows its dumpers were given
  followed by the rows still cached are exactly the rows it collected, in order: no collected row is
  lost, duplicated or reordered.  Once in LIVE, all collected rows have been written.\<close>

theorem collected_rows_are_written_once:
  assumes "new_indexation_state threshold first pruning False interrupted head db answer = Inr s0"
    "sync_reachable (s0, empty_cached_data, items_empty) (s, c, all)"
  shows "items_append (dumped (effects s)) (items c) = all \<and> (db_sync_state s = LIVE \<longrightarrow> dumped (effects s) = all)"
proof -
  have "machine_ok s c" "total_rows s c = all"
    using sync_reachable_inv[OF assms(2) new_indexation_state_ok[OF assms(1)]] by (auto simp: sync_inv_def)
  then show ?thesis by (auto simp: machine_ok_def total_rows_def)
qed

theorem collected_rows_are_written_once_witness:
  "items_append (dumped (effects sample_p2p)) (items (append_items empty_cached_data (sample_rows_of 1))) = sample_rows_of 1"
  using collected_rows_are_written_once[OF sample_new sample_reachable] by simp



text \<open>What becomes of the first block after an interrupted massive synchronisation.\<close>

definition resumes_or_stops :: "indexation_state \<Rightarrow> int \<Rightarrow> outcome option \<Rightarrow> bool" where
  "resumes_or_stops s n r \<longleftrightarrow> (\<exists>err s' c'. r = Some (err, s', c') \<and> dumped (effects s') = dumped (effects s) \<and>
    (if word_of_int n = psql_head_at_startup s + 1 then err = None \<and> db_sync_state s' = P2P
     else err \<noteq> None \<and> db_sync_state s' = WAIT \<and> Kill_node \<in> set (effects s')))"

lemma waiting_interrupted:
  assumes "machine_ok w empty_cached_data" "db_sync_state w = WAIT" "prior_massive_sync_interrupted w"
    "\<not> can_move_to_livesync e w" "interrupt_after e = None"
  shows "resumes_or_stops w n (on_first_block e w n)"
proof -
  let ?w = "w\<lparr>cached_state_value := Some (db_sync_state w)\<rparr>"
  have ok: "state_ok w" using assms(1) by (simp add: machine_ok_def)
  have m: "machine_ok ?w empty_cached_data" and ok': "state_ok ?w" using assms(1) ok by simp_all
  have eq: "on_first_block e w n = update_state e P2P (word_of_int n) UNKNOWN ?w empty_cached_data"
    using assms(2,4) by (simp add: on_first_block_def get_state_ok[OF ok] can_move_to_livesync_def)
  show ?thesis
  proof (cases "word_of_int n = psql_head_at_startup w + 1")
    case True
    have "succeeding ?w empty_cached_data P2P (on_first_block e w n)"
      unfolding eq using m assms(2,5) True by (intro update_state_succeeds) (auto simp: refused_def)
    then show ?thesis using True by (auto simp: succeeding_def failing_def total_rows_def resumes_or_stops_def)
  next
    case False
    then have "refused ?w P2P (word_of_int n)" using assms(2,3) by (simp add: refused_def)
    then show ?thesis
      unfolding eq using update_state_refused[OF ok'] False assms(2)
      by (simp add: emit_def dumped_append resumes_or_stops_def)
  qed
qed

text \<open>C22: After an interrupted massive synchronisation, the block that would start a P2P synchronisation
  is accepted exactly when it follows the last block in the database; otherwise the node is asked to
  stop, P2P is not entered and nothing is written, so that no block is written twice and no gap
  opens.\<close>

theorem interrupted_sync_resumes_only_after_head:
  assumes "machine_ok s c" "db_sync_state s = START \<or> db_sync_state s = WAIT" "prior_massive_sync_interrupted s"
    "\<not> can_move_to_livesync e s" "psql_first_block s \<le> word_of_int n" "interrupt_after e = None"
  shows "resumes_or_stops s n (on_block e s n)"
proof -
  have ok: "state_ok s" using assms(1) by (simp add: machine_ok_def)
  let ?s = "s\<lparr>cached_state_value := Some (db_sync_state s)\<rparr>"
  have empty: "machine_ok ?s empty_cached_data" using waiting_empty(2)[OF assms(1)] assms(2) ok by auto
  show ?thesis
  proof (cases "db_sync_state s = WAIT")
    case True
    have "on_block e s n = on_first_block e ?s n"
      using True assms(5) by (simp add: on_block_def get_state_ok[OF ok])
    then show ?thesis
      using waiting_interrupted[OF empty _ _ _ assms(6)] True assms(3,4)
      by (simp add: can_move_to_livesync_def resumes_or_stops_def)
  next
    case False
    then have start: "db_sync_state s = START" using assms(2) by simp
    obtain w where up: "update_state e WAIT (word_of_int n) UNKNOWN (s\<lparr>cached_state_value := Some START\<rparr>) empty_cached_data =
        Some (None, w, empty_cached_data)"
      and w: "machine_ok w empty_cached_data" "db_sync_state w = WAIT" "dumped (effects w) = dumped (effects s)"
        "prior_massive_sync_interrupted w = prior_massive_sync_interrupted s" "psql_first_block w = psql_first_block s"
        "psql_livesync_threshold w = psql_livesync_threshold s" "psql_head_at_startup w = psql_head_at_startup s"
      using start_to_wait[OF assms(1) start assms(6), of "word_of_int n"] by metis
    have "on_block e s n = on_first_block e w n"
      using start assms(5) w(5) by (simp add: on_block_def get_state_ok[OF ok] up)
    then show ?thesis
      using waiting_interrupted[OF w(1,2) _ _ assms(6)] w(3,4,6,7) assms(3,4)
      by (simp add: can_move_to_livesync_def resumes_or_stops_def)
  qed
qed

theorem interrupted_sync_resumes_only_after_head_witness:
  "resumes_or_stops (sample_machine\<lparr>prior_massive_sync_interrupted := True, psql_head_at_startup := 40\<rparr>) 39
     (on_block sample_env (sample_machine\<lparr>prior_massive_sync_interrupted := True, psql_head_at_startup := 40\<rparr>) 39)"
proof (rule interrupted_sync_resumes_only_after_head)
  show "machine_ok (sample_machine\<lparr>prior_massive_sync_interrupted := True, psql_head_at_startup := 40\<rparr>) empty_cached_data"
    by (simp add: machine_ok_def sample_machine_def transition_defs state_ok_def no_dumper_def)
qed (simp_all add: sample_machine_def transition_defs can_move_to_livesync_def sample_env_def)


subsection \<open>Lite mode\<close>

lemma irreversible_split:
  assumes "items_ok (items c)" "0 < irr" "irr < 2 ^ 31 - 1"
  shows "items (fst (move_irreveresible_blocks c (word_of_int irr))) = items_filter (\<lambda>m. m \<le> irr) (items c)"
    "items (snd (move_irreveresible_blocks c (word_of_int irr))) = items_filter (\<lambda>m. \<not> m \<le> irr) (items c)"
proof -
  have sint: "sint (word_of_int irr :: u32) = irr" using assms(2,3) by (simp add: sint_word_of_int_u32)
  have "(word_of_int irr :: u32) \<noteq> word_of_int NO_IRREVERSIBLE_BLOCK"
    using assms(3) sint sint_word_of_int_u32[of NO_IRREVERSIBLE_BLOCK] by (auto simp: NO_IRREVERSIBLE_BLOCK_def)
  then show "items (fst (move_irreveresible_blocks c (word_of_int irr))) = items_filter (\<lambda>m. m \<le> irr) (items c)"
    "items (snd (move_irreveresible_blocks c (word_of_int irr))) = items_filter (\<lambda>m. \<not> m \<le> irr) (items c)"
    using move_all_items_upto_block_spec[OF assms(1)] sint by (simp_all add: move_irreveresible_blocks_def)
qed

text \<open>A state of lite mode with the dumper of the given kind.\<close>

definition lite_machine :: "indexation_state \<Rightarrow> INDEXATION \<Rightarrow> cached_data_t \<Rightarrow> bool" where
  "lite_machine s st c \<longleftrightarrow> state_ok s \<and> is_lite_mode s \<and> db_sync_state s = st
     \<and> items_ok (items c) \<and> items_covered (items c)
     \<and> 0 < irreversible_block_num s \<and> irreversible_block_num s < 2 ^ 31 - 1"

lemma lite_move_irreversible:
  assumes "lite_machine s st c" "the_dumper s = Some d" "dumper_contract d accepts"
    "\<forall>es. accepts (sync_answer s es) (items_filter (\<lambda>m. m \<le> irreversible_block_num s) (items c))"
  shows "flushed s (items_filter (\<lambda>m. m \<le> irreversible_block_num s) (items c))
    (items_filter (\<lambda>m. \<not> m \<le> irreversible_block_num s) (items c)) (move_irreversible_blocks s c)"
proof -
  let ?irr = "irreversible_block_num s"
  let ?p = "move_irreveresible_blocks c (word_of_int ?irr)"
  have ok: "items_ok (items c)" "items_covered (items c)" "0 < ?irr" "?irr < 2 ^ 31 - 1" "state_ok s"
    using assms(1) by (auto simp: lite_machine_def)
  note p = irreversible_split[OF ok(1,3,4)]
  have cov: "items_covered (items (fst ?p))" unfolding p using ok(2) by (rule items_covered_filter)
  have "flushed s (items (fst ?p)) (items (snd ?p)) (flush_part s ?p ?irr)"
    by (rule dumper_contract.part_flushed[OF assms(3) ok(5) assms(2) cov]) (use assms(4) p(1) in simp)
  then show ?thesis unfolding move_irreversible_blocks_def p .
qed

text \<open>C34: In lite mode, entering LIVE from P2P writes the irreversible rows of the cache and drops all
  others, if the database accepts the flush: a block that is not yet irreversible at that moment is
  neither written nor cached any more, so it is missing from the database although the node keeps it.\<close>

theorem lite_live_entry_drops_reversible_rows:
  assumes "lite_machine s P2P c" "the_dumper s = Some (Reindex_data_dumper sync)" "sync \<longrightarrow> (\<forall>es. sync_answer s es = Sync_committed)"
  shows "\<exists>s' c'. on_end_of_syncing e s c n = Some (None, s', c') \<and> db_sync_state s' = LIVE
    \<and> dumped (effects s') = items_append (dumped (effects s)) (items_filter (\<lambda>m. m \<le> irreversible_block_num s) (items c))
    \<and> items c' = items_empty"
proof -
  let ?s = "s\<lparr>cached_state_value := Some P2P\<rparr>"
  have ok: "state_ok s" "db_sync_state s = P2P" "is_lite_mode s" using assms(1) by (auto simp: lite_machine_def)
  have ok': "state_ok ?s" using ok(2) by (simp add: state_ok_def)
  have l: "lite_machine ?s P2P c" using assms(1) ok' by (simp add: lite_machine_def)
  have "flushed ?s (items_filter (\<lambda>m. m \<le> irreversible_block_num s) (items c))
    (items_filter (\<lambda>m. \<not> m \<le> irreversible_block_num s) (items c)) (move_irreversible_blocks ?s c)"
    using lite_move_irreversible[OF l _ reindex.dumper_contract_axioms[of sync]] assms(2,3) by simp
  then obtain s1 c1 where f: "move_irreversible_blocks ?s c = (None, s1, c1)"
    "dumped (effects s1) = items_append (dumped (effects s)) (items_filter (\<lambda>m. m \<le> irreversible_block_num s) (items c))"
    "is_lite_mode s1"
    by (rule flushed_cases) (use ok(3) in simp)
  have get: "get_state s = (P2P, ?s)" "get_state ?s = (P2P, ?s)"
    using get_state_ok[OF ok(1)] get_state_ok[OF ok'] ok(2) by simp_all
  show ?thesis
    using f by (simp add: on_end_of_syncing_def update_state_def enter_live_def get transition_defs)
qed

definition sample_lite :: indexation_state where
  "sample_lite = sample_machine\<lparr>is_lite_mode := True, db_sync_state := P2P, irreversible_block_num := 6,
     the_dumper := Some (Reindex_data_dumper False), the_trigger := Some (P2p_flush_trigger 0)\<rparr>"

definition sample_lite_cache :: cached_data_t where
  "sample_lite_cache = empty_cached_data\<lparr>blocks := [sample_block_row 5, sample_block_row 6, sample_block_row 7]\<rparr>"

lemma sample_lite_machine:
  "lite_machine sample_lite P2P sample_lite_cache"
  "lite_machine (sample_lite\<lparr>db_sync_state := LIVE, the_dumper := Some Livesync_data_dumper\<rparr>) LIVE sample_lite_cache"
  by (simp_all add: lite_machine_def sample_lite_def sample_lite_cache_def sample_machine_def transition_defs state_ok_def
      items_ok_def items_covered_def items_defs ordered_items_def block_nums_def sample_block_row_def empty_cached_data_def)

theorem lite_live_entry_drops_reversible_rows_witness:
  "\<exists>s' c'. on_end_of_syncing sample_env sample_lite sample_lite_cache 7 = Some (None, s', c') \<and> db_sync_state s' = LIVE
    \<and> dumped (effects s') = items_append (dumped (effects sample_lite))
        (items_filter (\<lambda>m. m \<le> irreversible_block_num sample_lite) (items sample_lite_cache))
    \<and> items c' = items_empty"
  by (rule lite_live_entry_drops_reversible_rows[OF sample_lite_machine(1), of False]) (simp_all add: sample_lite_def)

text \<open>C29: In LIVE of lite mode the flush after a block ends and writes exactly the cached blocks that have
  become irreversible, one command per block, and keeps the others.\<close>

theorem lite_live_flush_writes_irreversible:
  assumes "lite_machine s LIVE c" "the_dumper s = Some Livesync_data_dumper" "the_trigger s = Some Lite_live_flush_trigger"
  shows "\<exists>s' c'. trigger_data_flush s c n = Some (None, s', c')
    \<and> dumped (effects s') = items_append (dumped (effects s)) (items_filter (\<lambda>m. m \<le> irreversible_block_num s) (items c))
    \<and> items c' = items_filter (\<lambda>m. \<not> m \<le> irreversible_block_num s) (items c)"
proof -
  let ?irr = "irreversible_block_num s"
  have ok: "items_ok (items c)" "items_covered (items c)" "0 < ?irr" "?irr < 2 ^ 31 - 1" "state_ok s"
    using assms(1) by (auto simp: lite_machine_def)
  have irr: "uint (word_of_int ?irr :: u32) = ?irr" "?irr \<noteq> NO_IRREVERSIBLE_BLOCK"
    using ok(3,4) by (simp_all add: take_bit_int_eq_self unsigned_of_int NO_IRREVERSIBLE_BLOCK_def)
  have less: "uint (word_of_int ?irr :: u32) < 2 ^ 31" using irr(1) ok(4) by simp
  obtain r where r: "lite_live_flush (word_of_int ?irr) s c = Some r"
    "flushed s (items_filter (\<lambda>m. m \<le> ?irr) (items c)) (items_filter (\<lambda>m. \<not> m \<le> ?irr) (items c)) r"
    using livesync.lite_live_flushed[OF ok(5) assms(2) ok(1,2) less] unfolding irr(1) by blast
  obtain s' c' where "r = (None, s', c')" "items c' = items_filter (\<lambda>m. \<not> m \<le> ?irr) (items c)"
    "dumped (effects s') = items_append (dumped (effects s)) (items_filter (\<lambda>m. m \<le> ?irr) (items c))"
    using flushed_cases[OF r(2)] by metis
  then show ?thesis using r(1) irr(2) assms(3) by (simp add: trigger_data_flush_def)
qed

theorem lite_live_flush_writes_irreversible_witness:
  "\<exists>s' c'. trigger_data_flush (sample_lite\<lparr>db_sync_state := LIVE, the_dumper := Some Livesync_data_dumper,
        the_trigger := Some Lite_live_flush_trigger\<rparr>) sample_lite_cache 7 = Some (None, s', c')
    \<and> dumped (effects s') = items_append (dumped (effects (sample_lite\<lparr>db_sync_state := LIVE,
          the_dumper := Some Livesync_data_dumper, the_trigger := Some Lite_live_flush_trigger\<rparr>)))
        (items_filter (\<lambda>m. m \<le> irreversible_block_num (sample_lite\<lparr>db_sync_state := LIVE,
          the_dumper := Some Livesync_data_dumper, the_trigger := Some Lite_live_flush_trigger\<rparr>)) (items sample_lite_cache))
    \<and> items c' = items_filter (\<lambda>m. \<not> m \<le> irreversible_block_num (sample_lite\<lparr>db_sync_state := LIVE,
          the_dumper := Some Livesync_data_dumper, the_trigger := Some Lite_live_flush_trigger\<rparr>)) (items sample_lite_cache)"
proof (rule lite_live_flush_writes_irreversible)
  show "lite_machine (sample_lite\<lparr>db_sync_state := LIVE, the_dumper := Some Livesync_data_dumper,
      the_trigger := Some Lite_live_flush_trigger\<rparr>) LIVE sample_lite_cache"
    using sample_lite_machine(2) by (simp add: lite_machine_def state_ok_def)
qed simp_all

text \<open>At shutdown in LIVE of lite mode with more than one cached irreversible block, the flush of the
  irreversible blocks violates the assertion of the live dumper and writes nothing; the irreversible
  blocks are already out of the cache.\<close>

theorem lite_shutdown_loses_irreversible_rows:
  assumes "lite_machine s LIVE c" "the_dumper s = Some Livesync_data_dumper"
    "1 < length (filter (\<lambda>b. block_number b \<le> irreversible_block_num s) (blocks c))"
  shows "\<exists>s' c'. flush_all_cached_data s c n =
      (Some (Assert_failed ''LIVE sync can only process one block''), s', c')
    \<and> dumped (effects s') = dumped (effects s)
    \<and> items c' = items_filter (\<lambda>m. \<not> m \<le> irreversible_block_num s) (items c)"
proof -
  let ?irr = "irreversible_block_num s" and ?s = "s\<lparr>cached_state_value := Some LIVE\<rparr>"
  let ?p = "move_irreveresible_blocks c (word_of_int ?irr)"
  have ok: "items_ok (items c)" "0 < ?irr" "?irr < 2 ^ 31 - 1" "state_ok s" "db_sync_state s = LIVE"
    using assms(1) by (auto simp: lite_machine_def)
  note p = irreversible_split[OF ok(1-3)]
  have "blocks (fst ?p) = filter (\<lambda>b. block_number b \<le> ?irr) (blocks c)"
    using arg_cong[OF p(1), of blocks] by (simp add: items_filter_def comp_def)
  then have len: "1 < length (blocks (fst ?p))" using assms(3) by simp
  then have ne: "blocks (fst ?p) \<noteq> []" by auto
  have get: "get_state s = (LIVE, ?s)" using get_state_ok[OF ok(4)] ok(5) by simp
  have ok': "state_ok ?s" using ok(5) by (simp add: state_ok_def)
  obtain v es where w: "wait_for_contexts ?s = ?s\<lparr>cached_state_value := v, effects := effects s @ es\<rparr>" "dumped es = items_empty"
    using wait_for_contexts_frame[OF ok'] by auto
  show ?thesis
    using len ne w assms(2) p(2)
    by (simp add: flush_all_cached_data_def get move_irreversible_blocks_def flush_part_def
        force_trigger_flush_with_all_data_def dumper_flush_def massive_flush_def dumped_append)
qed

theorem lite_shutdown_loses_irreversible_rows_witness:
  "\<exists>s' c'. flush_all_cached_data (sample_lite\<lparr>db_sync_state := LIVE, the_dumper := Some Livesync_data_dumper\<rparr>)
        sample_lite_cache 7 = (Some (Assert_failed ''LIVE sync can only process one block''), s', c')
    \<and> dumped (effects s') = dumped (effects (sample_lite\<lparr>db_sync_state := LIVE, the_dumper := Some Livesync_data_dumper\<rparr>))
    \<and> items c' = items_filter (\<lambda>m. \<not> m \<le> irreversible_block_num (sample_lite\<lparr>db_sync_state := LIVE,
        the_dumper := Some Livesync_data_dumper\<rparr>)) (items sample_lite_cache)"
  by (rule lite_shutdown_loses_irreversible_rows[OF sample_lite_machine(2)])
    (simp_all add: sample_lite_def sample_lite_cache_def sample_block_row_def)

end
