(* ===== verification/Rendezvous.thy ===== *)
theory Rendezvous
  imports HafPrelude
begin

text \<open>
  \<open>block_num_rendezvous_trigger\<close>: every writer thread reports the last block of a batch it has
  finished; when as many reports as threads arrived for a block, the triggered function runs for it.
  The count of a block is updated while its entry of the concurrent map is visited under a lock, so a
  concurrent run is a sequence of reports in any order.  The code erases a completed entry after the
  visit, in a second access; the model erases it in the same step, which no thread can tell apart, as
  all threads have reported the block by then.  The triggered function belongs to the caller: a report
  returns the block it is called for, if it is called.
\<close>

record rendezvous =
  m_number_of_threads :: u32
  m_completed_threads :: "u32 \<rightharpoonup> u32"

definition block_num_rendezvous_trigger :: "u32 \<Rightarrow> bool \<Rightarrow> rendezvous result" where
  "block_num_rendezvous_trigger number_of_threads has_function =
     (if number_of_threads < 1 then Inl (Assert_failed ''Incorrect number of threads'')
      else if \<not> has_function then Inl (Assert_failed ''No trigger function'')
      else Inr \<lparr>m_number_of_threads = number_of_threads, m_completed_threads = Map.empty\<rparr>)"

definition report_complete_thread_stage ::
    "rendezvous \<Rightarrow> u32 \<Rightarrow> (rendezvous \<times> u32 option) result" where
  "report_complete_thread_stage r stage_block_num =
     (if m_number_of_threads r = 1 then Inr (r, Some stage_block_num)
      else case m_completed_threads r stage_block_num of
        None \<Rightarrow> Inr (r\<lparr>m_completed_threads := (m_completed_threads r)(stage_block_num \<mapsto> 1)\<rparr>, None)
      | Some count \<Rightarrow>
          let completed_count = count + 1 in
          rbind (fc_assert (completed_count \<le> m_number_of_threads r) ''More threads reported than expected'') (\<lambda>_.
            if completed_count = m_number_of_threads r
            then Inr (r\<lparr>m_completed_threads := (m_completed_threads r)(stage_block_num := None)\<rparr>,
                      Some stage_block_num)
            else Inr (r\<lparr>m_completed_threads := (m_completed_threads r)(stage_block_num \<mapsto> completed_count)\<rparr>,
                      None)))"

text \<open>A run: reports in some order, with the blocks for which the function was triggered.\<close>

fun report_all :: "rendezvous \<Rightarrow> u32 list \<Rightarrow> (rendezvous \<times> u32 list) result" where
  "report_all r [] = Inr (r, [])"
| "report_all r (b # bs) =
     rbind (report_complete_thread_stage r b) (\<lambda>(r', fired).
     rbind (report_all r' bs) (\<lambda>(r'', fs).
       Inr (r'', (case fired of None \<Rightarrow> [] | Some x \<Rightarrow> [x]) @ fs)))"

text \<open>Entries of the map are counts of threads still expected to be joined by others.\<close>

definition rendezvous_inv :: "rendezvous \<Rightarrow> bool" where
  "rendezvous_inv r \<longleftrightarrow> 1 \<le> m_number_of_threads r \<and>
     (\<forall>b c. m_completed_threads r b = Some c \<longrightarrow> 0 < c \<and> c < m_number_of_threads r)"

definition pending :: "rendezvous \<Rightarrow> u32 \<Rightarrow> nat" where
  "pending r b = (case m_completed_threads r b of None \<Rightarrow> 0 | Some c \<Rightarrow> unat c)"


subsection \<open>The contract of a barrier\<close>

text \<open>What the dumpers rely on: a report never fails, adds one to the pending count of its block, and
  fires exactly when the count reaches the number of threads.\<close>

locale stage_barrier =
  fixes inv :: "'r \<Rightarrow> bool"
    and parties :: "'r \<Rightarrow> nat"
    and waiting :: "'r \<Rightarrow> 'b \<Rightarrow> nat"
    and report :: "'r \<Rightarrow> 'b \<Rightarrow> (haf_error + 'r \<times> 'b option)"
  assumes report_ok: "inv r \<Longrightarrow> \<exists>r' f. report r b = Inr (r', f)"
    and report_inv: "inv r \<Longrightarrow> report r b = Inr (r', f) \<Longrightarrow> inv r' \<and> parties r' = parties r"
    and report_fires: "inv r \<Longrightarrow> report r b = Inr (r', f) \<Longrightarrow>
          f = (if Suc (waiting r b) = parties r then Some b else None)"
    and report_waiting: "inv r \<Longrightarrow> report r b = Inr (r', f) \<Longrightarrow>
          waiting r' c = (if c = b then Suc (waiting r b) mod parties r else waiting r c)"
    and waiting_less: "inv r \<Longrightarrow> waiting r b < parties r"
begin

inductive reports :: "'r \<Rightarrow> 'b list \<Rightarrow> 'r \<Rightarrow> 'b list \<Rightarrow> bool" where
  reports_Nil: "reports r [] r []"
| reports_Cons: "report r b = Inr (r', f) \<Longrightarrow> reports r' bs r'' fs \<Longrightarrow>
    reports r (b # bs) r'' ((case f of None \<Rightarrow> [] | Some x \<Rightarrow> [x]) @ fs)"

lemma reports_total: "inv r \<Longrightarrow> \<exists>r' fs. reports r bs r' fs"
proof (induction bs arbitrary: r)
  case (Cons b bs)
  then show ?case by (meson report_ok report_inv reports_Cons)
qed (blast intro: reports_Nil)

lemma reports_count:
  assumes "reports r bs r' fs" "inv r"
  shows "inv r' \<and> parties r' = parties r
    \<and> count_list fs c * parties r + waiting r' c = waiting r c + count_list bs c"
  using assms
proof (induction rule: reports.induct)
  case (reports_Cons r b r' f bs r'' fs)
  note inv' = report_inv[OF reports_Cons.prems reports_Cons.hyps(1)]
  have IH: "inv r'' \<and> parties r'' = parties r'
      \<and> count_list fs c * parties r' + waiting r'' c = waiting r' c + count_list bs c"
    using reports_Cons.IH inv' by blast
  have w: "waiting r' c = (if c = b then Suc (waiting r b) mod parties r else waiting r c)"
    by (rule report_waiting[OF reports_Cons.prems reports_Cons.hyps(1)])
  have f: "f = (if Suc (waiting r b) = parties r then Some b else None)"
    by (rule report_fires[OF reports_Cons.prems reports_Cons.hyps(1)])
  show ?case
  proof (cases "Suc (waiting r b) = parties r")
    case True
    then show ?thesis using IH inv' w f by (auto simp: algebra_simps)
  next
    case False
    then have "Suc (waiting r b) mod parties r = Suc (waiting r b)"
      using waiting_less[OF reports_Cons.prems, of b] by simp
    then show ?thesis using False IH inv' w f by auto
  qed
qed simp

lemma reports_fired:
  assumes "reports r bs r' fs" "inv r" "waiting r c = 0"
  shows "count_list fs c = count_list bs c div parties r"
proof -
  have "count_list fs c * parties r + waiting r' c = count_list bs c"
    "waiting r' c < parties r"
    using reports_count[OF assms(1,2)] assms(3) waiting_less[of r' c] by auto
  then have "count_list bs c div parties r = count_list fs c + waiting r' c div parties r"
    by (metis div_mult_self3 less_nat_zero_code add.commute)
  then show ?thesis using \<open>waiting r' c < parties r\<close> by simp
qed

end


subsection \<open>The trigger is such a barrier\<close>

lemma report_step:
  assumes "rendezvous_inv r"
  shows "report_complete_thread_stage r b =
    Inr (r\<lparr>m_completed_threads := (m_completed_threads r)(b :=
            if Suc (pending r b) = unat (m_number_of_threads r) then None
            else Some (of_nat (Suc (pending r b))))\<rparr>,
         if Suc (pending r b) = unat (m_number_of_threads r) then Some b else None)"
proof (cases "m_number_of_threads r = 1")
  case True
  have "m_completed_threads r b = None"
  proof (rule ccontr)
    assume "m_completed_threads r b \<noteq> None"
    then obtain c :: u32 where "0 < c" "c < 1"
      using assms True by (auto simp: rendezvous_inv_def)
    then show False by (metis not_le one_le_u32_iff less_irrefl)
  qed
  then show ?thesis
    using True by (simp add: report_complete_thread_stage_def pending_def fun_upd_idem)
next
  case ne: False
  have n: "1 < unat (m_number_of_threads r)"
  proof -
    have "1 \<le> unat (m_number_of_threads r)"
      using assms by (simp add: rendezvous_inv_def word_le_nat_alt)
    moreover have "unat (m_number_of_threads r) \<noteq> 1" using ne by (metis unat_1 word_unat_eq_iff)
    ultimately show ?thesis by simp
  qed
  show ?thesis
  proof (cases "m_completed_threads r b")
    case None
    then show ?thesis
      using ne n by (simp add: report_complete_thread_stage_def pending_def)
  next
    case (Some c)
    have c: "unat c < unat (m_number_of_threads r)"
      using assms Some by (simp add: rendezvous_inv_def word_less_nat_alt)
    then have suc: "unat (c + 1) = Suc (unat c)"
      using unat_u32_less[of "m_number_of_threads r"] by (simp add: unat_word_ariths)
    have le: "c + 1 \<le> m_number_of_threads r"
      using c suc by (simp add: word_le_nat_alt)
    have eq: "(c + 1 = m_number_of_threads r) \<longleftrightarrow> Suc (unat c) = unat (m_number_of_threads r)"
      using suc by (metis word_unat_eq_iff)
    have val: "of_nat (Suc (unat c)) = c + 1"
      by simp
    show ?thesis
      using Some ne le eq val
      by (simp add: report_complete_thread_stage_def pending_def Let_def add.commute)
  qed
qed

lemma pending_less: "rendezvous_inv r \<Longrightarrow> pending r b < unat (m_number_of_threads r)"
  by (auto simp: pending_def rendezvous_inv_def word_less_nat_alt word_le_nat_alt split: option.split)

interpretation rv: stage_barrier rendezvous_inv "\<lambda>r. unat (m_number_of_threads r)" pending
  report_complete_thread_stage
proof
  fix r b r' f c
  assume inv: "rendezvous_inv r"
  show "\<exists>r' f. report_complete_thread_stage r b = Inr (r', f)"
    by (simp add: report_step[OF inv])
  show "pending r b < unat (m_number_of_threads r)"
    by (rule pending_less[OF inv])
  assume "report_complete_thread_stage r b = Inr (r', f)"
  then have r': "r' = r\<lparr>m_completed_threads := (m_completed_threads r)(b :=
            if Suc (pending r b) = unat (m_number_of_threads r) then None
            else Some (of_nat (Suc (pending r b))))\<rparr>"
    and f: "f = (if Suc (pending r b) = unat (m_number_of_threads r) then Some b else None)"
    by (simp_all add: report_step[OF inv])
  have lt: "pending r b < unat (m_number_of_threads r)" "unat (m_number_of_threads r) < 2 ^ 32"
    using pending_less[OF inv] unat_u32_less[of "m_number_of_threads r"] by auto
  then have of_nat: "Suc (pending r b) < unat (m_number_of_threads r) \<Longrightarrow>
      unat (of_nat (Suc (pending r b)) :: u32) = Suc (pending r b)"
    by (intro unat_of_nat_u32) simp
  show "f = (if Suc (pending r b) = unat (m_number_of_threads r) then Some b else None)"
    by (rule f)
  show "pending r' c = (if c = b then Suc (pending r b) mod unat (m_number_of_threads r) else pending r c)"
    using lt of_nat by (auto simp: r' pending_def)
  show "rendezvous_inv r' \<and> unat (m_number_of_threads r') = unat (m_number_of_threads r)"
    using inv lt of_nat by (auto simp: r' rendezvous_inv_def word_less_nat_alt split: if_splits)
qed

lemma report_all_reports:
  "report_all r bs = Inr (r', fs) \<longleftrightarrow> rv.reports r bs r' fs"
proof (induction bs arbitrary: r fs)
  case Nil
  show ?case by (auto intro: rv.reports.intros elim: rv.reports.cases)
next
  case (Cons b bs)
  show ?case
    by (auto simp: rbind_eq_Inr_iff Cons.IH intro: rv.reports.intros elim!: rv.reports.cases[of r "b # bs"])
qed

text \<open>C20: In any run of reports on a fresh trigger, in whatever order the threads report, no report
  fails, and the function is triggered for a block exactly once per complete round of
  \<open>m_number_of_threads\<close> reports for it (and never before the round is complete).\<close>

theorem rendezvous_fires_once_per_round:
  assumes "block_num_rendezvous_trigger n True = Inr r"
  shows "\<exists>r' fs. report_all r bs = Inr (r', fs) \<and> (\<forall>b. count_list fs b = count_list bs b div unat n)"
proof -
  have n: "1 \<le> n" and r: "r = \<lparr>m_number_of_threads = n, m_completed_threads = Map.empty\<rparr>"
    using assms by (auto simp: block_num_rendezvous_trigger_def one_le_u32_iff split: if_splits)
  have inv: "rendezvous_inv r" using n by (simp add: r rendezvous_inv_def)
  obtain r' fs where run: "rv.reports r bs r' fs"
    using rv.reports_total[OF inv] by blast
  have "count_list fs b = count_list bs b div unat n" for b
    using rv.reports_fired[OF run inv, of b] by (simp add: r pending_def)
  then show ?thesis using report_all_reports[THEN iffD2, OF run] by blast
qed

theorem rendezvous_fires_once_per_round_witness:
  "\<exists>r' fs. report_all \<lparr>m_number_of_threads = 2, m_completed_threads = Map.empty\<rparr> [7, 8, 8, 7, 7]
      = Inr (r', fs) \<and> (\<forall>b. count_list fs b = count_list [7, 8, 8, 7, 7] b div unat (2 :: u32))"
  using rendezvous_fires_once_per_round[of 2 _ "[7, 8, 8, 7, 7]"]
  by (simp add: block_num_rendezvous_trigger_def del: report_all.simps count_list.simps)

end
