(* ===== verification/Writers.thy ===== *)
theory Writers
  imports HafPrelude
begin

text \<open>
  The table writers: \<open>container_data_writer.h\<close> (what one writer does with a container) and
  \<open>chunks_for_writers_spillter.h\<close> (how a container is divided among several writers and how the texts
  of string writers are merged).  The conversion of a row to a tuple is a parameter \<open>conv\<close>.
\<close>

text \<open>\<open>queued_batch\<close> of \<open>data_processor.hpp\<close>: what a writer hands to its processor.\<close>

record 'a queued_batch =
  batch_data :: 'a
  last_block_num :: u32
  report_only :: bool

text \<open>\<open>container_data_writer::trigger\<close>: an empty container only reports the end of the batch.\<close>

definition writer_trigger :: "'a list \<Rightarrow> u32 \<Rightarrow> 'a list queued_batch" where
  "writer_trigger data n =
     (if data \<noteq> [] then \<lparr>batch_data = data, last_block_num = n, report_only = False\<rparr>
      else \<lparr>batch_data = [], last_block_num = n, report_only = True\<rparr>)"

abbreviation row_text :: "('a \<Rightarrow> string) \<Rightarrow> 'a \<Rightarrow> string" where
  "row_text conv x \<equiv> ''('' @ conv x @ '')'' @ [CHR 0x0A]"

definition flush_scalar_live_data :: "('a \<Rightarrow> string) \<Rightarrow> 'a list \<Rightarrow> string result" where
  "flush_scalar_live_data conv data =
     rbind (fc_assert (data \<noteq> []) ''Data empty 3'') (\<lambda>_.
       Inr (row_text conv (hd data) @ concat (map (\<lambda>x. '','' @ row_text conv x) (tl data))))"

text \<open>\<open>flush_replayed_data\<close>: the rows go to \<open>COPY\<close> in order; the status counts them.\<close>

definition flush_replayed_data :: "('a \<Rightarrow> 'row) \<Rightarrow> 'a list \<Rightarrow> ('row list \<times> nat) result" where
  "flush_replayed_data row data =
     rbind (fc_assert (data \<noteq> []) ''Data empty 2'') (\<lambda>_. Inr (map row data, length data))"

text \<open>\<open>std::ceil(size / double(writers))\<close> as a \<open>uint32_t\<close>.  For sizes below \<open>2^52\<close> the rounding of the
  quotient to a double does not reach the next integer, so the ceiling is the exact one.\<close>

definition length_of_batch :: "nat \<Rightarrow> nat \<Rightarrow> u32" where
  "length_of_batch n writers = of_nat ((n + writers - 1) div writers)"

definition range_iterator :: "nat \<Rightarrow> u32 \<Rightarrow> nat" where
  "range_iterator n pos = (if unat pos < n then unat pos else n)"

definition writer_range :: "'a list \<Rightarrow> nat \<Rightarrow> nat \<Rightarrow> 'a list" where
  "writer_range data writers writer_num =
     (let len = length_of_batch (length data) writers;
          b = range_iterator (length data) (of_nat writer_num * len);
          e = range_iterator (length data) ((of_nat writer_num + 1) * len)
      in take (e - b) (drop b data))"

text \<open>\<open>chunks_for_writers_splitter_base::trigger\<close>: one batch per writer.\<close>

definition splitter_trigger :: "nat \<Rightarrow> 'a list \<Rightarrow> u32 \<Rightarrow> 'a list queued_batch list" where
  "splitter_trigger writers data n =
     map (\<lambda>i. writer_trigger (writer_range data writers i) n) [0..<writers]"

text \<open>\<open>get_merged_strings\<close>: the merged text and the cleared strings.\<close>

fun merge_strings :: "string \<Rightarrow> string list \<Rightarrow> string" where
  "merge_strings result [] = result"
| "merge_strings result (s # ss) =
     (if s = [] then merge_strings result ss
      else if result = [] then merge_strings s ss
      else merge_strings (result @ '','' @ s) ss)"

definition get_merged_strings :: "string list \<Rightarrow> string \<times> string list" where
  "get_merged_strings strings = (merge_strings [] strings, map (\<lambda>_. []) strings)"

text \<open>What a string writer leaves in its string for a batch (the callback runs only for data).\<close>

definition writer_string :: "('a \<Rightarrow> string) \<Rightarrow> 'a list queued_batch \<Rightarrow> string" where
  "writer_string conv b = (if report_only b then []
     else case flush_scalar_live_data conv (batch_data b) of Inr s \<Rightarrow> s | Inl _ \<Rightarrow> [])"

text \<open>\<open>coalesce\<close> and \<open>join_processors\<close>: every processor is joined, the first exception is rethrown.\<close>

definition coalesce :: "'e option list \<Rightarrow> 'e option" where
  "coalesce es = (case find (\<lambda>e. e \<noteq> None) es of Some e \<Rightarrow> e | None \<Rightarrow> None)"

definition join_processors :: "('p \<Rightarrow> haf_error option) \<Rightarrow> 'p list \<Rightarrow> unit result" where
  "join_processors join ps = (case coalesce (map join ps) of Some e \<Rightarrow> Inl e | None \<Rightarrow> Inr ())"


subsection \<open>Dividing a container\<close>

lemma concat_segments:
  assumes "b 0 = 0" "\<forall>i < n. b i \<le> b (Suc i)"
  shows "concat (map (\<lambda>i. take (b (Suc i) - b i) (drop (b i) xs)) [0..<n]) = take (b n) xs"
  using assms
proof (induction n)
  case (Suc n)
  then have "concat (map (\<lambda>i. take (b (Suc i) - b i) (drop (b i) xs)) [0..<Suc n]) =
      take (b n) xs @ take (b (Suc n) - b n) (drop (b n) xs)" by simp
  also have "\<dots> = take (b n + (b (Suc n) - b n)) xs" by (simp only: take_add)
  finally show ?case using Suc.prems(2) by simp
qed simp

lemma writer_range_bounds:
  assumes "0 < writers" "length data + writers < 2 ^ 32" "i < writers"
  defines "len \<equiv> (length data + writers - 1) div writers"
  defines "b \<equiv> \<lambda>i. min (i * len) (length data)"
  shows "writer_range data writers i = take (b (Suc i) - b i) (drop (b i) data)"
proof -
  have wl: "writers * len \<le> length data + writers - 1"
    unfolding len_def by (simp add: mult.commute div_times_less_eq_dividend)
  have bound: "j * len < 2 ^ 32" if "j \<le> writers" for j
  proof -
    have "j * len \<le> writers * len" using that by simp
    then show ?thesis using wl assms(2) by linarith
  qed
  have len_eq: "length_of_batch (length data) writers = of_nat len"
    by (simp add: length_of_batch_def len_def)
  have pos: "range_iterator (length data) (of_nat j * of_nat len) = b j" if "j \<le> writers" for j
    using unat_of_nat_u32[OF bound[OF that]]
    by (simp add: range_iterator_def b_def min_def flip: of_nat_mult)
  have "(of_nat i + 1) * (of_nat len :: u32) = of_nat (Suc i) * of_nat len" by (simp add: add.commute)
  then show ?thesis
    using pos[of i] pos[of "Suc i"] assms(3)
    unfolding writer_range_def len_eq Let_def by simp
qed

lemma writer_ranges_partition:
  assumes "0 < writers" "length data + writers < 2 ^ 32"
  shows "concat (map (writer_range data writers) [0..<writers]) = data"
proof -
  define len where "len = (length data + writers - 1) div writers"
  define b where "b = (\<lambda>i. min (i * len) (length data))"
  have mono: "b 0 = 0" "\<forall>i < writers. b i \<le> b (Suc i)"
    by (auto simp: b_def intro: le_trans[OF min.cobounded1])
  have "map (writer_range data writers) [0..<writers] =
      map (\<lambda>i. take (b (Suc i) - b i) (drop (b i) data)) [0..<writers]"
    using writer_range_bounds[OF assms] by (auto simp: b_def len_def)
  then have "concat (map (writer_range data writers) [0..<writers]) = take (b writers) data"
    using concat_segments[OF mono, of data] by (simp only:)
  moreover have "length data \<le> writers * len"
  proof -
    have "length data + writers - 1 < (len + 1) * writers"
      unfolding len_def using assms(1) by (metis Suc_eq_plus1 dividend_less_div_times mult.commute mult_Suc)
    then show ?thesis using assms(1) by (simp add: algebra_simps)
  qed
  ultimately show ?thesis by (simp add: b_def)
qed

lemma writer_range_length:
  assumes "0 < writers" "length data + writers < 2 ^ 32" "i < writers"
  shows "length (writer_range data writers i) \<le> (length data + writers - 1) div writers"
  unfolding writer_range_bounds[OF assms] by (auto simp: min_def)


subsection \<open>Merging the texts of the writers\<close>

lemma merge_strings_result:
  "result \<noteq> [] \<Longrightarrow> merge_strings result ss = result @ concat (map (\<lambda>s. '','' @ s) (filter (\<lambda>s. s \<noteq> []) ss))"
  by (induction ss arbitrary: result) auto

definition rows_text :: "('a \<Rightarrow> string) \<Rightarrow> 'a list \<Rightarrow> string" where
  "rows_text conv xs = (case xs of [] \<Rightarrow> []
     | y # ys \<Rightarrow> row_text conv y @ concat (map (\<lambda>x. '','' @ row_text conv x) ys))"

lemma writer_string_trigger: "writer_string conv (writer_trigger xs n) = rows_text conv xs"
  by (cases xs) (auto simp: writer_string_def writer_trigger_def flush_scalar_live_data_def rows_text_def)

lemma rows_text_Nil [simp]: "rows_text conv [] = []"
  by (simp add: rows_text_def)

lemma rows_text_append:
  "xs \<noteq> [] \<Longrightarrow> rows_text conv (xs @ ys) = rows_text conv xs @ concat (map (\<lambda>x. '','' @ row_text conv x) ys)"
  by (cases xs) (auto simp: rows_text_def)

lemma comma_rows_text: "xs \<noteq> [] \<Longrightarrow> '','' @ rows_text conv xs = concat (map (\<lambda>x. '','' @ row_text conv x) xs)"
  by (cases xs) (auto simp: rows_text_def)

lemma rows_text_Nil_iff [simp]: "rows_text conv xs = [] \<longleftrightarrow> xs = []"
  by (cases xs) (auto simp: rows_text_def)

lemma concat_comma_rows:
  "concat (map (\<lambda>s. '','' @ s) (filter (\<lambda>s. s \<noteq> []) (map (rows_text conv) xss))) =
   concat (map (\<lambda>x. '','' @ row_text conv x) (concat xss))"
  by (induction xss) (auto simp: comma_rows_text simp del: append_Cons)

lemma merge_rows: "merge_strings [] (map (rows_text conv) xss) = rows_text conv (concat xss)"
proof (induction xss)
  case (Cons xs xss)
  show ?case
  proof (cases "xs = []")
    case True
    then show ?thesis using Cons by simp
  next
    case False
    then show ?thesis
      using merge_strings_result[of "rows_text conv xs" "map (rows_text conv) xss"]
        concat_comma_rows[of conv xss] rows_text_append[OF False, of conv "concat xss"] by simp
  qed
qed simp

text \<open>C26: Dividing a container among any number of string writers and merging what they wrote gives
  the text one writer would have produced for the whole container, provided the sizes fit the
  32-bit positions the splitter computes with.\<close>

theorem split_and_merge_is_single_writer:
  assumes "0 < writers" "length data + writers < 2 ^ 32" "data \<noteq> []"
  shows "flush_scalar_live_data conv data =
    Inr (fst (get_merged_strings (map (writer_string conv) (splitter_trigger writers data n))))"
proof -
  have "map (writer_string conv) (splitter_trigger writers data n) =
      map (rows_text conv) (map (writer_range data writers) [0..<writers])"
    by (simp add: splitter_trigger_def writer_string_trigger)
  then have "fst (get_merged_strings (map (writer_string conv) (splitter_trigger writers data n))) =
      rows_text conv data"
    by (simp only: get_merged_strings_def fst_conv merge_rows writer_ranges_partition[OF assms(1,2)])
  then show ?thesis
    using assms(3) by (cases data) (simp_all add: flush_scalar_live_data_def rows_text_def)
qed

theorem split_and_merge_is_single_writer_witness:
  "flush_scalar_live_data id [''a'', ''b'', ''c'', ''d'', ''e''] =
    Inr (fst (get_merged_strings (map (writer_string id) (splitter_trigger 3 [''a'', ''b'', ''c'', ''d'', ''e''] 7))))"
  by (rule split_and_merge_is_single_writer) simp_all

end
