(* ===== verification/Livesync_Dumper.thy ===== *)
theory Livesync_Dumper
  imports Cached_Data Rendezvous Writers Decimal "HOL-Library.Multiset"
begin

text \<open>
  \<open>livesync_data_dumper.cpp\<close>: how one block becomes one SQL command.  The seven kinds of writers run in
  threads of their own; when all of them have reported the block to the rendezvous trigger, the last
  one builds the \<open>hive.push_block\<close> command from the texts they left and enqueues it.  The events of the
  chain (irreversible block, fork, failed block) are further commands.

  The conversions of rows to tuples are a parameter.  Commands are returned in the order in which
  they are given to the processing thread (theory \<open>Live_Processing\<close>).
\<close>

record tuple_converters =
  conv_block :: "process_block_t \<Rightarrow> string"
  conv_transaction :: "process_transaction_t \<Rightarrow> string"
  conv_multisig :: "process_transaction_multisig_t \<Rightarrow> string"
  conv_operation :: "process_operation_t \<Rightarrow> string"
  conv_account :: "account_data_t \<Rightarrow> string"
  conv_account_operation :: "account_operation_data_t \<Rightarrow> string"
  conv_hardfork :: "applied_hardforks_t \<Rightarrow> string"

datatype writer_id =
    Block_writer | Multisig_writer | Accounts_writer | Hardforks_writer
  | Transaction_writer nat | Operation_writer nat | Account_operation_writer nat

text \<open>The strings \<open>_block\<close>, \<open>_transactions_multisig\<close>, \<open>_accounts\<close>, \<open>_applied_hardforks\<close> and the vectors
  \<open>_strings\<close> of the three splitters are one map from writers to texts.\<close>

record livesync_data_dumper =
  operations_threads :: u32
  transactions_threads :: u32
  account_operation_threads :: u32
  ls_first_block :: u32
  ls_lite_mode :: bool
  ls_texts :: "writer_id \<Rightarrow> string"
  ls_api_trigger :: rendezvous
  last_dumped_block :: u32
  currently_processing_block :: u32

definition NUMBER_OF_PROCESSORS_THREADS :: "u32 \<Rightarrow> u32 \<Rightarrow> u32 \<Rightarrow> u32" where
  "NUMBER_OF_PROCESSORS_THREADS ops trxs acc_ops = 4 + ops + trxs + acc_ops"

definition new_livesync_dumper :: "u32 \<Rightarrow> u32 \<Rightarrow> u32 \<Rightarrow> u32 \<Rightarrow> bool \<Rightarrow> livesync_data_dumper result" where
  "new_livesync_dumper ops trxs acc_ops first_block lite =
     rbind (block_num_rendezvous_trigger (NUMBER_OF_PROCESSORS_THREADS ops trxs acc_ops) True) (\<lambda>trigger.
     rbind (fc_assert (0 < trxs) ''number_of_threads > 0'') (\<lambda>_.
     rbind (fc_assert (0 < ops) ''number_of_threads > 0'') (\<lambda>_.
     rbind (fc_assert (0 < acc_ops) ''number_of_threads > 0'') (\<lambda>_.
       Inr \<lparr>operations_threads = ops, transactions_threads = trxs, account_operation_threads = acc_ops,
            ls_first_block = first_block, ls_lite_mode = lite, ls_texts = (\<lambda>_. []),
            ls_api_trigger = trigger, last_dumped_block = 0, currently_processing_block = 0\<rparr>))))"

definition all_writers :: "livesync_data_dumper \<Rightarrow> writer_id list" where
  "all_writers d = [Block_writer, Multisig_writer, Accounts_writer, Hardforks_writer] @
     map Transaction_writer [0..<unat (transactions_threads d)] @
     map Operation_writer [0..<unat (operations_threads d)] @
     map Account_operation_writer [0..<unat (account_operation_threads d)]"

definition merged :: "livesync_data_dumper \<Rightarrow> (nat \<Rightarrow> writer_id) \<Rightarrow> u32 \<Rightarrow> string" where
  "merged d w threads = fst (get_merged_strings (map (\<lambda>i. ls_texts d (w i)) [0..<unat threads]))"

definition push_block_command ::
    "bool \<Rightarrow> string \<Rightarrow> string \<Rightarrow> string \<Rightarrow> string \<Rightarrow> string \<Rightarrow> string \<Rightarrow> string \<Rightarrow> string" where
  "push_block_command lite block trxs multisig ops accs acc_ops hardforks =
     (if lite then ''SELECT hive.push_block_lite('' else ''SELECT hive.push_block('') @ block
     @ ''::hafd.blocks,ARRAY['' @ trxs
     @ '']::hafd.transactions[],ARRAY['' @ multisig
     @ '']::hafd.transactions_multisig[],ARRAY['' @ ops
     @ '']::hafd.operations[],ARRAY['' @ accs
     @ '']::hafd.accounts[],ARRAY['' @ acc_ops
     @ '']::hafd.account_operations[],ARRAY['' @ hardforks
     @ '']::hafd.applied_hardforks[])''"

text \<open>The triggered function: the command, and the cleared texts.  The strings of the splitters are
  cleared by \<open>get_merged_strings\<close>, that is, only when there is a block.\<close>

definition execute_push_block :: "livesync_data_dumper \<Rightarrow> u32 \<Rightarrow> livesync_data_dumper \<times> string list" where
  "execute_push_block d n =
     (let has_block = ls_texts d Block_writer \<noteq> [];
          command = push_block_command (ls_lite_mode d) (ls_texts d Block_writer)
            (merged d Transaction_writer (transactions_threads d)) (ls_texts d Multisig_writer)
            (merged d Operation_writer (operations_threads d)) (ls_texts d Accounts_writer)
            (merged d Account_operation_writer (account_operation_threads d)) (ls_texts d Hardforks_writer);
          cleared = (\<lambda>w. case w of
              Transaction_writer i \<Rightarrow> if has_block then [] else ls_texts d w
            | Operation_writer i \<Rightarrow> if has_block then [] else ls_texts d w
            | Account_operation_writer i \<Rightarrow> if has_block then [] else ls_texts d w
            | _ \<Rightarrow> [])
      in if has_block then (d\<lparr>last_dumped_block := n, ls_texts := cleared\<rparr>, [command])
         else (d\<lparr>ls_texts := cleared\<rparr>, []))"

text \<open>The batch a writer gets from \<open>trigger_data_flush\<close>, as the text its processor hands to the callback;
  \<open>None\<close> when the batch is empty and only reported.\<close>

definition batch_text :: "('a \<Rightarrow> string) \<Rightarrow> 'a list queued_batch \<Rightarrow> string option" where
  "batch_text conv b = (if report_only b then None else Some (writer_string conv b))"

definition writer_batch :: "tuple_converters \<Rightarrow> livesync_data_dumper \<Rightarrow> cached_data_t \<Rightarrow> u32 \<Rightarrow> writer_id \<Rightarrow> string option" where
  "writer_batch cv d c n w = (case w of
     Block_writer \<Rightarrow> batch_text (conv_block cv) (writer_trigger (blocks c) n)
   | Multisig_writer \<Rightarrow> batch_text (conv_multisig cv) (writer_trigger (transactions_multisig c) n)
   | Accounts_writer \<Rightarrow> batch_text (conv_account cv) (writer_trigger (accounts c) n)
   | Hardforks_writer \<Rightarrow> batch_text (conv_hardfork cv) (writer_trigger (applied_hardforks c) n)
   | Transaction_writer i \<Rightarrow> batch_text (conv_transaction cv)
       (splitter_trigger (unat (transactions_threads d)) (transactions c) n ! i)
   | Operation_writer i \<Rightarrow> batch_text (conv_operation cv)
       (splitter_trigger (unat (operations_threads d)) (operations c) n ! i)
   | Account_operation_writer i \<Rightarrow> batch_text (conv_account_operation cv)
       (splitter_trigger (unat (account_operation_threads d)) (account_operations c) n ! i))"

text \<open>One writer thread: process the batch, then report; the last reporter runs the triggered function.\<close>

definition writer_thread ::
    "livesync_data_dumper \<Rightarrow> (writer_id \<Rightarrow> string option) \<Rightarrow> u32 \<Rightarrow> writer_id \<Rightarrow> (livesync_data_dumper \<times> string list) result" where
  "writer_thread d batch n w =
     (let d1 = (case batch w of None \<Rightarrow> d | Some s \<Rightarrow> d\<lparr>ls_texts := (ls_texts d)(w := s)\<rparr>) in
      if n = 0 then Inr (d1, [])
      else rbind (report_complete_thread_stage (ls_api_trigger d1) n) (\<lambda>(trigger, fired).
        let d2 = d1\<lparr>ls_api_trigger := trigger\<rparr> in
        case fired of None \<Rightarrow> Inr (d2, []) | Some b \<Rightarrow> Inr (execute_push_block d2 b)))"

fun writer_threads ::
    "livesync_data_dumper \<Rightarrow> (writer_id \<Rightarrow> string option) \<Rightarrow> u32 \<Rightarrow> writer_id list \<Rightarrow> (livesync_data_dumper \<times> string list) result" where
  "writer_threads d batch n [] = Inr (d, [])"
| "writer_threads d batch n (w # ws) =
     rbind (writer_thread d batch n w) (\<lambda>(d1, cs1).
     rbind (writer_threads d1 batch n ws) (\<lambda>(d2, cs2). Inr (d2, cs1 @ cs2)))"

text \<open>\<open>trigger_data_flush\<close>; \<open>order\<close> is the order in which the writer threads finish.  The containers are
  moved into the batches, so the cache is left empty; the call waits for all writers.\<close>

definition livesync_trigger_data_flush ::
    "tuple_converters \<Rightarrow> livesync_data_dumper \<Rightarrow> cached_data_t \<Rightarrow> int \<Rightarrow> writer_id list \<Rightarrow>
     (livesync_data_dumper \<times> cached_data_t \<times> string list) result" where
  "livesync_trigger_data_flush cv d c block_num order =
     rbind (fc_assert (length (blocks c) = 1) ''LIVE sync can only process one block'') (\<lambda>_.
     let n = word_of_int block_num; d1 = d\<lparr>currently_processing_block := n\<rparr> in
     rbind (writer_threads d1 (writer_batch cv d1 c n) n order) (\<lambda>(d2, commands).
       Inr (d2\<lparr>currently_processing_block := 0\<rparr>, clear_all_items c, commands)))"

definition u32_to_string :: "u32 \<Rightarrow> string" where
  "u32_to_string n = nat_to_string (unat n)"

definition livesync_on_irreversible_block :: "livesync_data_dumper \<Rightarrow> u32 \<Rightarrow> string list" where
  "livesync_on_irreversible_block d n =
     (if ls_lite_mode d then []
      else if ls_first_block d \<le> n then [''SELECT hive.set_irreversible('' @ u32_to_string n @ '')'']
      else [])"

definition livesync_on_switch_fork :: "livesync_data_dumper \<Rightarrow> u32 \<Rightarrow> string list" where
  "livesync_on_switch_fork d n = [''SELECT hive.back_from_fork('' @ u32_to_string n @ '')'']"

definition livesync_on_block_fail :: "livesync_data_dumper \<Rightarrow> u32 \<Rightarrow> string list" where
  "livesync_on_block_fail d n =
     (if currently_processing_block d \<noteq> n \<and> last_dumped_block d \<noteq> n then []
      else [''SELECT hive.back_from_fork('' @ u32_to_string (n - 1) @ '')''])"

text \<open>The events the constructor connects: forks and failed blocks only outside lite mode.\<close>

datatype chain_event = Irreversible u32 | Switch_fork u32 | Block_fail u32

definition livesync_on_event :: "livesync_data_dumper \<Rightarrow> chain_event \<Rightarrow> string list" where
  "livesync_on_event d e = (case e of
     Irreversible n \<Rightarrow> livesync_on_irreversible_block d n
   | Switch_fork n \<Rightarrow> if ls_lite_mode d then [] else livesync_on_switch_fork d n
   | Block_fail n \<Rightarrow> if ls_lite_mode d then [] else livesync_on_block_fail d n)"


subsection \<open>One block, one command\<close>

text \<open>Between two blocks the dumper holds no text and waits for no thread.\<close>

definition livesync_idle :: "livesync_data_dumper \<Rightarrow> bool" where
  "livesync_idle d \<longleftrightarrow> ls_texts d = (\<lambda>_. []) \<and> m_completed_threads (ls_api_trigger d) = Map.empty
     \<and> unat (m_number_of_threads (ls_api_trigger d)) = length (all_writers d)"

lemma length_all_writers:
  "length (all_writers d) = 4 + unat (transactions_threads d) + unat (operations_threads d)
     + unat (account_operation_threads d)"
  by (simp add: all_writers_def)

lemma distinct_all_writers: "distinct (all_writers d)"
  by (auto simp: all_writers_def distinct_map inj_on_def)

definition waiting_at :: "rendezvous \<Rightarrow> u32 \<Rightarrow> nat \<Rightarrow> rendezvous" where
  "waiting_at r n k = r\<lparr>m_completed_threads := (m_completed_threads r)(n := if k = 0 then None else Some (of_nat k))\<rparr>"

lemma waiting_at_zero: "m_completed_threads r n = None \<Longrightarrow> waiting_at r n 0 = r"
  by (simp add: waiting_at_def fun_upd_idem)

lemma report_waiting_at:
  assumes "rendezvous_inv r" "k < unat (m_number_of_threads r)"
  shows "report_complete_thread_stage (waiting_at r n k) n =
    (if Suc k = unat (m_number_of_threads r) then Inr (waiting_at r n 0, Some n)
     else Inr (waiting_at r n (Suc k), None))"
proof -
  have k: "unat (of_nat k :: u32) = k"
    using assms(2) unat_u32_less[of "m_number_of_threads r"] by (intro unat_of_nat_u32) simp
  have inv: "rendezvous_inv (waiting_at r n k)"
    using assms k by (auto simp: rendezvous_inv_def waiting_at_def word_less_nat_alt split: if_splits)
  have "pending (waiting_at r n k) n = k" using k by (simp add: pending_def waiting_at_def)
  then show ?thesis
    using report_step[OF inv, of n] by (simp add: waiting_at_def)
qed

definition put_texts :: "(writer_id \<Rightarrow> string option) \<Rightarrow> writer_id list \<Rightarrow> (writer_id \<Rightarrow> string) \<Rightarrow> writer_id \<Rightarrow> string" where
  "put_texts batch ws t = (\<lambda>w. if w \<in> set ws then (case batch w of None \<Rightarrow> t w | Some s \<Rightarrow> s) else t w)"

lemma put_texts_single:
  "put_texts batch [w] t = (case batch w of None \<Rightarrow> t | Some s \<Rightarrow> t(w := s))"
  by (cases "batch w") (auto simp: put_texts_def)

lemma put_texts_snoc: "put_texts batch [w] (put_texts batch ws t) = put_texts batch (ws @ [w]) t"
  by (auto simp: put_texts_def split: option.split)

lemma put_texts_Cons: "put_texts batch ws (put_texts batch [w] t) = put_texts batch (w # ws) t"
  by (auto simp: put_texts_def split: option.split)

abbreviation (input) at_stage where
  "at_stage d n t k \<equiv> d\<lparr>ls_texts := t, ls_api_trigger := waiting_at (ls_api_trigger d) n k\<rparr>"

lemma writer_thread_report:
  assumes "rendezvous_inv (ls_api_trigger d)" "n \<noteq> 0" "k < unat (m_number_of_threads (ls_api_trigger d))"
  shows "writer_thread (at_stage d n t k) batch n w =
    (if Suc k = unat (m_number_of_threads (ls_api_trigger d))
     then Inr (execute_push_block (at_stage d n (put_texts batch [w] t) 0) n)
     else Inr (at_stage d n (put_texts batch [w] t) (Suc k), []))"
proof -
  have t: "(case batch w of None \<Rightarrow> at_stage d n t k
      | Some s \<Rightarrow> (at_stage d n t k)\<lparr>ls_texts := (ls_texts (at_stage d n t k))(w := s)\<rparr>) =
      at_stage d n (put_texts batch [w] t) k"
    by (cases "batch w") (simp_all add: put_texts_single)
  show ?thesis
    unfolding writer_thread_def t Let_def
    using assms by (simp add: report_waiting_at)
qed

lemma writer_threads_waiting:
  assumes "rendezvous_inv (ls_api_trigger d)" "n \<noteq> 0"
    "k + length ws < unat (m_number_of_threads (ls_api_trigger d))"
  shows "writer_threads (at_stage d n t k) batch n ws =
    Inr (at_stage d n (put_texts batch ws t) (k + length ws), [])"
  using assms(3)
proof (induction ws arbitrary: k t)
  case Nil
  then show ?case by (simp add: put_texts_def)
next
  case (Cons w ws)
  then show ?case
    using writer_thread_report[OF assms(1,2), of k t batch w] Cons.IH[of "Suc k" "put_texts batch [w] t"]
    by (simp add: put_texts_Cons)
qed

lemma writer_threads_snoc:
  "writer_threads d batch n (ws @ [w]) =
     rbind (writer_threads d batch n ws) (\<lambda>(d1, cs1).
     rbind (writer_thread d1 batch n w) (\<lambda>(d2, cs2). Inr (d2, cs1 @ cs2)))"
proof (induction ws arbitrary: d)
  case Nil
  show ?case by (cases "writer_thread d batch n w") auto
next
  case (Cons v ws)
  show ?case
  proof (cases "writer_thread d batch n v")
    case (Inr p)
    then show ?thesis
      by (cases "writer_threads (fst p) batch n ws") (auto simp: Cons.IH rbind_assoc split_def)
  qed simp
qed

lemma writer_threads_round:
  assumes "livesync_idle d" "mset order = mset (all_writers d)" "n \<noteq> 0"
  shows "writer_threads d batch n order =
    Inr (execute_push_block (d\<lparr>ls_texts := (\<lambda>w. if w \<in> set (all_writers d)
       then (case batch w of None \<Rightarrow> [] | Some s \<Rightarrow> s) else [])\<rparr>) n)"
proof -
  let ?r = "ls_api_trigger d"
  have len: "length order = unat (m_number_of_threads ?r)" and set: "set order = set (all_writers d)"
    using assms(1,2) by (auto simp: livesync_idle_def dest: mset_eq_length mset_eq_setD)
  have t: "ls_texts d = (\<lambda>_. [])" and m: "m_completed_threads ?r = Map.empty"
    using assms(1) by (auto simp: livesync_idle_def)
  have "0 < length order" using assms(2) by (auto simp: length_all_writers dest: mset_eq_length)
  then obtain ws w where order: "order = ws @ [w]" by (metis length_greater_0_conv rev_exhaust)
  have inv: "rendezvous_inv ?r"
    using len order m by (simp add: rendezvous_inv_def word_le_nat_alt)
  have zero: "at_stage d n (\<lambda>_. []) 0 = d"
    using t m by (simp add: waiting_at_zero)
  have "writer_threads (at_stage d n (\<lambda>_. []) 0) batch n order =
      Inr (execute_push_block (at_stage d n (put_texts batch order (\<lambda>_. [])) 0) n)"
    using writer_threads_waiting[OF inv assms(3), of 0 ws "\<lambda>_. []" batch]
      writer_thread_report[OF inv assms(3), of "length ws" "put_texts batch ws (\<lambda>_. [])" batch w] len
    by (simp add: order writer_threads_snoc put_texts_snoc split: prod.split)
  then show ?thesis
    unfolding zero using m by (simp add: put_texts_def set waiting_at_zero)
qed

lemma merged_rows:
  assumes "0 < unat threads" "length data + unat threads < 2 ^ 32"
    "\<forall>i < unat threads. ls_texts d (w i) = (case batch_text conv (splitter_trigger (unat threads) data n ! i) of
        None \<Rightarrow> [] | Some s \<Rightarrow> s)"
  shows "merged d w threads = rows_text conv data"
proof -
  have "map (\<lambda>i. ls_texts d (w i)) [0..<unat threads] =
      map (rows_text conv) (map (writer_range data (unat threads)) [0..<unat threads])"
    using assms(3) by (simp add: batch_text_def splitter_trigger_def writer_trigger_def writer_string_def
        flush_scalar_live_data_def rows_text_def split: list.split)
  then show ?thesis
    by (simp only: merged_def get_merged_strings_def fst_conv merge_rows writer_ranges_partition[OF assms(1,2)])
qed

text \<open>The sizes for which the 32-bit arithmetic of the splitters and of the rendezvous is exact.\<close>

definition fits :: "livesync_data_dumper \<Rightarrow> cached_data_t \<Rightarrow> bool" where
  "fits d c \<longleftrightarrow> 0 < unat (transactions_threads d) \<and> 0 < unat (operations_threads d)
     \<and> 0 < unat (account_operation_threads d)
     \<and> length (transactions c) + unat (transactions_threads d) < 2 ^ 32
     \<and> length (operations c) + unat (operations_threads d) < 2 ^ 32
     \<and> length (account_operations c) + unat (account_operation_threads d) < 2 ^ 32"

definition block_command :: "tuple_converters \<Rightarrow> bool \<Rightarrow> cached_data_t \<Rightarrow> string" where
  "block_command cv lite c = push_block_command lite (rows_text (conv_block cv) (blocks c))
     (rows_text (conv_transaction cv) (transactions c)) (rows_text (conv_multisig cv) (transactions_multisig c))
     (rows_text (conv_operation cv) (operations c)) (rows_text (conv_account cv) (accounts c))
     (rows_text (conv_account_operation cv) (account_operations c)) (rows_text (conv_hardfork cv) (applied_hardforks c))"

lemma batch_text_trigger:
  "(case batch_text conv (writer_trigger xs n) of None \<Rightarrow> [] | Some s \<Rightarrow> s) = rows_text conv xs"
  by (cases xs) (simp_all add: batch_text_def writer_trigger_def writer_string_def flush_scalar_live_data_def rows_text_def)

lemma execute_push_block_texts:
  assumes "ls_texts d Block_writer \<noteq> []"
  shows "execute_push_block d n = (d\<lparr>last_dumped_block := n, ls_texts := (\<lambda>_. [])\<rparr>,
    [push_block_command (ls_lite_mode d) (ls_texts d Block_writer)
       (merged d Transaction_writer (transactions_threads d)) (ls_texts d Multisig_writer)
       (merged d Operation_writer (operations_threads d)) (ls_texts d Accounts_writer)
       (merged d Account_operation_writer (account_operation_threads d)) (ls_texts d Hardforks_writer)])"
proof -
  have "(\<lambda>w. case w of Transaction_writer i \<Rightarrow> if True then [] else ls_texts d w
      | Operation_writer i \<Rightarrow> if True then [] else ls_texts d w
      | Account_operation_writer i \<Rightarrow> if True then [] else ls_texts d w | _ \<Rightarrow> []) = (\<lambda>w. [])"
    by (auto split: writer_id.split)
  then show ?thesis using assms by (simp add: execute_push_block_def Let_def)
qed

lemma livesync_flush:
  assumes "livesync_idle d" "fits d c" "mset order = mset (all_writers d)"
    "length (blocks c) = 1" "word_of_int n \<noteq> (0 :: u32)"
  shows "livesync_trigger_data_flush cv d c n order =
    Inr (d\<lparr>last_dumped_block := word_of_int n, currently_processing_block := 0\<rparr>, clear_all_items c,
         [block_command cv (ls_lite_mode d) c])"
proof -
  define d1 where "d1 = d\<lparr>currently_processing_block := word_of_int n\<rparr>"
  define b where "b = writer_batch cv d1 c (word_of_int n)"
  define d2 where "d2 = d1\<lparr>ls_texts := (\<lambda>w. if w \<in> set (all_writers d1)
    then (case b w of None \<Rightarrow> [] | Some s \<Rightarrow> s) else [])\<rparr>"
  have idle: "livesync_idle d1" and ord: "mset order = mset (all_writers d1)"
    using assms(1,3) by (simp_all add: d1_def livesync_idle_def all_writers_def)
  have single: "ls_texts d2 Block_writer = rows_text (conv_block cv) (blocks c)"
    "ls_texts d2 Multisig_writer = rows_text (conv_multisig cv) (transactions_multisig c)"
    "ls_texts d2 Accounts_writer = rows_text (conv_account cv) (accounts c)"
    "ls_texts d2 Hardforks_writer = rows_text (conv_hardfork cv) (applied_hardforks c)"
    by (simp_all add: d2_def b_def all_writers_def writer_batch_def batch_text_trigger)
  have split: "merged d2 Transaction_writer (transactions_threads d) = rows_text (conv_transaction cv) (transactions c)"
    "merged d2 Operation_writer (operations_threads d) = rows_text (conv_operation cv) (operations c)"
    "merged d2 Account_operation_writer (account_operation_threads d) =
       rows_text (conv_account_operation cv) (account_operations c)"
    by (rule merged_rows[where n = "word_of_int n"];
        use assms(2) in \<open>auto simp: fits_def d2_def d1_def b_def all_writers_def writer_batch_def\<close>)+
  have "rows_text (conv_block cv) (blocks c) \<noteq> []" using assms(4) by auto
  then have "execute_push_block d2 (word_of_int n) =
      (d2\<lparr>last_dumped_block := word_of_int n, ls_texts := (\<lambda>_. [])\<rparr>, [block_command cv (ls_lite_mode d) c])"
    using execute_push_block_texts[of d2 "word_of_int n"] single split
    by (simp add: block_command_def d2_def d1_def)
  moreover have "ls_texts d = (\<lambda>_. [])" using assms(1) by (simp add: livesync_idle_def)
  ultimately show ?thesis
    using writer_threads_round[OF idle ord assms(5), of b] assms(4)
    by (simp add: livesync_trigger_data_flush_def Let_def d2_def d1_def b_def)
qed

lemma livesync_idle_update:
  "livesync_idle (d\<lparr>last_dumped_block := n, currently_processing_block := m\<rparr>) = livesync_idle d"
  by (simp add: livesync_idle_def all_writers_def)

text \<open>The constructor gives an idle dumper, as long as the number of threads fits its 32-bit sum.\<close>

lemma new_livesync_dumper_idle:
  assumes "new_livesync_dumper ops trxs acc_ops first lite = Inr d"
    "4 + unat ops + unat trxs + unat acc_ops < 2 ^ 32"
  shows "livesync_idle d"
proof -
  have "unat (4 + ops + trxs + acc_ops) = 4 + unat ops + unat trxs + unat acc_ops"
    using assms(2) by (simp add: unat_word_ariths)
  then show ?thesis
    using assms(1)
    by (auto simp: new_livesync_dumper_def livesync_idle_def length_all_writers block_num_rendezvous_trigger_def
        NUMBER_OF_PROCESSORS_THREADS_def split: if_splits)
qed

definition sample_block :: process_block_t where
  "sample_block = \<lparr>block_number = 7, hash = ''h'', created_at = 0, prev_hash = ''p'', producer_account_id = 3,
     transaction_merkle_root = [], extensions = None, witness_signature = [], signing_key = [],
     hbd_interest_rate = 0, total_vesting_shares = 0, total_vesting_fund_hive = 0,
     total_reward_fund_hive = 0, virtual_supply = 0, current_supply = 0, current_hbd_supply = 0,
     dhf_interval_ledger = 0\<rparr>"

definition sample_converters :: tuple_converters where
  "sample_converters = \<lparr>conv_block = hash, conv_transaction = hash, conv_multisig = hash, conv_operation = op_body,
     conv_account = account_data_name, conv_account_operation = (\<lambda>_. []), conv_hardfork = (\<lambda>_. [])\<rparr>"

definition sample_dumper :: livesync_data_dumper where
  "sample_dumper = \<lparr>operations_threads = 1, transactions_threads = 1, account_operation_threads = 1,
     ls_first_block = 1, ls_lite_mode = False, ls_texts = (\<lambda>_. []),
     ls_api_trigger = \<lparr>m_number_of_threads = 7, m_completed_threads = Map.empty\<rparr>,
     last_dumped_block = 6, currently_processing_block = 0\<rparr>"

definition sample_order :: "writer_id list" where
  "sample_order = [Operation_writer 0, Hardforks_writer, Account_operation_writer 0, Block_writer,
     Transaction_writer 0, Accounts_writer, Multisig_writer]"

lemma sample_dumper_idle: "livesync_idle sample_dumper"
  by (simp add: livesync_idle_def sample_dumper_def length_all_writers)

lemma sample_order_mset: "mset sample_order = mset (all_writers sample_dumper)"
  by (simp add: sample_order_def all_writers_def sample_dumper_def)

text \<open>C4: In whatever order the writer threads finish, flushing one block in LIVE gives exactly one
  command, the \<open>hive.push_block\<close> of all rows of the cache in their order; the cache is left empty, the
  block is recorded as the last dumped one, and the dumper is idle again for the next block.\<close>

theorem one_push_block_per_flush:
  assumes "livesync_idle d" "fits d c" "mset order = mset (all_writers d)"
    "length (blocks c) = 1" "word_of_int n \<noteq> (0 :: u32)"
  shows "\<exists>d'. livesync_trigger_data_flush cv d c n order =
      Inr (d', clear_all_items c, [block_command cv (ls_lite_mode d) c])
    \<and> livesync_idle d' \<and> last_dumped_block d' = word_of_int n"
  using livesync_flush[OF assms, of cv] assms(1) by (simp add: livesync_idle_update)

theorem one_push_block_per_flush_witness:
  "\<exists>d'. livesync_trigger_data_flush sample_converters sample_dumper (empty_cached_data\<lparr>blocks := [sample_block]\<rparr>) 7
        sample_order =
      Inr (d', clear_all_items (empty_cached_data\<lparr>blocks := [sample_block]\<rparr>),
        [block_command sample_converters (ls_lite_mode sample_dumper) (empty_cached_data\<lparr>blocks := [sample_block]\<rparr>)])
    \<and> livesync_idle d' \<and> last_dumped_block d' = word_of_int 7"
  by (rule one_push_block_per_flush[OF sample_dumper_idle _ sample_order_mset])
    (simp_all add: fits_def sample_dumper_def empty_cached_data_def)

text \<open>C28: Outside lite mode, when a block fails right after its flush, the commands of the flush and of
  the failure together are its \<open>push_block\<close> followed by \<open>back_from_fork\<close> to its predecessor; the failure
  of any other block causes no command.\<close>

theorem failed_block_is_rewound:
  assumes "livesync_idle d" "fits d c" "mset order = mset (all_writers d)" "\<not> ls_lite_mode d"
    "length (blocks c) = 1" "word_of_int n \<noteq> (0 :: u32)" "m \<noteq> 0"
    "livesync_trigger_data_flush cv d c n order = Inr (d', c', commands)"
  shows "commands @ livesync_on_event d' (Block_fail m) = block_command cv False c #
    (if m = word_of_int n then [''SELECT hive.back_from_fork('' @ u32_to_string (word_of_int n - 1) @ '')''] else [])"
  using livesync_flush[OF assms(1-3,5,6), of cv] assms(4,7,8)
  by (auto simp: livesync_on_event_def livesync_on_block_fail_def)

theorem failed_block_is_rewound_witness:
  "\<exists>d' c' commands. livesync_trigger_data_flush sample_converters sample_dumper
        (empty_cached_data\<lparr>blocks := [sample_block]\<rparr>) 7 sample_order = Inr (d', c', commands)
    \<and> commands @ livesync_on_event d' (Block_fail 7) =
        block_command sample_converters False (empty_cached_data\<lparr>blocks := [sample_block]\<rparr>) #
        (if (7 :: u32) = word_of_int 7
         then [''SELECT hive.back_from_fork('' @ u32_to_string (word_of_int 7 - 1) @ '')''] else [])"
proof -
  have f: "fits sample_dumper (empty_cached_data\<lparr>blocks := [sample_block]\<rparr>)" "\<not> ls_lite_mode sample_dumper"
    by (simp_all add: fits_def sample_dumper_def empty_cached_data_def)
  have n: "word_of_int 7 \<noteq> (0 :: u32)" "(7 :: u32) \<noteq> 0" by simp_all
  have b: "length (blocks (empty_cached_data\<lparr>blocks := [sample_block]\<rparr>)) = 1" by simp
  show ?thesis
    using failed_block_is_rewound[OF sample_dumper_idle f(1) sample_order_mset f(2) b n]
      livesync_flush[OF sample_dumper_idle f(1) sample_order_mset b n(1)] by blast
qed

end
