(* ===== verification/Reindex_Dumper.thy ===== *)
theory Reindex_Dumper
  imports Cached_Data Rendezvous Writers Tx_Controller
begin

text \<open>
  \<open>reindex_data_dumper.cpp\<close>, the dumper of massive synchronisation, and \<open>end_massive_sync_processor.cpp\<close>.
  With foreign keys dropped the seven kinds of writers copy in parallel, each in its own
  transactions, and the last one to finish a batch calls \<open>hive.end_massive_sync\<close> for it; with foreign
  keys in place everything is copied in one transaction in a fixed order.
\<close>

text \<open>One \<open>COPY\<close> of rows to a table of the schema \<open>hafd\<close>.\<close>

datatype copy_batch =
    Copy_blocks "process_block_t list"
  | Copy_transactions "process_transaction_t list"
  | Copy_multisig "process_transaction_multisig_t list"
  | Copy_operations "process_operation_t list"
  | Copy_accounts "account_data_t list"
  | Copy_account_operations "account_operation_data_t list"
  | Copy_hardforks "applied_hardforks_t list"

record reindex_data_dumper =
  rd_operations_writers :: nat
  rd_transactions_writers :: nat
  rd_account_operations_writers :: nat
  rd_api_trigger :: rendezvous
  synchronous_mode :: bool

text \<open>The splitters take their number of writers as \<open>uint8_t\<close>, the rendezvous counts \<open>uint32_t\<close>.\<close>

definition sql_splitter_writers :: "u32 \<Rightarrow> nat result" where
  "sql_splitter_writers threads =
     (let n = unat (ucast threads :: 8 word)
      in rbind (fc_assert (0 < n) ''number_of_threads > 0'') (\<lambda>_. Inr n))"

definition new_reindex_dumper :: "u32 \<Rightarrow> u32 \<Rightarrow> u32 \<Rightarrow> bool \<Rightarrow> reindex_data_dumper result" where
  "new_reindex_dumper ops trxs acc_ops synchronous =
     rbind (block_num_rendezvous_trigger (4 + ops + trxs + acc_ops) True) (\<lambda>trigger.
     rbind (sql_splitter_writers trxs) (\<lambda>tn.
     rbind (sql_splitter_writers ops) (\<lambda>opn.
     rbind (sql_splitter_writers acc_ops) (\<lambda>an.
       Inr \<lparr>rd_operations_writers = opn, rd_transactions_writers = tn, rd_account_operations_writers = an,
            rd_api_trigger = trigger, synchronous_mode = synchronous\<rparr>))))"

definition writer_threads_number :: "reindex_data_dumper \<Rightarrow> nat" where
  "writer_threads_number d =
     4 + rd_operations_writers d + rd_transactions_writers d + rd_account_operations_writers d"

text \<open>The parallel flush: what each writer thread receives, in the order of the calls.\<close>

definition batch_of :: "('a list \<Rightarrow> copy_batch) \<Rightarrow> 'a list queued_batch \<Rightarrow> copy_batch queued_batch" where
  "batch_of mk b = \<lparr>batch_data = mk (batch_data b), last_block_num = last_block_num b, report_only = report_only b\<rparr>"

definition parallel_flush :: "reindex_data_dumper \<Rightarrow> cached_data_t \<Rightarrow> int \<Rightarrow> copy_batch queued_batch list \<times> cached_data_t" where
  "parallel_flush d c last_block =
     (let n = word_of_int last_block in
      ([batch_of Copy_blocks (writer_trigger (blocks c) n)]
       @ map (batch_of Copy_transactions) (splitter_trigger (rd_transactions_writers d) (transactions c) n)
       @ map (batch_of Copy_operations) (splitter_trigger (rd_operations_writers d) (operations c) n)
       @ [batch_of Copy_multisig (writer_trigger (transactions_multisig c) n)]
       @ [batch_of Copy_accounts (writer_trigger (accounts c) n)]
       @ map (batch_of Copy_account_operations)
           (splitter_trigger (rd_account_operations_writers d) (account_operations c) n)
       @ [batch_of Copy_hardforks (writer_trigger (applied_hardforks c) n)],
       clear_all_items c))"





subsection \<open>The order of the synchronous flush and the foreign keys\<close>

definition copy_rows :: "copy_batch \<Rightarrow> cached_items \<Rightarrow> cached_items" where
  "copy_rows b t = (case b of
     Copy_blocks xs \<Rightarrow> t\<lparr>blocks := blocks t @ xs\<rparr>
   | Copy_transactions xs \<Rightarrow> t\<lparr>transactions := transactions t @ xs\<rparr>
   | Copy_multisig xs \<Rightarrow> t\<lparr>transactions_multisig := transactions_multisig t @ xs\<rparr>
   | Copy_operations xs \<Rightarrow> t\<lparr>operations := operations t @ xs\<rparr>
   | Copy_accounts xs \<Rightarrow> t\<lparr>accounts := accounts t @ xs\<rparr>
   | Copy_account_operations xs \<Rightarrow> t\<lparr>account_operations := account_operations t @ xs\<rparr>
   | Copy_hardforks xs \<Rightarrow> t\<lparr>applied_hardforks := applied_hardforks t @ xs\<rparr>)"


definition deferred_fks :: "cached_items \<Rightarrow> bool" where
  "deferred_fks t \<longleftrightarrow> (\<forall>x \<in> set (blocks t). producer_account_id x \<in> account_data_id ` set (accounts t))"



lemma copy_rows_Nil [simp]:
  "copy_rows (Copy_blocks []) t = t" "copy_rows (Copy_transactions []) t = t" "copy_rows (Copy_multisig []) t = t"
  "copy_rows (Copy_operations []) t = t" "copy_rows (Copy_accounts []) t = t"
  "copy_rows (Copy_account_operations []) t = t" "copy_rows (Copy_hardforks []) t = t"
  by (simp_all add: copy_rows_def)




subsection \<open>The order of the calls of \<open>hive.end_massive_sync\<close>\<close>

text \<open>
  Every writer thread works off the same batches in order.  Reporting a batch is one step; when it
  completes the round, the same thread then runs the triggered function, which appends the block to
  the queue of the end massive sync processor, as a second step.  Between the two steps all other
  threads may go on.
\<close>

record massive_sync =
  ms_trigger :: rendezvous
  ms_todo :: "nat \<Rightarrow> u32 list"
  ms_firing :: "nat \<Rightarrow> u32 option"
  end_massive_sync_calls :: "u32 list"

inductive massive_step :: "nat \<Rightarrow> massive_sync \<Rightarrow> massive_sync \<Rightarrow> bool" for threads where
  thread_report: "i < threads \<Longrightarrow> ms_firing s i = None \<Longrightarrow> ms_todo s i = b # bs \<Longrightarrow>
    report_complete_thread_stage (ms_trigger s) b = Inr (r, f) \<Longrightarrow>
    massive_step threads s (s\<lparr>ms_trigger := r, ms_todo := (ms_todo s)(i := bs), ms_firing := (ms_firing s)(i := f)\<rparr>)"
| thread_fire: "i < threads \<Longrightarrow> ms_firing s i = Some b \<Longrightarrow>
    massive_step threads s (s\<lparr>ms_firing := (ms_firing s)(i := None),
      end_massive_sync_calls := end_massive_sync_calls s @ (if b \<noteq> 0 then [b] else [])\<rparr>)"

definition massive_start :: "rendezvous \<Rightarrow> u32 list \<Rightarrow> massive_sync" where
  "massive_start r bs = \<lparr>ms_trigger = r, ms_todo = (\<lambda>_. bs), ms_firing = (\<lambda>_. None), end_massive_sync_calls = []\<rparr>"

inductive massive_reachable for threads s0 where
  massive_refl: "massive_reachable threads s0 s0"
| massive_trans: "massive_reachable threads s0 s \<Longrightarrow> massive_step threads s s' \<Longrightarrow> massive_reachable threads s0 s'"

text \<open>Thread \<open>i\<close> has reported \<open>k i\<close> batches, and \<open>m\<close> rounds are complete.\<close>

definition massive_inv :: "nat \<Rightarrow> u32 list \<Rightarrow> (nat \<Rightarrow> nat) \<Rightarrow> nat \<Rightarrow> massive_sync \<Rightarrow> bool" where
  "massive_inv threads bs k m s \<longleftrightarrow>
     rendezvous_inv (ms_trigger s) \<and> unat (m_number_of_threads (ms_trigger s)) = threads
   \<and> (\<forall>i < threads. k i \<le> length bs \<and> ms_todo s i = drop (k i) bs \<and> m \<le> k i)
   \<and> (\<exists>i < threads. k i = m)
   \<and> (\<forall>j < length bs. pending (ms_trigger s) (bs ! j) = card {i. i < threads \<and> j < k i} mod threads)
   \<and> ((\<forall>i < threads. ms_firing s i = None) \<and> end_massive_sync_calls s = take m bs
      \<or> (\<exists>i < threads. 0 < m \<and> k i = m \<and> ms_firing s i = Some (bs ! (m - 1))
           \<and> (\<forall>j < threads. j \<noteq> i \<longrightarrow> ms_firing s j = None) \<and> end_massive_sync_calls s = take (m - 1) bs))"

lemma card_reported:
  fixes k :: "nat \<Rightarrow> nat"
  assumes "i < threads"
  shows "card {l. l < threads \<and> j < (k(i := Suc (k i))) l} =
    (if j = k i then Suc (card {l. l < threads \<and> j < k l}) else card {l. l < threads \<and> j < k l})"
proof (cases "j = k i")
  case True
  have "{l. l < threads \<and> j < (k(i := Suc (k i))) l} = insert i {l. l < threads \<and> j < k l}"
    using assms True by auto
  moreover have "finite {l. l < threads \<and> j < k l}" by simp
  ultimately show ?thesis using True by simp
next
  case False
  then have "{l. l < threads \<and> j < (k(i := Suc (k i))) l} = {l. l < threads \<and> j < k l}"
    by (auto split: if_splits)
  then show ?thesis using False by simp
qed

lemma card_others:
  assumes "i < threads" "\<not> j < k i"
  shows "Suc (card {l. l < threads \<and> j < k l}) = threads \<longleftrightarrow> (\<forall>l < threads. l \<noteq> i \<longrightarrow> j < k l)"
    and "card {l. l < threads \<and> j < k l} < threads"
proof -
  let ?A = "{l. l < threads \<and> j < k l}" and ?B = "{..<threads} - {i}"
  have sub: "?A \<subseteq> ?B" using assms by auto
  have fin: "finite ?B" by simp
  have card: "Suc (card ?B) = threads" using assms(1) by simp
  then show "card ?A < threads" using card_mono[OF fin sub] by simp
  have suc: "Suc a = c \<longleftrightarrow> a = b" if "Suc b = c" for a b c :: nat using that by auto
  have "card ?A = card ?B \<longleftrightarrow> ?A = ?B" using card_subset_eq[OF fin sub] by metis
  moreover have "?A = ?B \<longleftrightarrow> (\<forall>l < threads. l \<noteq> i \<longrightarrow> j < k l)" using sub by blast
  ultimately show "Suc (card ?A) = threads \<longleftrightarrow> (\<forall>l < threads. l \<noteq> i \<longrightarrow> j < k l)"
    using suc[OF card, of "card ?A"] by (simp only:)
qed

lemma massive_fire_inv:
  assumes "massive_inv threads bs k m s" "i < threads" "ms_firing s i = Some b" "0 \<notin> set bs"
  shows "massive_inv threads bs k m (s\<lparr>ms_firing := (ms_firing s)(i := None),
      end_massive_sync_calls := end_massive_sync_calls s @ (if b \<noteq> 0 then [b] else [])\<rparr>)"
proof -
  have fire: "0 < m" "k i = m" "b = bs ! (m - 1)" "end_massive_sync_calls s = take (m - 1) bs"
    "\<forall>j < threads. j \<noteq> i \<longrightarrow> ms_firing s j = None"
  proof -
    obtain l where l: "l < threads" "0 < m" "k l = m" "ms_firing s l = Some (bs ! (m - 1))"
      "\<forall>j < threads. j \<noteq> l \<longrightarrow> ms_firing s j = None" "end_massive_sync_calls s = take (m - 1) bs"
      using assms(1-3) unfolding massive_inv_def by auto
    moreover have "l = i" using l(5) assms(2,3) by (metis option.distinct(1))
    ultimately show "0 < m" "k i = m" "b = bs ! (m - 1)" "end_massive_sync_calls s = take (m - 1) bs"
      "\<forall>j < threads. j \<noteq> i \<longrightarrow> ms_firing s j = None"
      using assms(3) by simp_all
  qed
  have m: "m - 1 < length bs"
  proof -
    have "k i \<le> length bs" using assms(1,2) by (simp add: massive_inv_def)
    then show ?thesis using fire(1,2) by simp
  qed
  then have "b \<noteq> 0" using fire(3) assms(4) by (metis nth_mem)
  moreover have "take (m - 1) bs @ [bs ! (m - 1)] = take m bs"
    using m fire(1) by (metis Suc_diff_1 take_Suc_conv_app_nth)
  ultimately show ?thesis
    using assms(1) fire unfolding massive_inv_def by (simp del: One_nat_def)
qed

lemma massive_report_inv:
  assumes inv: "massive_inv threads bs k m s" and "distinct bs" "i < threads" "ms_firing s i = None"
    "ms_todo s i = b # rest" "report_complete_thread_stage (ms_trigger s) b = Inr (r, f)"
  shows "\<exists>m'. massive_inv threads bs (k(i := Suc (k i))) m'
    (s\<lparr>ms_trigger := r, ms_todo := (ms_todo s)(i := rest), ms_firing := (ms_firing s)(i := f)\<rparr>)"
proof -
  let ?card = "\<lambda>j. card {l. l < threads \<and> j < k l}"
  have rinv: "rendezvous_inv (ms_trigger s)" and n: "unat (m_number_of_threads (ms_trigger s)) = threads"
    and todo: "\<forall>l < threads. k l \<le> length bs \<and> ms_todo s l = drop (k l) bs \<and> m \<le> k l"
    and pend: "\<forall>j < length bs. pending (ms_trigger s) (bs ! j) = ?card j mod threads"
    using inv by (auto simp: massive_inv_def)
  have "drop (k i) bs = b # rest" using todo assms(3,5) by simp
  then have ki: "k i < length bs" and b: "b = bs ! k i" and rest: "rest = drop (Suc (k i)) bs"
    by (metis drop_all list.distinct(1) not_le, metis hd_drop_conv_nth drop_all list.distinct(1) list.sel(1) not_le,
        metis drop_Suc drop_tl list.sel(3))
  have r: "rendezvous_inv r" "unat (m_number_of_threads r) = threads"
    using rv.report_inv[OF rinv assms(6)] n by auto
  have below: "?card (k i) < threads" using card_others(2)[of i threads "k i" k] assms(3) by simp
  then have pb: "pending (ms_trigger s) b = ?card (k i)" using pend ki b by simp
  have f: "f = (if \<forall>l < threads. l \<noteq> i \<longrightarrow> k i < k l then Some b else None)"
    using rv.report_fires[OF rinv assms(6)] pb n card_others(1)[of i threads "k i" k] assms(3) by simp
  have pend': "pending r (bs ! j) = card {l. l < threads \<and> j < (k(i := Suc (k i))) l} mod threads"
    if "j < length bs" for j
  proof -
    have "bs ! j = b \<longleftrightarrow> j = k i" using that ki b assms(2) by (simp add: nth_eq_iff_index_eq)
    then show ?thesis
      using rv.report_waiting[OF rinv assms(6), of "bs ! j"] pend that pb n
      by (simp only: card_reported[OF assms(3)] split: if_split) simp
  qed
  let ?k' = "k(i := Suc (k i))"
  let ?s' = "s\<lparr>ms_trigger := r, ms_todo := (ms_todo s)(i := rest), ms_firing := (ms_firing s)(i := f)\<rparr>"
  have invI: "massive_inv threads bs ?k' m' ?s'"
    if "\<forall>l < threads. m' \<le> ?k' l" "\<exists>l < threads. ?k' l = m'"
      "(\<forall>l < threads. ms_firing ?s' l = None) \<and> end_massive_sync_calls ?s' = take m' bs
        \<or> (\<exists>l < threads. 0 < m' \<and> ?k' l = m' \<and> ms_firing ?s' l = Some (bs ! (m' - 1))
           \<and> (\<forall>j < threads. j \<noteq> l \<longrightarrow> ms_firing ?s' j = None) \<and> end_massive_sync_calls ?s' = take (m' - 1) bs)"
    for m'
  proof -
    have "\<forall>l < threads. ?k' l \<le> length bs \<and> ms_todo ?s' l = drop (?k' l) bs \<and> m' \<le> ?k' l"
      using todo ki rest that(1) by (simp add: Suc_leI)
    then show ?thesis using r pend' that(2,3) unfolding massive_inv_def by simp
  qed
  show ?thesis
  proof (cases "\<forall>l < threads. l \<noteq> i \<longrightarrow> k i < k l")
    case True
    have m: "m = k i" using inv True assms(3) unfolding massive_inv_def by (metis leD)
    have "\<not> (\<exists>l < threads. k l = m \<and> ms_firing s l \<noteq> None)"
      using True m assms(4) by (metis less_irrefl)
    then have idle: "\<forall>l < threads. ms_firing s l = None" and calls: "end_massive_sync_calls s = take m bs"
      using inv by (auto simp: massive_inv_def)
    have "massive_inv threads bs ?k' (Suc m) ?s'"
    proof (rule invI)
      show "\<forall>l < threads. Suc m \<le> ?k' l" using True m by (simp add: Suc_leI)
      show "\<exists>l < threads. ?k' l = Suc m" using m assms(3) by auto
    qed (use f True b m idle calls assms(3) in simp)
    then show ?thesis ..
  next
    case False
    then obtain l where l: "l < threads" "l \<noteq> i" "k l \<le> k i" by (auto simp: not_less)
    have "\<exists>l < threads. ?k' l = m"
    proof -
      obtain l' where l': "l' < threads" "k l' = m" using inv by (auto simp: massive_inv_def)
      have "l' = i \<Longrightarrow> k l = m" using l l' todo by (simp add: le_antisym)
      then show ?thesis using l l' by (cases "l' = i") auto
    qed
    moreover have "(\<forall>l < threads. ms_firing s l = None) \<and> end_massive_sync_calls s = take m bs
      \<or> (\<exists>l < threads. l \<noteq> i \<and> 0 < m \<and> k l = m \<and> ms_firing s l = Some (bs ! (m - 1))
           \<and> (\<forall>j < threads. j \<noteq> l \<longrightarrow> ms_firing s j = None) \<and> end_massive_sync_calls s = take (m - 1) bs)"
    proof -
      have "l \<noteq> i" if "ms_firing s l = Some x" for l x using that assms(4) by auto
      then show ?thesis using inv unfolding massive_inv_def by fast
    qed
    ultimately have "massive_inv threads bs ?k' m ?s'"
      using f False todo by (intro invI) (auto simp: le_SucI)
    then show ?thesis ..
  qed
qed

lemma massive_start_inv:
  assumes "block_num_rendezvous_trigger n True = Inr r"
  shows "massive_inv (unat n) bs (\<lambda>_. 0) 0 (massive_start r bs)"
proof -
  have n: "1 \<le> n" and r: "r = \<lparr>m_number_of_threads = n, m_completed_threads = Map.empty\<rparr>"
    using assms by (auto simp: block_num_rendezvous_trigger_def one_le_u32_iff split: if_splits)
  then have "0 < unat n" by (simp add: word_le_nat_alt)
  then show ?thesis
    using n by (auto simp: massive_inv_def massive_start_def r rendezvous_inv_def pending_def)
qed

lemma massive_reachable_inv:
  assumes "massive_reachable (unat n) (massive_start r bs) s"
    and "block_num_rendezvous_trigger n True = Inr r" "distinct bs" "0 \<notin> set bs"
  shows "\<exists>k m. massive_inv (unat n) bs k m s"
  using assms(1)
proof induction
  case massive_refl
  show ?case using massive_start_inv[OF assms(2)] by blast
next
  case (massive_trans s s')
  obtain k m where inv: "massive_inv (unat n) bs k m s" using massive_trans.IH by blast
  from massive_trans.hyps(2) show ?case
  proof cases
    case (thread_report i b rest r f)
    then show ?thesis using massive_report_inv[OF inv assms(3) thread_report(2-5)] by blast
  next
    case (thread_fire i b)
    then show ?thesis using massive_fire_inv[OF inv thread_fire(2,3) assms(4)] by blast
  qed
qed

subsection \<open>Properties\<close>





text \<open>C5: Whatever the interleaving of the writer threads, \<open>hive.end_massive_sync\<close> is called for the
  batches in their order, each at most once and never before all threads have reported the batch; when
  all threads are done it has been called for every batch.\<close>

theorem end_massive_sync_in_order:
  assumes "block_num_rendezvous_trigger n True = Inr r" "distinct bs" "0 \<notin> set bs"
    "massive_reachable (unat n) (massive_start r bs) s"
  shows "\<exists>m. end_massive_sync_calls s = take m bs
    \<and> (\<forall>i < unat n. length (ms_todo s i) \<le> length bs - m)
    \<and> ((\<forall>i < unat n. ms_todo s i = [] \<and> ms_firing s i = None) \<longrightarrow> end_massive_sync_calls s = bs)"
proof -
  obtain k m where inv: "massive_inv (unat n) bs k m s"
    using massive_reachable_inv[OF assms(4,1-3)] by blast
  then have k: "\<forall>i < unat n. k i \<le> length bs \<and> ms_todo s i = drop (k i) bs \<and> m \<le> k i"
    by (simp add: massive_inv_def)
  have calls: "(\<forall>i < unat n. ms_firing s i = None) \<and> end_massive_sync_calls s = take m bs
      \<or> (\<exists>i < unat n. ms_firing s i \<noteq> None) \<and> end_massive_sync_calls s = take (m - 1) bs"
    using inv unfolding massive_inv_def by auto
  obtain l where l: "l < unat n" "k l = m" using inv by (auto simp: massive_inv_def)
  have *: "length bs \<le> m" if "\<forall>i < unat n. ms_todo s i = [] \<and> ms_firing s i = None"
  proof -
    have "drop m bs = []" using that l k by auto
    then show ?thesis by simp
  qed
  have **: "length (ms_todo s i) \<le> length bs - m" if "i < unat n" for i
    using k that by auto
  show ?thesis
    using calls
  proof
    assume "(\<forall>i < unat n. ms_firing s i = None) \<and> end_massive_sync_calls s = take m bs"
    then show ?thesis using * ** by (intro exI[of _ m]) auto
  next
    assume fire: "(\<exists>i < unat n. ms_firing s i \<noteq> None) \<and> end_massive_sync_calls s = take (m - 1) bs"
    have "length (ms_todo s i) \<le> length bs - (m - 1)" if "i < unat n" for i
      using **[OF that] by linarith
    then show ?thesis using fire by (intro exI[of _ "m - 1"]) auto
  qed
qed

definition sample_massive :: massive_sync where
  "sample_massive = \<lparr>ms_trigger = \<lparr>m_number_of_threads = 2, m_completed_threads = [9 \<mapsto> 1]\<rparr>,
     ms_todo = (\<lambda>_. [7, 9])(0 := [9], 1 := [9], 0 := []),
     ms_firing = (\<lambda>_. None)(1 := Some 7, 0 := None), end_massive_sync_calls = []\<rparr>"

text \<open>A state in which thread 0 has already reported the second batch while thread 1 has not yet called
  the function for the first one.\<close>

lemma sample_massive_reachable:
  "massive_reachable (unat (2 :: u32)) (massive_start \<lparr>m_number_of_threads = 2, m_completed_threads = Map.empty\<rparr> [7, 9])
     sample_massive"
proof -
  let ?r = "\<lambda>m. \<lparr>m_number_of_threads = 2, m_completed_threads = m\<rparr> :: rendezvous"
  let ?s1 = "\<lparr>ms_trigger = ?r [7 \<mapsto> 1], ms_todo = (\<lambda>_. [7, 9])(0 := [9]), ms_firing = (\<lambda>_. None), end_massive_sync_calls = []\<rparr>"
  let ?s2 = "\<lparr>ms_trigger = ?r Map.empty, ms_todo = (\<lambda>_. [7, 9])(0 := [9], 1 := [9]), ms_firing = (\<lambda>_. None)(1 := Some 7), end_massive_sync_calls = []\<rparr>"
  let ?step = "massive_step (unat (2 :: u32))"
  note simps = report_complete_thread_stage_def fc_assert_def fun_eq_iff
  have "?step (massive_start (?r Map.empty) [7, 9]) ?s1"
    using massive_step.thread_report[of 0 "unat (2 :: u32)" "massive_start (?r Map.empty) [7, 9]" 7 "[9]" "?r [7 \<mapsto> 1]" None]
    by (simp add: massive_start_def simps)
  moreover have "?step ?s1 ?s2"
    using massive_step.thread_report[of 1 "unat (2 :: u32)" ?s1 7 "[9]" "?r Map.empty" "Some 7"]
    by (simp add: simps fun_upd_def)
  moreover have "?step ?s2 sample_massive"
    using massive_step.thread_report[of 0 "unat (2 :: u32)" ?s2 9 "[]" "?r [9 \<mapsto> 1]" None]
    by (simp add: simps sample_massive_def fun_upd_def)
  ultimately show ?thesis by (blast intro: massive_reachable.intros)
qed

theorem end_massive_sync_in_order_witness:
  "\<exists>m. end_massive_sync_calls sample_massive = take m [7, 9]
    \<and> length (ms_todo sample_massive 0) \<le> 2 - m \<and> length (ms_todo sample_massive 1) \<le> 2 - m"
proof -
  have "block_num_rendezvous_trigger 2 True = Inr \<lparr>m_number_of_threads = 2, m_completed_threads = Map.empty\<rparr>"
    by (simp add: block_num_rendezvous_trigger_def)
  from end_massive_sync_in_order[OF this _ _ sample_massive_reachable]
  obtain m where m: "end_massive_sync_calls sample_massive = take m [7, 9]"
    "\<forall>i < unat (2 :: u32). length (ms_todo sample_massive i) \<le> length [7 :: u32, 9] - m" by auto
  have "length (ms_todo sample_massive i) \<le> 2 - m" if "i < 2" for i
    using m(2)[rule_format, of i] that by simp
  from this[of 0] this[of 1] have "length (ms_todo sample_massive 0) \<le> 2 - m" "length (ms_todo sample_massive 1) \<le> 2 - m"
    by simp_all
  then show ?thesis using m(1) by blast
qed

lemma unat_ucast_8: "unat (ucast (w :: u32) :: 8 word) = unat w mod 256"
proof -
  have "nat (x mod 256) = nat (x mod 4294967296) mod 256" for x :: int
    using nat_mod_distrib[of "x mod 4294967296" 256] mod_mod_cancel[of 256 4294967296 x] by simp
  then show ?thesis by transfer (simp add: take_bit_eq_mod)
qed

lemma new_reindex_dumper_writers:
  assumes "new_reindex_dumper ops trxs acc_ops sync = Inr d"
  shows "writer_threads_number d = 4 + unat ops mod 256 + unat trxs mod 256 + unat acc_ops mod 256"
    and "rd_api_trigger d = \<lparr>m_number_of_threads = 4 + ops + trxs + acc_ops, m_completed_threads = Map.empty\<rparr>"
    and "rendezvous_inv (rd_api_trigger d)"
  using assms
  by (auto simp: new_reindex_dumper_def sql_splitter_writers_def Let_def writer_threads_number_def unat_ucast_8
      block_num_rendezvous_trigger_def rendezvous_inv_def rbind_eq_Inr_iff fc_assert_def one_le_u32_iff split: if_splits)

text \<open>The splitters keep only the low eight bits of the configured numbers of threads while the
  rendezvous counts all of them: with more than 255 operation threads, batches are reported by fewer
  threads than the rendezvous waits for and \<open>hive.end_massive_sync\<close> is never called.\<close>

theorem too_many_threads_never_end_massive_sync:
  assumes "new_reindex_dumper ops trxs acc_ops False = Inr d" "255 < unat ops"
    "4 + unat ops + unat trxs + unat acc_ops < 2 ^ 32"
    "\<forall>b. count_list reports b \<le> writer_threads_number d"
  shows "\<exists>r'. report_all (rd_api_trigger d) reports = Inr (r', [])"
proof -
  note d = new_reindex_dumper_writers[OF assms(1)]
  have n: "unat (m_number_of_threads (rd_api_trigger d)) = 4 + unat ops + unat trxs + unat acc_ops"
    using assms(3) by (simp add: d(2) unat_word_ariths)
  have "unat ops mod 256 < 256" "unat trxs mod 256 \<le> unat trxs" "unat acc_ops mod 256 \<le> unat acc_ops"
    by simp_all
  then have less: "writer_threads_number d < unat (m_number_of_threads (rd_api_trigger d))"
    using assms(2) by (simp only: n d(1))
  obtain r' fs where run: "rv.reports (rd_api_trigger d) reports r' fs"
    using rv.reports_total[OF d(3)] by blast
  have "count_list fs b = 0" for b
  proof -
    have "count_list reports b < unat (m_number_of_threads (rd_api_trigger d))"
      using assms(4) less le_less_trans by blast
    then show ?thesis
      using rv.reports_fired[OF run d(3), of b] by (simp add: d(2) pending_def)
  qed
  then have "fs = []" by (metis count_list_0_iff list.set_intros(1) neq_Nil_conv)
  then show ?thesis using report_all_reports[THEN iffD2, OF run] by blast
qed

theorem too_many_threads_never_end_massive_sync_witness:
  "\<exists>d r'. new_reindex_dumper 257 1 1 False = Inr d \<and> writer_threads_number d = 7
     \<and> report_all (rd_api_trigger d) (replicate 7 42) = Inr (r', [])"
proof -
  obtain d where d: "new_reindex_dumper 257 1 1 False = Inr d"
    by (auto simp: new_reindex_dumper_def block_num_rendezvous_trigger_def sql_splitter_writers_def Let_def unat_ucast_8)
  have n: "writer_threads_number d = 7" using new_reindex_dumper_writers(1)[OF d] by simp
  have "count_list (replicate m x) b \<le> m" for m and x b :: u32 by (induction m) auto
  then show ?thesis
    using too_many_threads_never_end_massive_sync[OF d, of "replicate 7 42"] d n by auto
qed

end
