(* ===== verification/Write_Ahead_Log.thy ===== *)
theory Write_Ahead_Log
  imports Decimal "HOL-Library.AList" "HOL-Library.List_Lexorder" "HOL-Library.Char_ord"
begin

text \<open>
  The write-ahead log (\<open>write_ahead_log.hpp\<close>, \<open>write_ahead_log.cpp\<close>): sequence numbers that wrap at
  \<open>2147483647\<close>, the record format of a log file, and the manager of the list of log files.

  \<^item> The directory of the log is an association list from file names to contents; a \<open>log_file\<close> refers
    to its contents by name, so that a crash keeps the directory and loses the manager.
  \<^item> A stream that is written appends; a stream that is read fails when the bytes run out.
  \<^item> Every public operation holds the manager's mutex and is therefore one step.
\<close>

named_theorems wal_defs "definitions of the log manager"

type_synonym sequence_number_t = int
type_synonym wal_record = "sequence_number_t \<times> string"
type_synonym directory = "(string \<times> string) list"

definition max_sequence_number :: int where
  "max_sequence_number = 2147483647"

definition max_log_size :: u32 where
  "max_log_size = push_bit 20 100"

record log_file =
  creation_time_string :: string
  serial_number :: u32
  filename :: string
  file_size :: u32
  sequence_number_range :: "(sequence_number_t \<times> sequence_number_t) option"

record write_ahead_log_manager =
  wal_directory :: directory
  log_files :: "log_file list"
  wal_is_open :: bool
  last_sequence_number :: "sequence_number_t option"
  last_completed_transaction_sequence_number :: "sequence_number_t option"

definition new_manager :: "directory \<Rightarrow> write_ahead_log_manager" where
  "new_manager dir = \<lparr>wal_directory = dir, log_files = [], wal_is_open = False,
     last_sequence_number = None, last_completed_transaction_sequence_number = None\<rparr>"


subsection \<open>Sequence numbers\<close>

definition is_less_than :: "sequence_number_t \<Rightarrow> sequence_number_t \<Rightarrow> bool" where
  "is_less_than lhs rhs \<longleftrightarrow>
     (lhs < rhs \<and> rhs - lhs < max_sequence_number div 2) \<or>
     (lhs > rhs \<and> lhs - rhs > max_sequence_number div 2)"

definition get_sequence_number_after :: "sequence_number_t \<Rightarrow> sequence_number_t" where
  "get_sequence_number_after n = (if n = max_sequence_number then 0 else n + 1)"

definition get_next_sequence_number ::
    "write_ahead_log_manager \<Rightarrow> write_ahead_log_manager \<times> sequence_number_t" where
  "get_next_sequence_number m =
     (let n = (case last_sequence_number m of Some l \<Rightarrow> get_sequence_number_after l | None \<Rightarrow> 0)
      in (m\<lparr>last_sequence_number := Some n\<rparr>, n))"


subsection \<open>Records of a log file\<close>

abbreviation newline :: char where
  "newline \<equiv> CHR 0x0A"

definition begin_line :: "sequence_number_t \<Rightarrow> nat \<Rightarrow> string" where
  "begin_line n len = ''begin '' @ pad_left 10 (CHR '' '') (int_to_string n) @ '' '' @
     pad_left 10 (CHR '' '') (nat_to_string len) @ [newline]"

definition end_line :: "sequence_number_t \<Rightarrow> nat \<Rightarrow> string" where
  "end_line n len = newline # ''end '' @ pad_left 10 (CHR '' '') (int_to_string n) @ '' '' @
     pad_left 10 (CHR '' '') (nat_to_string len) @ [newline, newline]"

definition record_bytes :: "wal_record \<Rightarrow> string" where
  "record_bytes r = (case r of (n, sql) \<Rightarrow> begin_line n (length sql) @ sql @ end_line n (length sql))"

definition contents :: "directory \<Rightarrow> string \<Rightarrow> string" where
  "contents dir name = (case map_of dir name of None \<Rightarrow> [] | Some s \<Rightarrow> s)"

definition write_record ::
    "directory \<Rightarrow> log_file \<Rightarrow> sequence_number_t \<Rightarrow> string \<Rightarrow> directory \<times> log_file" where
  "write_record dir f n sql =
     (AList.update (filename f) (contents dir (filename f) @ record_bytes (n, sql)) dir,
      f\<lparr>file_size := file_size f + 28 + of_nat (length sql) + 28,
        sequence_number_range := Some (case sequence_number_range f of
            Some (first, _) \<Rightarrow> (first, n)
          | None \<Rightarrow> (n, n))\<rparr>)"

text \<open>\<open>stream.read(buffer, n)\<close>; fewer than \<open>n\<close> bytes set the fail bit.\<close>

definition read_bytes :: "nat \<Rightarrow> string \<Rightarrow> (string \<times> string) result" where
  "read_bytes n s = (if n \<le> length s then Inr (take n s, drop n s)
     else Inl (Assert_failed ''Error reading record from log file''))"

text \<open>\<open>istringstream >> word >> sequence_number >> length\<close> on a buffer read as a C string.\<close>

definition parse_line :: "string \<Rightarrow> (string \<times> sequence_number_t \<times> u32) option" where
  "parse_line buffer =
     (case scan_word (takeWhile (\<lambda>c. c \<noteq> CHR 0x00) buffer) of
        None \<Rightarrow> None
      | Some (word, s1) \<Rightarrow> (case scan_int32 s1 of
          None \<Rightarrow> None
        | Some (n, s2) \<Rightarrow> (case scan_uint32 s2 of
            None \<Rightarrow> None
          | Some (len, s3) \<Rightarrow> Some (word, n, len))))"

definition read_record :: "string \<Rightarrow> (wal_record \<times> string) result" where
  "read_record s =
     rbind (read_bytes 28 s) (\<lambda>(begin_buffer, s1).
     rbind (fc_assert (begin_buffer ! 27 = newline) ''Invalid begin line in log file'') (\<lambda>_.
     (case parse_line (take 27 begin_buffer) of
        None \<Rightarrow> Inl (Assert_failed ''Error parsing begin line in log file'')
      | Some (word, n, sql_length) \<Rightarrow>
     rbind (fc_assert (word = ''begin'') ''Error parsing begin line in log file'') (\<lambda>_.
     rbind (read_bytes (unat sql_length) s1) (\<lambda>(sql, s2).
     rbind (read_bytes 28 s2) (\<lambda>(end_buffer, s3).
     rbind (fc_assert (end_buffer ! 0 = newline) ''Invalid end line in log file'') (\<lambda>_.
     rbind (fc_assert (end_buffer ! 27 = newline) ''Invalid end line in log file'') (\<lambda>_.
     rbind (fc_assert (end_buffer ! 26 = newline) ''Invalid end line in log file'') (\<lambda>_.
     (case parse_line (drop 1 (take 26 end_buffer)) of
        None \<Rightarrow> Inl (Assert_failed ''Error parsing end line in log file'')
      | Some (end_word, end_n, end_sql_length) \<Rightarrow>
     rbind (fc_assert (end_word = ''end'') ''Error parsing end line in log file'') (\<lambda>_.
     rbind (fc_assert (sql_length = end_sql_length) ''Error parsing end line in log file'') (\<lambda>_.
     rbind (fc_assert (n = end_n) ''Error parsing end line in log file'') (\<lambda>_.
       Inr ((n, sql), s3))))))))))))))"

text \<open>A record takes at least its two 28-byte lines, so the scan of a file ends.\<close>

lemma read_record_length:
  "read_record s = Inr (r, rest) \<Longrightarrow> length rest + 56 \<le> length s"
  by (auto simp: read_record_def read_bytes_def elim!: rbindE
      split: option.split_asm prod.split_asm if_split_asm)

text \<open>\<open>for_each_record\<close>: the records the callback was called on, in order, and the exception that
  ended the scan.  The end of the file is only looked for after a record.\<close>

function for_each_record :: "string \<Rightarrow> wal_record list \<times> haf_error option" where
  "for_each_record s = (case read_record s of
     Inl e \<Rightarrow> ([], Some e)
   | Inr (r, rest) \<Rightarrow>
       if rest = [] then ([r], None)
       else (case for_each_record rest of (rs, e) \<Rightarrow> (r # rs, e)))"
  by pat_completeness auto
termination
  by (relation "measure length") (auto dest: read_record_length)

declare for_each_record.simps [simp del]


subsection \<open>Log files\<close>

definition wal_filename :: "string \<Rightarrow> u32 \<Rightarrow> string" where
  "wal_filename time serial =
     time @ ''.'' @ pad_left 3 (CHR ''0'') (nat_to_string (unat serial)) @ ''.wal''"

definition create_new :: "directory \<Rightarrow> string \<Rightarrow> u32 \<Rightarrow> (directory \<times> log_file) result" where
  "create_new dir time serial =
     rbind (fc_assert (map_of dir (wal_filename time serial) = None) ''File already exists'') (\<lambda>_.
       Inr (AList.update (wal_filename time serial) [] dir,
            \<lparr>creation_time_string = time, serial_number = serial, filename = wal_filename time serial,
             file_size = 0, sequence_number_range = None\<rparr>))"

definition range_of_records :: "wal_record list \<Rightarrow> (sequence_number_t \<times> sequence_number_t) option" where
  "range_of_records rs = foldl (\<lambda>range r. Some (case range of
       Some (first, _) \<Rightarrow> (first, fst r) | None \<Rightarrow> (fst r, fst r))) None rs"

definition open_existing :: "directory \<Rightarrow> string \<Rightarrow> log_file result" where
  "open_existing dir name =
     (let parts = split_on (CHR ''.'') name in
      rbind (fc_assert (length parts = 3) ''malformed WAL filename'') (\<lambda>_.
      rbind (fc_assert (parts ! 2 = ''wal'') ''malformed WAL filename'') (\<lambda>_.
      rbind (fc_assert (map_of dir name \<noteq> None) ''File does not exist'') (\<lambda>_.
        case for_each_record (contents dir name) of
          (rs, Some e) \<Rightarrow> Inl e
        | (rs, None) \<Rightarrow> Inr \<lparr>creation_time_string = parts ! 0,
              serial_number = word_of_int (strtol (parts ! 1)), filename = name,
              file_size = of_nat (length (contents dir name)),
              sequence_number_range = range_of_records rs\<rparr>))))"

definition is_empty :: "log_file \<Rightarrow> bool" where
  "is_empty f \<longleftrightarrow> file_size f = 0"

text \<open>Dereferences the optional range: only valid when the file is not empty.\<close>

definition get_last_sequence_number_of :: "log_file \<Rightarrow> sequence_number_t" where
  "get_last_sequence_number_of f = snd (the (sequence_number_range f))"

definition delete_file :: "directory \<Rightarrow> log_file \<Rightarrow> directory" where
  "delete_file dir f = AList.delete (filename f) dir"


subsection \<open>The manager\<close>

definition is_wal_file :: "string \<Rightarrow> bool" where
  "is_wal_file name \<longleftrightarrow> 4 \<le> length name \<and> drop (length name - 4) name = ''.wal''"

fun open_all :: "directory \<Rightarrow> string list \<Rightarrow> log_file list result" where
  "open_all dir [] = Inr []"
| "open_all dir (n # ns) = rbind (open_existing dir n) (\<lambda>f. rbind (open_all dir ns) (\<lambda>fs. Inr (f # fs)))"

definition compute_last_sequence_number :: "log_file list \<Rightarrow> sequence_number_t option" where
  "compute_last_sequence_number fs =
     (case find (\<lambda>f. \<not> is_empty f) (rev fs) of
        Some f \<Rightarrow> Some (get_last_sequence_number_of f)
      | None \<Rightarrow> None)"

text \<open>\<open>open\<close> on a writable directory: all \<open>*.wal\<close> files in the order of an ordered set of names.\<close>

definition wal_open :: "write_ahead_log_manager \<Rightarrow> write_ahead_log_manager result" where
  "wal_open m =
     (let names = sort (remdups (filter is_wal_file (map fst (wal_directory m)))) in
      rbind (open_all (wal_directory m) names) (\<lambda>fs.
        let files = log_files m @ fs in
        Inr (m\<lparr>log_files := files, last_sequence_number := compute_last_sequence_number files,
               wal_is_open := True\<rparr>)))"

text \<open>The search for the first unused serial number of the second \<open>time\<close>; it does not end when the
  last file's serial number is the largest \<open>unsigned\<close>.\<close>

partial_function (option) find_serial :: "string \<Rightarrow> u32 \<Rightarrow> string \<Rightarrow> u32 \<Rightarrow> u32 option" where
  "find_serial back_time back_serial time serial =
     (if back_time < time then Some serial
      else if back_serial < serial then Some serial
      else find_serial back_time back_serial time (serial + 1))"

definition new_serial_number :: "log_file list \<Rightarrow> string \<Rightarrow> u32 option" where
  "new_serial_number fs time =
     (if fs = [] then Some 0
      else find_serial (creation_time_string (last fs)) (serial_number (last fs)) time 0)"

text \<open>\<open>store_transaction\<close> at the wall clock second \<open>time\<close> (as printed by \<open>to_iso_string\<close>); the outer
  \<open>None\<close> is a search for a serial number that does not end.\<close>

definition store_transaction ::
    "write_ahead_log_manager \<Rightarrow> string \<Rightarrow> string \<Rightarrow>
     (write_ahead_log_manager \<times> sequence_number_t) result option" where
  "store_transaction m time sql =
     (let append = (\<lambda>m. let (m1, n) = get_next_sequence_number m;
                           (dir, f) = write_record (wal_directory m1) (last (log_files m1)) n sql
                       in (m1\<lparr>wal_directory := dir, log_files := butlast (log_files m1) @ [f]\<rparr>, n)) in
      if log_files m = [] \<or> max_log_size < file_size (last (log_files m))
      then (case new_serial_number (log_files m) time of
          None \<Rightarrow> None
        | Some serial \<Rightarrow> Some (rbind (create_new (wal_directory m) time serial) (\<lambda>(dir, f).
            Inr (append (m\<lparr>wal_directory := dir, log_files := log_files m @ [f]\<rparr>)))))
      else Some (Inr (append m)))"

text \<open>The loop of \<open>transaction_completed\<close> that deletes files from the front.\<close>

fun remove_completed ::
    "sequence_number_t \<Rightarrow> bool \<Rightarrow> directory \<Rightarrow> log_file list \<Rightarrow> directory \<times> log_file list" where
  "remove_completed n shutting_down dir [] = (dir, [])"
| "remove_completed n shutting_down dir (f # fs) =
     (if (fs \<noteq> [] \<or> shutting_down) \<and>
         (is_empty f \<or> n = get_last_sequence_number_of f \<or> is_less_than (get_last_sequence_number_of f) n)
      then remove_completed n shutting_down (delete_file dir f) fs
      else (dir, f # fs))"

definition transaction_completed ::
    "write_ahead_log_manager \<Rightarrow> sequence_number_t \<Rightarrow> bool \<Rightarrow> write_ahead_log_manager result" where
  "transaction_completed m n shutting_down =
     rbind (fc_assert (log_files m \<noteq> []) ''I do not know anything about transaction sequence number'') (\<lambda>_.
       let (dir, fs) = remove_completed n shutting_down (wal_directory m) (log_files m) in
       Inr (m\<lparr>last_completed_transaction_sequence_number := Some n, wal_directory := dir, log_files := fs\<rparr>))"

definition clear_log :: "write_ahead_log_manager \<Rightarrow> write_ahead_log_manager" where
  "clear_log m = m\<lparr>wal_directory := foldl delete_file (wal_directory m) (log_files m), log_files := []\<rparr>"

text \<open>The destructor: what is left of the directory when the process ends cleanly.\<close>

definition wal_destructor :: "write_ahead_log_manager \<Rightarrow> directory result" where
  "wal_destructor m = (case last_completed_transaction_sequence_number m of
     None \<Rightarrow> Inr (wal_directory m)
   | Some n \<Rightarrow> rbind (transaction_completed m n True) (\<lambda>m'. Inr (wal_directory m')))"

text \<open>\<open>replay_transactions_after\<close>: the calls of \<open>replay_function\<close> and the exception that ended them.\<close>

fun replay_files ::
    "sequence_number_t \<Rightarrow> directory \<Rightarrow> log_file list \<Rightarrow> wal_record list \<times> haf_error option" where
  "replay_files n dir [] = ([], None)"
| "replay_files n dir (f # fs) =
     (if is_empty f \<or> is_less_than (get_last_sequence_number_of f) n then replay_files n dir fs
      else case for_each_record (contents dir (filename f)) of
        (rs, Some e) \<Rightarrow> (filter (\<lambda>r. is_less_than n (fst r)) rs, Some e)
      | (rs, None) \<Rightarrow> (case replay_files n dir fs of
          (rs', e) \<Rightarrow> (filter (\<lambda>r. is_less_than n (fst r)) rs @ rs', e)))"

definition replay_transactions_after ::
    "write_ahead_log_manager \<Rightarrow> sequence_number_t \<Rightarrow> wal_record list \<times> haf_error option" where
  "replay_transactions_after m n = replay_files n (wal_directory m) (log_files m)"


subsection \<open>A process that ends inside an operation\<close>

text \<open>What is in the directory when the process ends inside \<open>store_transaction\<close>: a new file, if one is due, has been
  created, and \<open>written\<close> bytes of the record have reached the file (the stream hands them on in order and is flushed at
  the end of \<open>write_record\<close>).\<close>

definition interrupted_store :: "write_ahead_log_manager \<Rightarrow> string \<Rightarrow> string \<Rightarrow> nat \<Rightarrow> directory result option" where
  "interrupted_store m time sql written =
     (let n = snd (get_next_sequence_number m);
          append = (\<lambda>dir f. AList.update (filename f) (contents dir (filename f) @ take written (record_bytes (n, sql))) dir) in
      if log_files m = [] \<or> max_log_size < file_size (last (log_files m))
      then (case new_serial_number (log_files m) time of
          None \<Rightarrow> None
        | Some serial \<Rightarrow> Some (rbind (create_new (wal_directory m) time serial) (\<lambda>(dir, f). Inr (append dir f))))
      else Some (Inr (append (wal_directory m) (last (log_files m)))))"

text \<open>What is in the directory when the process ends inside \<open>transaction_completed\<close>, after at most \<open>k\<close> files were deleted.\<close>

fun remove_completed_upto ::
    "nat \<Rightarrow> sequence_number_t \<Rightarrow> bool \<Rightarrow> directory \<Rightarrow> log_file list \<Rightarrow> directory \<times> log_file list" where
  "remove_completed_upto 0 n shutting_down dir fs = (dir, fs)"
| "remove_completed_upto (Suc k) n shutting_down dir [] = (dir, [])"
| "remove_completed_upto (Suc k) n shutting_down dir (f # fs) =
     (if (fs \<noteq> [] \<or> shutting_down) \<and>
         (is_empty f \<or> n = get_last_sequence_number_of f \<or> is_less_than (get_last_sequence_number_of f) n)
      then remove_completed_upto k n shutting_down (delete_file dir f) fs
      else (dir, f # fs))"

definition interrupted_completion :: "write_ahead_log_manager \<Rightarrow> sequence_number_t \<Rightarrow> nat \<Rightarrow> directory" where
  "interrupted_completion m n k = fst (remove_completed_upto k n False (wal_directory m) (log_files m))"

lemma remove_completed_upto_all: "remove_completed_upto (length fs) n shut dir fs = remove_completed n shut dir fs"
  by (induction fs arbitrary: dir) auto


subsection \<open>The record format is a round trip\<close>

definition valid_record :: "wal_record \<Rightarrow> bool" where
  "valid_record r \<longleftrightarrow> 0 \<le> fst r \<and> fst r \<le> max_sequence_number \<and> length (snd r) < 2 ^ 32"

lemma no_NUL_digits: "\<forall>c \<in> set (nat_to_string n). c \<noteq> CHR 0x00"
  using nat_to_string_digits[of n] by (auto simp: is_digit_def)

lemma length_padded:
  "n < 10 ^ 10 \<Longrightarrow> length (pad_left 10 c (nat_to_string n)) = 10"
  using length_nat_to_string[of n 10] by (simp add: length_pad_left)

lemma parse_line_printed:
  assumes "w \<noteq> []" "\<forall>c \<in> set w. \<not> isspace c \<and> c \<noteq> CHR 0x00" "n < 2 ^ 31" "len < 2 ^ 32"
  shows "parse_line (w @ '' '' @ pad_left 10 (CHR '' '') (nat_to_string n) @ '' '' @
           pad_left 10 (CHR '' '') (nat_to_string len)) = Some (w, int n, of_nat len)"
proof -
  define k j where "k = 10 - length (nat_to_string n)" and "j = 10 - length (nat_to_string len)"
  define s2 where "s2 = replicate (Suc j) (CHR '' '') @ nat_to_string len @ []"
  define s1 where "s1 = replicate (Suc k) (CHR '' '') @ nat_to_string n @ s2"
  have eq: "w @ '' '' @ pad_left 10 (CHR '' '') (nat_to_string n) @ '' '' @
      pad_left 10 (CHR '' '') (nat_to_string len) = w @ s1"
    by (simp add: s1_def s2_def k_def j_def pad_left_def)
  have nul: "takeWhile (\<lambda>c. c \<noteq> CHR 0x00) (w @ s1) = w @ s1"
    unfolding takeWhile_eq_all_conv
    using assms(2) no_NUL_digits[of n] no_NUL_digits[of len] by (simp add: s1_def s2_def ball_Un)
  have "scan_word (w @ s1) = Some (w, s1)"
    by (rule scan_word_word) (use assms(1,2) in \<open>simp_all add: s1_def isspace_def\<close>)
  moreover have "scan_int32 s1 = Some (int n, s2)"
    unfolding s1_def by (rule scan_int32_nat) (use assms(3) in \<open>simp_all add: s2_def is_digit_def\<close>)
  moreover have "scan_uint32 s2 = Some (of_nat len, [])"
    unfolding s2_def by (rule scan_uint32_nat) (use assms(4) in simp_all)
  ultimately show ?thesis
    unfolding eq by (simp add: parse_line_def nul)
qed

lemma int_to_string_nonneg: "0 \<le> n \<Longrightarrow> int_to_string n = nat_to_string (nat n)"
  by (simp add: int_to_string_def)

lemma begin_line_parse:
  assumes "0 \<le> n" "n \<le> max_sequence_number" "len < 2 ^ 32"
  shows "length (begin_line n len) = 28" "begin_line n len ! 27 = newline"
    "parse_line (take 27 (begin_line n len)) = Some (''begin'', n, of_nat len)"
proof -
  define body where "body = ''begin'' @ '' '' @ pad_left 10 (CHR '' '') (nat_to_string (nat n)) @ '' '' @
     pad_left 10 (CHR '' '') (nat_to_string len)"
  have line: "begin_line n len = body @ [newline]"
    using assms(1) by (simp add: begin_line_def body_def int_to_string_nonneg)
  have n: "nat n < 2 ^ 31" using assms by (simp add: max_sequence_number_def)
  have len: "length body = 27"
    using n assms(3) by (simp add: body_def length_padded)
  have "parse_line body = Some (''begin'', int (nat n), of_nat len)"
    unfolding body_def by (rule parse_line_printed) (use n assms in \<open>auto simp: isspace_def\<close>)
  then show "length (begin_line n len) = 28" "begin_line n len ! 27 = newline"
    "parse_line (take 27 (begin_line n len)) = Some (''begin'', n, of_nat len)"
    using assms(1) len by (simp_all add: line nth_append)
qed

lemma end_line_parse:
  assumes "0 \<le> n" "n \<le> max_sequence_number" "len < 2 ^ 32"
  shows "length (end_line n len) = 28" "end_line n len ! 0 = newline" "end_line n len ! 27 = newline"
    "end_line n len ! 26 = newline"
    "parse_line (drop 1 (take 26 (end_line n len))) = Some (''end'', n, of_nat len)"
proof -
  define body where "body = ''end'' @ '' '' @ pad_left 10 (CHR '' '') (nat_to_string (nat n)) @ '' '' @
     pad_left 10 (CHR '' '') (nat_to_string len)"
  have line: "end_line n len = newline # body @ [newline, newline]"
    using assms(1) by (simp add: end_line_def body_def int_to_string_nonneg)
  have n: "nat n < 2 ^ 31" using assms by (simp add: max_sequence_number_def)
  have len: "length body = 25"
    using n assms(3) by (simp add: body_def length_padded)
  have "parse_line body = Some (''end'', int (nat n), of_nat len)"
    unfolding body_def by (rule parse_line_printed) (use n assms in \<open>auto simp: isspace_def\<close>)
  then show "length (end_line n len) = 28" "end_line n len ! 0 = newline" "end_line n len ! 27 = newline"
    "end_line n len ! 26 = newline"
    "parse_line (drop 1 (take 26 (end_line n len))) = Some (''end'', n, of_nat len)"
    using assms(1) len by (simp_all add: line nth_append)
qed

lemma length_record_bytes: "valid_record r \<Longrightarrow> length (record_bytes r) = 56 + length (snd r)"
  by (cases r) (simp add: record_bytes_def valid_record_def begin_line_parse end_line_parse)

lemma read_record_begin:
  assumes "valid_record (n, sql)"
  shows "read_record (begin_line n (length sql) @ s) =
    rbind (read_bytes (length sql) s) (\<lambda>(sql', s2).
    rbind (read_bytes 28 s2) (\<lambda>(end_buffer, s3).
    rbind (fc_assert (end_buffer ! 0 = newline) ''Invalid end line in log file'') (\<lambda>_.
    rbind (fc_assert (end_buffer ! 27 = newline) ''Invalid end line in log file'') (\<lambda>_.
    rbind (fc_assert (end_buffer ! 26 = newline) ''Invalid end line in log file'') (\<lambda>_.
    (case parse_line (drop 1 (take 26 end_buffer)) of
       None \<Rightarrow> Inl (Assert_failed ''Error parsing end line in log file'')
     | Some (end_word, end_n, end_sql_length) \<Rightarrow>
    rbind (fc_assert (end_word = ''end'') ''Error parsing end line in log file'') (\<lambda>_.
    rbind (fc_assert (of_nat (length sql) = end_sql_length) ''Error parsing end line in log file'') (\<lambda>_.
    rbind (fc_assert (n = end_n) ''Error parsing end line in log file'') (\<lambda>_.
      Inr ((n, sql'), s3))))))))))"
proof -
  have v: "0 \<le> n" "n \<le> max_sequence_number" "length sql < 2 ^ 32"
    using assms by (auto simp: valid_record_def)
  have "read_bytes 28 (begin_line n (length sql) @ s) = Inr (begin_line n (length sql), s)"
    using begin_line_parse(1)[OF v] by (simp add: read_bytes_def)
  then show ?thesis
    unfolding read_record_def
    using begin_line_parse(2,3)[OF v] v(3) by (simp add: unat_of_nat_u32)
qed

lemma read_record_bytes:
  assumes "valid_record r"
  shows "read_record (record_bytes r @ rest) = Inr (r, rest)"
proof -
  obtain n sql where r: "r = (n, sql)" by (cases r)
  have v: "0 \<le> n" "n \<le> max_sequence_number" "length sql < 2 ^ 32"
    using assms r by (auto simp: valid_record_def)
  have bytes: "record_bytes r @ rest = begin_line n (length sql) @ sql @ end_line n (length sql) @ rest"
    by (simp add: r record_bytes_def)
  have "read_bytes 28 (end_line n (length sql) @ rest) = Inr (end_line n (length sql), rest)"
    using end_line_parse(1)[OF v] by (simp add: read_bytes_def)
  moreover have "read_bytes (length sql) (sql @ end_line n (length sql) @ rest) =
      Inr (sql, end_line n (length sql) @ rest)"
    by (simp add: read_bytes_def)
  ultimately show ?thesis
    unfolding bytes read_record_begin[OF assms[unfolded r]]
    using end_line_parse(2-5)[OF v] by (simp add: r)
qed

lemma read_record_torn:
  assumes "valid_record r" "record_bytes r = t @ u" "u \<noteq> []"
  shows "\<exists>e. read_record t = Inl e"
proof (cases "read_record t")
  case (Inr x)
  obtain n sql where r: "r = (n, sql)" by (cases r)
  have len: "length t < 56 + length sql"
    using assms length_record_bytes[OF assms(1)] r
    by (metis length_append length_greater_0_conv less_add_same_cancel1 snd_conv)
  have v: "0 \<le> n" "n \<le> max_sequence_number" "length sql < 2 ^ 32"
    using assms(1) r by (auto simp: valid_record_def)
  obtain q rest where x: "x = (q, rest)" by (cases x)
  have 28: "28 \<le> length t"
    using read_record_length[of t q rest] Inr x by simp
  have "take 28 t = take 28 (record_bytes r)"
    using assms(2) 28 by simp
  also have "\<dots> = begin_line n (length sql)"
    using begin_line_parse(1)[OF v] by (simp add: r record_bytes_def)
  finally have t: "t = begin_line n (length sql) @ drop 28 t"
    by (metis append_take_drop_id)
  have "read_record (begin_line n (length sql) @ drop 28 t) = Inr (q, rest)"
    using Inr x t by simp
  then have "length sql + 28 \<le> length (drop 28 t)"
    unfolding read_record_begin[OF assms(1)[unfolded r]]
    by (auto simp: read_bytes_def elim!: rbindE split: prod.split_asm if_split_asm)
  then show ?thesis using len by simp
qed simp

lemma for_each_record_torn:
  assumes "\<forall>r \<in> set rs. valid_record r" "rs = [] \<or> t \<noteq> []" "\<exists>e. read_record t = Inl e"
  shows "\<exists>e. for_each_record (concat (map record_bytes rs) @ t) = (rs, Some e)"
  using assms
proof (induction rs)
  case Nil
  then show ?case by (subst for_each_record.simps) auto
next
  case (Cons r rs)
  have rest: "concat (map record_bytes rs) @ t \<noteq> []" using Cons.prems by simp
  obtain e where "for_each_record (concat (map record_bytes rs) @ t) = (rs, Some e)"
    using Cons by auto
  then show ?case
    using Cons.prems(1) rest
    by (subst for_each_record.simps) (simp add: read_record_bytes)
qed

lemma record_bytes_not_Nil: "valid_record r \<Longrightarrow> record_bytes r \<noteq> []"
  using length_record_bytes[of r] by fastforce

lemma for_each_record_records:
  assumes "\<forall>r \<in> set rs. valid_record r" "rs \<noteq> []"
  shows "for_each_record (concat (map record_bytes rs)) = (rs, None)"
  using assms
proof (induction rs)
  case (Cons r rs)
  have read: "read_record (record_bytes r @ concat (map record_bytes rs)) = Inr (r, concat (map record_bytes rs))"
    using Cons.prems by (simp add: read_record_bytes)
  show ?case
  proof (cases "rs = []")
    case True
    then show ?thesis using read by (subst for_each_record.simps) simp
  next
    case False
    then have "concat (map record_bytes rs) \<noteq> []"
      using Cons.prems record_bytes_not_Nil by (cases rs) auto
    then show ?thesis
      using read Cons False by (subst for_each_record.simps) simp
  qed
qed simp


subsection \<open>Properties of the format\<close>

definition sample_records :: "wal_record list" where
  "sample_records = [(2147483647, ''SELECT 1''), (0, []), (1, ''begin'')]"

lemma sample_records_valid: "\<forall>r \<in> set sample_records. valid_record r"
  by (simp add: sample_records_def valid_record_def max_sequence_number_def)

text \<open>C17: Scanning a log file gives back exactly the records that were written to it, in order, whatever
  bytes the statements contain.\<close>

theorem log_file_roundtrip:
  assumes "\<forall>r \<in> set rs. valid_record r" "rs \<noteq> []"
  shows "for_each_record (concat (map record_bytes rs)) = (rs, None)"
  by (rule for_each_record_records[OF assms])

theorem log_file_roundtrip_witness:
  "for_each_record (concat (map record_bytes sample_records)) = (sample_records, None)"
  by (rule log_file_roundtrip[OF sample_records_valid]) (simp add: sample_records_def)

text \<open>C31: A write torn by a crash is never taken for data: if the file ends inside a record, the scan
  hands out the complete records before it and then fails.\<close>

theorem torn_record_is_detected:
  assumes "\<forall>r \<in> set rs. valid_record r" "valid_record r" "record_bytes r = written @ lost"
    and "lost \<noteq> []" "written \<noteq> []"
  shows "\<exists>e. for_each_record (concat (map record_bytes rs) @ written) = (rs, Some e)"
  by (rule for_each_record_torn[OF assms(1)]) (use assms read_record_torn in auto)

theorem torn_record_is_detected_witness:
  "\<exists>e. for_each_record (concat (map record_bytes sample_records) @ take 40 (record_bytes (2, ''SELECT 2'')))
      = (sample_records, Some e)"
proof (rule torn_record_is_detected[OF sample_records_valid])
  show valid: "valid_record (2, ''SELECT 2'')" by (simp add: valid_record_def max_sequence_number_def)
  show "record_bytes (2, ''SELECT 2'') =
      take 40 (record_bytes (2, ''SELECT 2'')) @ drop 40 (record_bytes (2, ''SELECT 2''))" by simp
  show "drop 40 (record_bytes (2, ''SELECT 2'')) \<noteq> []" "take 40 (record_bytes (2, ''SELECT 2'')) \<noteq> []"
    using length_record_bytes[OF valid] by auto
qed

text \<open>An existing log file without any record cannot be opened, so a crash between the creation of
  a log file and its first record keeps the node from starting.\<close>

theorem empty_log_file_blocks_open:
  "is_wal_file name \<Longrightarrow> \<exists>e. wal_open (new_manager [(name, [])]) = Inl e"
proof -
  assume "is_wal_file name"
  then have names: "sort (remdups (filter is_wal_file (map fst [(name, [] :: string)]))) = [name]" by simp
  have "read_record [] = Inl (Assert_failed ''Error reading record from log file'')"
    by (simp add: read_record_def read_bytes_def)
  then have "for_each_record [] = ([], Some (Assert_failed ''Error reading record from log file''))"
    by (subst for_each_record.simps) simp
  then have "\<exists>e. open_existing [(name, [])] name = Inl e"
    by (auto simp: open_existing_def contents_def Let_def)
  then show ?thesis
    by (auto simp: wal_open_def new_manager_def Let_def \<open>is_wal_file name\<close>)
qed

theorem empty_log_file_blocks_open_witness:
  "\<exists>e. wal_open (new_manager [(wal_filename ''20240101T000000'' 0, [])]) = Inl e"
  by (rule empty_log_file_blocks_open) (simp add: is_wal_file_def wal_filename_def)

end
