(* ===== verification/Wal_Recovery.thy ===== *)
theory Wal_Recovery
  imports Write_Ahead_Log
begin

text \<open>
  Correctness of the write-ahead log manager.  A window of consecutive sequence numbers is ordered
  by \<open>is_less_than\<close> (the locale \<open>sequence_order\<close>); the list of log files represents one list of
  records (\<open>wal_rel\<close>), storing appends to it, completing removes only completed records, and opening the
  directory again, as after a crash, gives a manager that represents the same list.
\<close>


subsection \<open>Sequence numbers in a window\<close>

locale sequence_order =
  fixes valid :: "'s \<Rightarrow> bool" and nxt :: "'s \<Rightarrow> 's" and lt :: "'s \<Rightarrow> 's \<Rightarrow> bool" and window :: nat
  assumes valid_nxt: "valid a \<Longrightarrow> valid (nxt a)"
    and lt_ahead: "valid a \<Longrightarrow> 0 < d \<Longrightarrow> d < window \<Longrightarrow> lt a ((nxt ^^ d) a)"
    and not_lt_behind: "valid a \<Longrightarrow> d < window \<Longrightarrow> \<not> lt ((nxt ^^ d) a) a"
begin

definition numbered :: "'s \<Rightarrow> ('s \<times> 'x) list \<Rightarrow> bool" where
  "numbered s rs \<longleftrightarrow> (\<forall>i < length rs. fst (rs ! i) = (nxt ^^ i) s)"

lemma valid_funpow: "valid a \<Longrightarrow> valid ((nxt ^^ d) a)"
  by (induction d) (auto intro: valid_nxt)

lemma numbered_Nil [simp]: "numbered s []"
  by (simp add: numbered_def)

lemma numbered_append:
  "numbered s (rs @ rs') \<longleftrightarrow> numbered s rs \<and> numbered ((nxt ^^ length rs) s) rs'"
proof -
  have "(\<forall>i < length rs + length rs'. fst ((rs @ rs') ! i) = (nxt ^^ i) s) \<longleftrightarrow>
    (\<forall>i < length rs. fst (rs ! i) = (nxt ^^ i) s) \<and>
    (\<forall>j < length rs'. fst (rs' ! j) = (nxt ^^ (j + length rs)) s)" (is "?L \<longleftrightarrow> ?R1 \<and> ?R2")
  proof
    assume L: ?L
    have "fst (rs ! i) = (nxt ^^ i) s" if "i < length rs" for i
      using L[rule_format, of i] that by (simp add: nth_append)
    moreover have "fst (rs' ! j) = (nxt ^^ (j + length rs)) s" if "j < length rs'" for j
      using L[rule_format, of "j + length rs"] that by (simp add: nth_append)
    ultimately show "?R1 \<and> ?R2" by blast
  next
    assume R: "?R1 \<and> ?R2"
    show ?L
    proof (intro allI impI)
      fix i assume i: "i < length rs + length rs'"
      show "fst ((rs @ rs') ! i) = (nxt ^^ i) s"
        using R i by (cases "i < length rs")
          (auto simp: nth_append dest!: spec[of _ "i - length rs"])
    qed
  qed
  then show ?thesis by (simp add: numbered_def funpow_add)
qed

lemma numbered_snoc:
  assumes "numbered s rs" "rs \<noteq> []"
  shows "numbered s (rs @ [(nxt (fst (last rs)), x)])"
proof -
  have "fst (last rs) = (nxt ^^ (length rs - 1)) s"
    using assms by (simp add: numbered_def last_conv_nth)
  then have "nxt (fst (last rs)) = (nxt ^^ length rs) s"
    using assms(2) by (cases rs) simp_all
  then show ?thesis using assms(1) by (simp add: numbered_append) (simp add: numbered_def)
qed

lemma numbered_drop: "numbered s rs \<Longrightarrow> k \<le> length rs \<Longrightarrow> numbered ((nxt ^^ k) s) (drop k rs)"
  using numbered_append[of s "take k rs" "drop k rs"] by (simp add: min_absorb2)

lemma not_after:
  assumes "valid s" "numbered s rs" "length rs \<le> window" "k < length rs" "i \<le> k"
  shows "\<not> lt ((nxt ^^ k) s) (fst (rs ! i))"
proof -
  have "(nxt ^^ k) s = (nxt ^^ (k - i)) ((nxt ^^ i) s)"
    using assms(5) by (metis comp_apply funpow_add le_add_diff_inverse2)
  then show ?thesis
    using not_lt_behind[OF valid_funpow[OF assms(1)], of "k - i" i] assms by (simp add: numbered_def)
qed

lemma filter_after:
  assumes "valid s" "numbered s rs" "length rs \<le> window" "k < length rs"
  shows "filter (\<lambda>r. lt ((nxt ^^ k) s) (fst r)) rs = drop (Suc k) rs"
proof -
  have ahead: "lt ((nxt ^^ k) s) (fst (rs ! i))" if "k < i" "i < length rs" for i
  proof -
    have "(nxt ^^ i) s = (nxt ^^ (i - k)) ((nxt ^^ k) s)"
      using that by (metis add_diff_cancel_left' comp_apply funpow_add le_add_diff_inverse2 less_imp_le)
    then show ?thesis
      using lt_ahead[OF valid_funpow[OF assms(1)], of "i - k" k] that assms
      by (simp add: numbered_def)
  qed
  have "filter (\<lambda>r. lt ((nxt ^^ k) s) (fst r)) (take (Suc k) rs) = []"
    unfolding filter_empty_conv all_set_conv_all_nth using not_after[OF assms] by simp
  moreover have "filter (\<lambda>r. lt ((nxt ^^ k) s) (fst r)) (drop (Suc k) rs) = drop (Suc k) rs"
    unfolding filter_id_conv all_set_conv_all_nth using ahead by simp
  ultimately show ?thesis
    by (metis append_Nil append_take_drop_id filter_append)
qed

lemma numbered_Cons: "numbered (nxt p) rs \<Longrightarrow> numbered p ((p, x) # rs)"
  using numbered_append[of p "[(p, x)]" rs] by (simp add: numbered_def)

lemma filter_from:
  assumes "valid p" "numbered (nxt p) rs" "length rs < window" "k \<le> length rs"
  shows "filter (\<lambda>r. lt ((nxt ^^ k) p) (fst r)) rs = drop k rs"
  using filter_after[OF assms(1) numbered_Cons[OF assms(2), of undefined], of k]
    not_lt_behind[OF assms(1), of k] assms(3,4) by simp

lemma not_lt_from:
  assumes "valid p" "numbered (nxt p) rs" "length rs < window" "k \<le> length rs" "r \<in> set (take k rs)"
  shows "\<not> lt ((nxt ^^ k) p) (fst r)"
proof -
  obtain i where "i < k" "r = rs ! i" using assms(4,5) by (auto simp: in_set_conv_nth)
  then show ?thesis
    using not_after[OF assms(1) numbered_Cons[OF assms(2), of undefined], of k "Suc i"] assms(3,4) by simp
qed

lemma ahead_neq: "valid a \<Longrightarrow> 0 < d \<Longrightarrow> d < window \<Longrightarrow> (nxt ^^ d) a \<noteq> a"
  using lt_ahead[of a d] not_lt_behind[of a 0] by auto

lemma numbered_last:
  assumes "numbered (nxt p) (xs @ ys)" "xs \<noteq> []"
  shows "fst (last xs) = (nxt ^^ length xs) p"
proof -
  have "fst ((xs @ ys) ! (length xs - 1)) = (nxt ^^ (length xs - 1)) (nxt p)"
    using assms(1)[unfolded numbered_def, rule_format, of "length xs - 1"] assms(2) by (cases xs) auto
  then show ?thesis
    using assms(2) by (cases xs rule: rev_cases) (simp_all add: nth_append funpow_swap1)
qed

lemma last_position:
  assumes "valid p" "numbered (nxt p) (xs @ ys)" "length (xs @ ys) < window" "xs \<noteq> []"
    and "fst (last xs) = (nxt ^^ k) p \<or> lt (fst (last xs)) ((nxt ^^ k) p)"
  shows "length xs \<le> k"
proof (rule ccontr)
  assume less: "\<not> length xs \<le> k"
  have "fst (last xs) = (nxt ^^ (length xs - k)) ((nxt ^^ k) p)"
    using less numbered_last[OF assms(2,4)]
    by (metis comp_apply funpow_add le_add_diff_inverse2 linorder_not_le less_imp_le)
  then show False
    using less assms(3,5) not_lt_behind[OF valid_funpow[OF assms(1)], of "length xs - k" k]
      ahead_neq[OF valid_funpow[OF assms(1)], of "length xs - k" k] by simp
qed

lemma numbered_pred_drop:
  assumes "numbered (nxt p) (xs @ ys)"
  shows "numbered (nxt ((nxt ^^ length xs) p)) ys"
  using assms by (simp add: numbered_append funpow_swap1)

end

definition valid_sequence_number :: "sequence_number_t \<Rightarrow> bool" where
  "valid_sequence_number n \<longleftrightarrow> 0 \<le> n \<and> n \<le> max_sequence_number"

lemma funpow_sequence_number_after:
  assumes "valid_sequence_number n"
  shows "(get_sequence_number_after ^^ d) n = (n + int d) mod 2 ^ 31"
proof (induction d)
  case 0
  then show ?case
    using assms by (simp add: valid_sequence_number_def max_sequence_number_def)
next
  case (Suc d)
  define x where "x = (n + int d) mod 2 ^ 31"
  have x: "0 \<le> x" "x < 2 ^ 31" by (simp_all add: x_def)
  have "(n + int (Suc d)) mod 2 ^ 31 = (x + 1) mod 2 ^ 31"
    unfolding x_def by (simp add: mod_add_right_eq algebra_simps)
  also have "\<dots> = get_sequence_number_after x"
    using x by (auto simp: get_sequence_number_after_def max_sequence_number_def)
  finally show ?case using Suc x_def by simp
qed

interpretation seq: sequence_order valid_sequence_number get_sequence_number_after is_less_than 1073741823
proof
  fix a :: int and d :: nat
  assume a: "valid_sequence_number a"
  then have a': "0 \<le> a" "a < 2 ^ 31"
    by (simp_all add: valid_sequence_number_def max_sequence_number_def)
  show "valid_sequence_number (get_sequence_number_after a)"
    using a by (auto simp: valid_sequence_number_def get_sequence_number_after_def max_sequence_number_def)
  assume d: "d < 1073741823"
  have *: "(a + int d) mod 2 ^ 31 = (if a + int d < 2 ^ 31 then a + int d else a + int d - 2 ^ 31)"
  proof (cases "a + int d < 2 ^ 31")
    case False
    then have "(a + int d) mod 2 ^ 31 = (a + int d - 2 ^ 31) mod 2 ^ 31" by simp
    also have "\<dots> = a + int d - 2 ^ 31" using False a' d by (intro mod_pos_pos_trivial) auto
    finally show ?thesis using False by simp
  qed (use a' in simp)
  show "\<not> is_less_than ((get_sequence_number_after ^^ d) a) a"
    unfolding funpow_sequence_number_after[OF a] *
    using a' d by (auto simp: is_less_than_def max_sequence_number_def)
  assume "0 < d"
  then show "is_less_than a ((get_sequence_number_after ^^ d) a)"
    unfolding funpow_sequence_number_after[OF a] *
    using a' d by (auto simp: is_less_than_def max_sequence_number_def)
qed


subsection \<open>File names\<close>

definition valid_time :: "string \<Rightarrow> bool" where
  "valid_time t \<longleftrightarrow> length t = 15 \<and> CHR ''.'' \<notin> set t"

lemma is_wal_file_wal_filename [simp]: "is_wal_file (wal_filename t s)"
  by (simp add: is_wal_file_def wal_filename_def)

lemma padded_digits: "\<forall>c \<in> set (pad_left k (CHR ''0'') (nat_to_string n)). is_digit c"
  using nat_to_string_digits[of n] by (auto simp: pad_left_def is_digit_def)

lemma digits_to_nat_replicate: "digits_to_nat (replicate k (CHR ''0'') @ s) = digits_to_nat s"
  by (induction k) (auto simp: digits_to_nat_def digit_value_def)

lemma strtol_digits:
  assumes "s \<noteq> []" "\<forall>c \<in> set s. is_digit c" "digits_to_nat s < 2 ^ 63"
  shows "strtol s = int (digits_to_nat s)"
proof -
  obtain c t where s: "s = c # t" "is_digit c" using assms by (cases s) auto
  have 1: "dropWhile isspace s = s" "scan_sign s = (False, s)"
    using s is_digit_not_sign[of c] by (simp_all add: is_digit_not_space scan_sign_def)
  have 2: "takeWhile is_digit s = s" using assms(2) by (simp add: takeWhile_eq_all_conv)
  show ?thesis using assms(1,3) by (simp add: strtol_def scan_digits_def Let_def 1 2)
qed

lemma split_wal_filename:
  assumes "valid_time t"
  shows "split_on (CHR ''.'') (wal_filename t s) = [t, pad_left 3 (CHR ''0'') (nat_to_string (unat s)), ''wal'']"
proof -
  have "CHR ''.'' \<notin> set (pad_left 3 (CHR ''0'') (nat_to_string (unat s)))"
    using padded_digits is_digit_not_sign by fastforce
  then show ?thesis
    using assms by (simp add: wal_filename_def valid_time_def split_on_append)
qed

lemma strtol_serial:
  "word_of_int (strtol (pad_left 3 (CHR ''0'') (nat_to_string (unat (s :: u32))))) = s"
proof -
  let ?p = "pad_left 3 (CHR ''0'') (nat_to_string (unat s))"
  have v: "digits_to_nat ?p = unat s" by (simp add: pad_left_def digits_to_nat_replicate)
  have "strtol ?p = int (unat s)"
    using strtol_digits[of ?p] padded_digits[of 3 "unat s"] v unat_u32_less[of s]
    by (simp add: pad_left_def)
  then show ?thesis by simp
qed

lemma padded_serial:
  assumes "n < 1000"
  shows "pad_left 3 (CHR ''0'') (nat_to_string n) =
    [digit_char (n div 100), digit_char (n div 10 mod 10), digit_char (n mod 10)]"
proof -
  have z: "digit_char 0 = CHR ''0''" by code_simp
  consider "n < 10" | "10 \<le> n" "n < 100" | "100 \<le> n" by linarith
  then show ?thesis
  proof cases
    case 1
    then show ?thesis by (simp add: nat_to_string.simps[of n] pad_left_def z numeral_3_eq_3)
  next
    case 2
    then have "n div 10 < 10" by auto
    then show ?thesis using 2
      by (simp add: nat_to_string.simps[of n] nat_to_string.simps[of "n div 10"] pad_left_def z)
  next
    case 3
    then have "n div 10 div 10 < 10" "\<not> n div 10 < 10" "\<not> n < 10" "n div 100 = n div 10 div 10"
      using assms by auto
    then show ?thesis
      by (simp add: nat_to_string.simps[of n] nat_to_string.simps[of "n div 10"]
          nat_to_string.simps[of "n div 10 div 10"] pad_left_def)
  qed
qed

lemma digit_char_less: "a < 10 \<Longrightarrow> b < 10 \<Longrightarrow> digit_char a < digit_char b \<longleftrightarrow> a < b"
  by (simp add: less_char_def)

lemma less_div_mod_10: "a < b \<Longrightarrow> a div 10 < b div 10 \<or> a div 10 = b div 10 \<and> a mod 10 < b mod (10 :: nat)"
  by (metis div_le_mono div_mult_mod_eq le_neq_implies_less less_imp_le nat_add_left_cancel_less)

lemma padded_serial_less:
  assumes "a < b" "b < (1000 :: nat)"
  shows "pad_left 3 (CHR ''0'') (nat_to_string a) < pad_left 3 (CHR ''0'') (nat_to_string b)"
proof -
  have bounds: "a div 100 < 10" "b div 100 < 10" using assms by auto
  have hundred: "x div 100 = x div 10 div 10" for x :: nat by (simp add: div_mult2_eq[symmetric])
  have "a div 100 < b div 100 \<or> a div 100 = b div 100 \<and>
      (a div 10 mod 10 < b div 10 mod 10 \<or> a div 10 mod 10 = b div 10 mod 10 \<and> a mod 10 < b mod 10)"
    using less_div_mod_10[OF assms(1)] less_div_mod_10[of "a div 10" "b div 10"]
    unfolding hundred by auto
  then show ?thesis
    using assms bounds by (auto simp: padded_serial digit_char_less)
qed

lemma append_less_same_length:
  assumes "length xs = length ys" "xs < (ys :: 'a :: linorder list)"
  shows "xs @ u < ys @ v"
  using assms(2) unfolding list_less_def
  by (rule lexord_sufI) (simp add: assms(1))

lemma append_less_left: "(u :: 'a :: linorder list) < v \<Longrightarrow> xs @ u < xs @ v"
  by (induction xs) auto

lemma wal_filename_less:
  assumes "valid_time t" "valid_time t'" "t < t' \<or> t = t' \<and> unat s < unat s'" "unat s' < 1000"
  shows "wal_filename t s < wal_filename t' s'"
proof (cases "t < t'")
  case True
  then show ?thesis
    unfolding wal_filename_def using assms by (intro append_less_same_length) (simp_all add: valid_time_def)
next
  case False
  have "length (pad_left 3 (CHR ''0'') (nat_to_string (unat s))) = 3" "length (pad_left 3 (CHR ''0'') (nat_to_string (unat s'))) = 3"
    using False assms by (simp_all add: padded_serial)
  then have "pad_left 3 (CHR ''0'') (nat_to_string (unat s)) @ ''.wal'' < pad_left 3 (CHR ''0'') (nat_to_string (unat s')) @ ''.wal''"
    using False assms by (intro append_less_same_length padded_serial_less) simp_all
  then show ?thesis
    using False assms(3) by (simp add: wal_filename_def append_less_left)
qed


subsection \<open>The list of records a manager represents\<close>

definition file_ok :: "directory \<Rightarrow> log_file \<Rightarrow> wal_record list \<Rightarrow> bool" where
  "file_ok dir f rs \<longleftrightarrow>
     map_of dir (filename f) = Some (concat (map record_bytes rs)) \<and>
     rs \<noteq> [] \<and> (\<forall>r \<in> set rs. valid_record r) \<and>
     length (concat (map record_bytes rs)) < 2 ^ 32 \<and>
     file_size f = of_nat (length (concat (map record_bytes rs))) \<and>
     sequence_number_range f = Some (fst (hd rs), fst (last rs)) \<and>
     filename f = wal_filename (creation_time_string f) (serial_number f) \<and>
     valid_time (creation_time_string f) \<and> unat (serial_number f) < 1000"

definition wal_rel :: "write_ahead_log_manager \<Rightarrow> wal_record list list \<Rightarrow> bool" where
  "wal_rel m rss \<longleftrightarrow>
     list_all2 (file_ok (wal_directory m)) (log_files m) rss \<and>
     sorted_wrt (\<lambda>f g. filename f < filename g) (log_files m) \<and>
     {n \<in> fst ` set (wal_directory m). is_wal_file n} = filename ` set (log_files m) \<and>
     (\<exists>s. valid_sequence_number s \<and> seq.numbered s (concat rss)) \<and>
     (\<forall>n. last_sequence_number m = Some n \<longrightarrow> valid_sequence_number n) \<and>
     (rss \<noteq> [] \<longrightarrow> last_sequence_number m = Some (fst (last (concat rss))))"

lemma wal_relD:
  assumes "wal_rel m rss"
  shows "list_all2 (file_ok (wal_directory m)) (log_files m) rss"
    "sorted_wrt (\<lambda>f g. filename f < filename g) (log_files m)"
    "{n \<in> fst ` set (wal_directory m). is_wal_file n} = filename ` set (log_files m)"
    "length (log_files m) = length rss"
  using assms by (auto simp: wal_rel_def dest: list_all2_lengthD)

lemma file_okD:
  assumes "file_ok dir f rs"
  shows "map_of dir (filename f) = Some (concat (map record_bytes rs))" "rs \<noteq> []"
    "\<forall>r \<in> set rs. valid_record r" "length (concat (map record_bytes rs)) < 2 ^ 32"
    "file_size f = of_nat (length (concat (map record_bytes rs)))"
    "sequence_number_range f = Some (fst (hd rs), fst (last rs))"
    "filename f = wal_filename (creation_time_string f) (serial_number f)"
    "valid_time (creation_time_string f)" "unat (serial_number f) < 1000"
    "contents dir (filename f) = concat (map record_bytes rs)"
  using assms unfolding file_ok_def contents_def by auto

lemma file_ok_nonempty:
  assumes "file_ok dir f rs"
  shows "\<not> is_empty f" "get_last_sequence_number_of f = fst (last rs)"
    "for_each_record (contents dir (filename f)) = (rs, None)"
proof -
  have len: "0 < length (concat (map record_bytes rs))"
    using file_okD(2,3)[OF assms] record_bytes_not_Nil by (cases rs) auto
  have "unat (file_size f) = length (concat (map record_bytes rs))"
    using file_okD(4,5)[OF assms] by (simp add: unat_of_nat_u32)
  then show "\<not> is_empty f" using len by (auto simp: is_empty_def)
  show "get_last_sequence_number_of f = fst (last rs)"
    using assms by (simp add: file_ok_def get_last_sequence_number_of_def)
  show "for_each_record (contents dir (filename f)) = (rs, None)"
    unfolding file_okD(10)[OF assms] using file_okD(2,3)[OF assms] by (rule for_each_record_records[rotated])
qed

lemma file_ok_cong:
  assumes "file_ok dir f rs" "map_of dir' (filename f) = map_of dir (filename f)"
  shows "file_ok dir' f rs"
  using assms unfolding file_ok_def by metis

lemma files_ok_cong:
  assumes "list_all2 (file_ok dir) fs rss"
    and "\<forall>f \<in> set fs. map_of dir' (filename f) = map_of dir (filename f)"
  shows "list_all2 (file_ok dir') fs rss"
  using assms by (induction rule: list_all2_induct) (auto intro: file_ok_cong)

lemma files_ok_concat_not_Nil: "list_all2 (file_ok dir) fs rss \<Longrightarrow> rss \<noteq> [] \<Longrightarrow> last rss \<noteq> [] \<and> concat rss \<noteq> []"
  by (induction rule: list_all2_induct) (auto simp: file_ok_def)

lemma last_concat: "rss \<noteq> [] \<Longrightarrow> last rss \<noteq> [] \<Longrightarrow> last (concat rss) = last (last rss)"
  by (cases rss rule: rev_cases) auto


subsection \<open>Opening the directory\<close>

lemma range_of_records:
  "rs \<noteq> [] \<Longrightarrow> range_of_records rs = Some (fst (hd rs), fst (last rs))"
proof (induction rs rule: rev_induct)
  case (snoc r rs)
  then show ?case by (cases "rs = []") (simp_all add: range_of_records_def)
qed simp

lemma open_existing_ok:
  assumes "file_ok dir f rs"
  shows "open_existing dir (filename f) = Inr f"
proof -
  have name: "filename f = wal_filename (creation_time_string f) (serial_number f)"
    and t: "valid_time (creation_time_string f)"
    and f: "file_size f = of_nat (length (concat (map record_bytes rs)))"
      "sequence_number_range f = Some (fst (hd rs), fst (last rs))" "rs \<noteq> []"
    using file_okD[OF assms] by simp_all
  have parts: "split_on (CHR ''.'') (filename f) = [creation_time_string f,
      pad_left 3 (CHR ''0'') (nat_to_string (unat (serial_number f))), ''wal'']"
    unfolding name by (rule split_wal_filename[OF t])
  show ?thesis
    unfolding open_existing_def parts Let_def
    using f file_ok_nonempty(3)[OF assms] file_okD(1,10)[OF assms]
    by (cases f) (simp add: strtol_serial range_of_records)
qed

lemma open_all_ok:
  "list_all2 (file_ok dir) fs rss \<Longrightarrow> open_all dir (map filename fs) = Inr fs"
  by (induction rule: list_all2_induct) (auto simp: open_existing_ok)

lemma sort_filenames:
  assumes "sorted_wrt (\<lambda>f g. filename f < filename g) fs" "set ns = filename ` set fs"
  shows "sort (remdups ns) = map filename fs"
proof (rule sorted_distinct_set_unique)
  have "sorted_wrt (<) (map filename fs)"
    using assms(1) by (simp add: sorted_wrt_map)
  then show "sorted (map filename fs)" "distinct (map filename fs)"
    by (simp_all add: strict_sorted_iff)
qed (use assms(2) in auto)

lemma compute_last_sequence_number_ok:
  assumes "list_all2 (file_ok dir) fs rss" "rss \<noteq> []"
  shows "compute_last_sequence_number fs = Some (fst (last (concat rss)))"
proof -
  have fs: "fs \<noteq> []" using assms by auto
  then have "file_ok dir (last fs) (last rss)"
    using assms by (metis list_all2_lengthD list_all2_nthD last_conv_nth length_greater_0_conv diff_less zero_less_one)
  then show ?thesis
    using fs assms file_ok_nonempty[of dir "last fs" "last rss"] files_ok_concat_not_Nil[OF assms]
    by (cases fs rule: rev_cases) (auto simp: compute_last_sequence_number_def last_concat)
qed

lemma wal_open_rel:
  assumes "wal_rel m rss"
  shows "\<exists>m'. wal_open (new_manager (wal_directory m)) = Inr m' \<and> wal_rel m' rss
    \<and> log_files m' = log_files m \<and> wal_directory m' = wal_directory m \<and> wal_is_open m'
    \<and> (rss \<noteq> [] \<longrightarrow> last_sequence_number m' = last_sequence_number m)"
proof -
  note rel = wal_relD[OF assms]
  have names: "sort (remdups (filter is_wal_file (map fst (wal_directory m)))) = map filename (log_files m)"
    by (rule sort_filenames[OF rel(2)]) (use rel(3) in auto)
  have last: "compute_last_sequence_number (log_files m) = (if rss = [] then None else last_sequence_number m)"
    using assms compute_last_sequence_number_ok[OF rel(1)] rel(1)
    by (auto simp: wal_rel_def compute_last_sequence_number_def)
  have "wal_open (new_manager (wal_directory m)) = Inr ((new_manager (wal_directory m))\<lparr>log_files := log_files m,
      last_sequence_number := compute_last_sequence_number (log_files m), wal_is_open := True\<rparr>)"
    using names open_all_ok[OF rel(1)] by (simp add: wal_open_def new_manager_def)
  then show ?thesis
    using assms last by (auto simp: wal_rel_def new_manager_def)
qed


subsection \<open>Completing transactions\<close>

text \<open>The loop deletes whole files whose last transaction is the completed one or precedes it.\<close>

definition completed_by :: "sequence_number_t \<Rightarrow> wal_record list \<Rightarrow> bool" where
  "completed_by n rs \<longleftrightarrow> n = fst (last rs) \<or> is_less_than (fst (last rs)) n"

lemma map_of_delete_file: "map_of (delete_file dir f) = (map_of dir)(filename f := None)"
  by (simp add: delete_file_def delete_conv')

lemma remove_completed_ok:
  assumes "list_all2 (file_ok dir) fs rss" "sorted_wrt (\<lambda>f g. filename f < filename g) fs"
    and "{n \<in> fst ` set dir. is_wal_file n} = filename ` set fs"
    and "remove_completed_upto b n shut dir fs = (dir', fs')"
  shows "\<exists>k \<le> length fs. fs' = drop k fs \<and> list_all2 (file_ok dir') fs' (drop k rss)
    \<and> {n \<in> fst ` set dir'. is_wal_file n} = filename ` set fs'
    \<and> (\<forall>rs \<in> set (take k rss). completed_by n rs)
    \<and> (shut \<or> k < length fs \<or> fs = [])"
  using assms
proof (induction fs arbitrary: dir rss b)
  case Nil
  then show ?case by (cases b) auto
next
  case (Cons f fs)
  obtain rs rss' where rss: "rss = rs # rss'" "file_ok dir f rs" "list_all2 (file_ok dir) fs rss'"
    using Cons.prems(1) by (auto simp: list_all2_Cons1)
  note nonempty = file_ok_nonempty[OF rss(2)]
  show ?case
  proof (cases "b > 0 \<and> (fs \<noteq> [] \<or> shut) \<and> completed_by n rs")
    case False
    then have "dir' = dir" "fs' = f # fs"
      using Cons.prems(4) nonempty by (cases b; auto simp: completed_by_def split: if_splits)+
    then show ?thesis
      using Cons.prems False rss(1) by (intro exI[of _ 0]) auto
  next
    case True
    then obtain b' where b': "b = Suc b'" by (cases b) auto
    define d where "d = delete_file dir f"
    have rem: "remove_completed_upto b' n shut d fs = (dir', fs')"
      using Cons.prems(4) True nonempty by (simp add: completed_by_def d_def b')
    have neq: "\<forall>g \<in> set fs. filename g \<noteq> filename f"
      using Cons.prems(2) by auto
    have files: "list_all2 (file_ok d) fs rss'"
      using rss(3) by (rule files_ok_cong) (use neq in \<open>simp add: d_def map_of_delete_file\<close>)
    have "fst ` set d = fst ` set dir - {filename f}"
      unfolding d_def delete_file_def by (metis delete_keys list.set_map set_removeAll)
    then have names: "{n \<in> fst ` set d. is_wal_file n} = filename ` set fs"
      using Cons.prems(3) neq by auto
    have srt: "sorted_wrt (\<lambda>f g. filename f < filename g) fs" using Cons.prems(2) by simp
    obtain k where k: "k \<le> length fs" "fs' = drop k fs" "list_all2 (file_ok dir') fs' (drop k rss')"
      "{n \<in> fst ` set dir'. is_wal_file n} = filename ` set fs'"
      "\<forall>rs \<in> set (take k rss'). completed_by n rs" "shut \<or> k < length fs \<or> fs = []"
      using Cons.IH[OF files srt names rem] by blast
    show ?thesis
      by (rule exI[of _ "Suc k"]) (use k True rss(1) in auto)
  qed
qed

text \<open>Deleting the first files that are completed leaves a log of the remaining records.\<close>

lemma remove_completed_rel:
  assumes "wal_rel m rss" "log_files m \<noteq> []"
    and rem: "remove_completed_upto b n shut (wal_directory m) (log_files m) = (dir', fs')"
  shows "\<exists>k \<le> length rss. wal_rel (m\<lparr>last_completed_transaction_sequence_number := c, wal_directory := dir', log_files := fs'\<rparr>) (drop k rss)
    \<and> (\<forall>rs \<in> set (take k rss). completed_by n rs) \<and> (shut \<or> k < length rss) \<and> fs' = drop k (log_files m)"
proof -
  note rel = wal_relD[OF assms(1)]
  obtain k where k: "k \<le> length rss" "fs' = drop k (log_files m)" "list_all2 (file_ok dir') fs' (drop k rss)"
    "{n \<in> fst ` set dir'. is_wal_file n} = filename ` set fs'"
    "\<forall>rs \<in> set (take k rss). completed_by n rs" "shut \<or> k < length rss"
    using remove_completed_ok[OF rel(1-3) rem] assms(2) rel(4) by auto
  obtain s where s: "valid_sequence_number s" "seq.numbered s (concat rss)"
    using assms(1) by (auto simp: wal_rel_def)
  have split: "concat rss = concat (take k rss) @ concat (drop k rss)"
    by (metis append_take_drop_id concat_append)
  have num: "seq.numbered ((get_sequence_number_after ^^ length (concat (take k rss))) s) (concat (drop k rss))"
    using s(2) split seq.numbered_append by metis
  then have ex: "\<exists>s. valid_sequence_number s \<and> seq.numbered s (concat (drop k rss))"
    using seq.valid_funpow[OF s(1)] by blast
  have last: "drop k rss \<noteq> [] \<longrightarrow> last_sequence_number m = Some (fst (last (concat (drop k rss))))"
    using assms(1) split files_ok_concat_not_Nil[OF k(3)] by (auto simp: wal_rel_def)
  have "wal_rel (m\<lparr>last_completed_transaction_sequence_number := c, wal_directory := dir', log_files := fs'\<rparr>) (drop k rss)"
    unfolding wal_rel_def
    using k(2-4) ex last rel(2) assms(1)
    by (simp add: wal_rel_def sorted_wrt_drop)
  then show ?thesis using k by blast
qed


subsection \<open>Storing a transaction\<close>

lemma find_serial_later: "back_time < time \<Longrightarrow> find_serial back_time back time serial = Some serial"
  by (subst find_serial.simps) simp

lemma find_serial_same:
  assumes "\<not> back_time < time" "unat back < 2 ^ 32 - 1" "unat serial \<le> unat back + 1"
  shows "find_serial back_time back time serial = Some (back + 1)"
  using assms(3)
proof (induction "unat back + 1 - unat serial" arbitrary: serial)
  case 0
  have "unat (back + 1) = unat back + 1" using assms(2) by (simp add: unat_word_ariths)
  then have "serial = back + 1" using 0 by (simp add: word_unat_eq_iff)
  moreover have "back < back + 1"
    using \<open>unat (back + 1) = unat back + 1\<close> by (simp add: word_less_nat_alt)
  ultimately show ?case using assms(1) by (subst find_serial.simps) simp
next
  case (Suc d)
  have le: "unat serial \<le> unat back" using Suc by simp
  then have suc: "unat (serial + 1) = unat serial + 1"
    using assms(2) by (simp add: unat_word_ariths)
  have "find_serial back_time back time (serial + 1) = Some (back + 1)"
    using Suc le suc by (intro Suc.hyps(1)) simp_all
  then show ?case
    using assms(1) le by (subst find_serial.simps) (simp add: word_less_nat_alt)
qed

definition file_pre :: "directory \<Rightarrow> log_file \<Rightarrow> wal_record list \<Rightarrow> bool" where
  "file_pre dir f rs \<longleftrightarrow>
     map_of dir (filename f) = Some (concat (map record_bytes rs)) \<and> (\<forall>r \<in> set rs. valid_record r) \<and>
     file_size f = of_nat (length (concat (map record_bytes rs))) \<and>
     sequence_number_range f = (if rs = [] then None else Some (fst (hd rs), fst (last rs))) \<and>
     filename f = wal_filename (creation_time_string f) (serial_number f) \<and>
     valid_time (creation_time_string f) \<and> unat (serial_number f) < 1000"

lemma file_ok_pre: "file_ok dir f rs \<Longrightarrow> file_pre dir f rs"
  by (auto simp: file_ok_def file_pre_def)

lemma write_record_ok:
  assumes "file_pre dir f rs" "valid_record (n, sql)"
    and "length (concat (map record_bytes rs)) + 56 + length sql < 2 ^ 32"
    and "write_record dir f n sql = (dir', f')"
  shows "file_ok dir' f' (rs @ [(n, sql)])" "filename f' = filename f"
    "\<And>x. x \<noteq> filename f \<Longrightarrow> map_of dir' x = map_of dir x"
    "fst ` set dir' = insert (filename f) (fst ` set dir)"
proof -
  define bytes where "bytes = concat (map record_bytes rs)"
  have dir': "dir' = AList.update (filename f) (bytes @ record_bytes (n, sql)) dir"
    and f': "f' = f\<lparr>file_size := file_size f + 28 + of_nat (length sql) + 28,
        sequence_number_range := Some (case sequence_number_range f of
            Some (first, _) \<Rightarrow> (first, n) | None \<Rightarrow> (n, n))\<rparr>"
    using assms(1,4) by (auto simp: write_record_def file_pre_def contents_def bytes_def)
  show "filename f' = filename f" by (simp add: f')
  show "\<And>x. x \<noteq> filename f \<Longrightarrow> map_of dir' x = map_of dir x"
    by (simp add: dir' update_conv')
  show "fst ` set dir' = insert (filename f) (fst ` set dir)"
    by (simp add: dir' dom_update)
  have len: "length (record_bytes (n, sql)) = 56 + length sql"
    using length_record_bytes[OF assms(2)] by simp
  have "file_size f + 28 + of_nat (length sql) + 28 = of_nat (length bytes + (56 + length sql))"
    using assms(1) by (simp add: file_pre_def bytes_def)
  then show "file_ok dir' f' (rs @ [(n, sql)])"
    using assms(1-3) len
    by (auto simp: file_ok_def file_pre_def dir' f' bytes_def[symmetric] update_conv')
qed

definition clock_ok :: "log_file list \<Rightarrow> string \<Rightarrow> bool" where
  "clock_ok fs time \<longleftrightarrow> valid_time time \<and>
     (fs \<noteq> [] \<longrightarrow> creation_time_string (last fs) < time \<or>
       creation_time_string (last fs) = time \<and> unat (serial_number (last fs)) < 999)"

lemma new_serial_number_ok:
  assumes "clock_ok fs time" "list_all2 (file_ok dir) fs rss"
    and "sorted_wrt (\<lambda>f g. filename f < filename g) fs"
  shows "\<exists>serial. new_serial_number fs time = Some serial \<and> unat serial < 1000
    \<and> (\<forall>f \<in> set fs. filename f < wal_filename time serial)"
proof (cases fs rule: rev_cases)
  case Nil
  then show ?thesis by (simp add: new_serial_number_def)
next
  case (snoc gs g)
  have g: "file_ok dir g (last rss)"
    using assms(2) snoc by (auto simp: list_all2_append1 list_all2_Cons1)
  note gD = file_okD[OF g]
  have least: "\<forall>f \<in> set fs. filename f \<le> filename g"
    using assms(3) snoc by (auto simp: sorted_wrt_append less_imp_le)
  define serial where "serial = (if creation_time_string g < time then 0 else serial_number g + 1)"
  have clock: "creation_time_string g < time \<or> creation_time_string g = time \<and> unat (serial_number g) < 999"
    and time: "valid_time time"
    using assms(1) snoc by (auto simp: clock_ok_def)
  have suc: "unat (serial_number g + 1) = unat (serial_number g) + 1" if "unat (serial_number g) < 999"
    using that by (simp add: unat_word_ariths)
  have found: "new_serial_number fs time = Some serial"
    using clock snoc find_serial_later[of "creation_time_string g" time "serial_number g" 0]
      find_serial_same[of "creation_time_string g" time "serial_number g" 0]
    by (auto simp: new_serial_number_def serial_def)
  have small: "unat serial < 1000" using clock suc by (auto simp: serial_def)
  have "filename g < wal_filename time serial"
    unfolding gD(7)
    by (rule wal_filename_less[OF gD(8) time _ small]) (use clock suc in \<open>auto simp: serial_def\<close>)
  then show ?thesis using found small least by (auto intro: le_less_trans)
qed

lemma append_record_rel:
  assumes "list_all2 (file_ok dir) gs rss" "file_pre dir g rs"
    and "sorted_wrt (\<lambda>f g. filename f < filename g) (gs @ [g])"
    and "{n \<in> fst ` set dir. is_wal_file n} = filename ` set (gs @ [g])"
    and "valid_sequence_number n" "length (concat (map record_bytes rs)) + 56 + length sql < 2 ^ 32"
    and "\<exists>s. valid_sequence_number s \<and> seq.numbered s (concat rss @ rs @ [(n, sql)])"
    and "write_record dir g n sql = (dir', g')"
  shows "wal_rel (m\<lparr>last_sequence_number := Some n, wal_directory := dir', log_files := gs @ [g']\<rparr>)
    (rss @ [rs @ [(n, sql)]])"
proof -
  have valid: "valid_record (n, sql)"
    using assms(5,6) by (simp add: valid_record_def valid_sequence_number_def)
  note w = write_record_ok[OF assms(2) valid assms(6,8)]
  have gs: "list_all2 (file_ok dir') gs rss"
    using assms(1) by (rule files_ok_cong) (use w(3) assms(3) in \<open>auto simp: sorted_wrt_append\<close>)
  have name: "is_wal_file (filename g)" using assms(4) by auto
  have names: "{n \<in> fst ` set dir'. is_wal_file n} = filename ` set (gs @ [g'])"
    using assms(4) name w(2,4) by auto
  show ?thesis
    unfolding wal_rel_def
    using gs w(1,2) names assms(3,5,7) by (simp add: sorted_wrt_append list_all2_appendI)
qed

lemma store_transaction_rel:
  assumes rel: "wal_rel m rss" and clock: "clock_ok (log_files m) time" and len: "length sql < 2 ^ 31"
  shows "\<exists>m' n rss'. store_transaction m time sql = Some (Inr (m', n)) \<and> wal_rel m' rss'
    \<and> concat rss' = concat rss @ [(n, sql)] \<and> log_files m' \<noteq> []
    \<and> n = (case last_sequence_number m of Some l \<Rightarrow> get_sequence_number_after l | None \<Rightarrow> 0)
    \<and> last_sequence_number m' = Some n \<and> wal_is_open m' = wal_is_open m
    \<and> last_completed_transaction_sequence_number m' = last_completed_transaction_sequence_number m"
proof -
  note relD = wal_relD[OF rel]
  define n where "n = (case last_sequence_number m of Some l \<Rightarrow> get_sequence_number_after l | None \<Rightarrow> 0)"
  have n: "valid_sequence_number n"
    using rel seq.valid_nxt
    by (auto simp: n_def wal_rel_def valid_sequence_number_def max_sequence_number_def split: option.split)
  have num: "\<exists>s. valid_sequence_number s \<and> seq.numbered s (concat rss @ [(n, sql)])"
  proof (cases "rss = []")
    case True
    then show ?thesis using n by (auto simp: seq.numbered_def intro: exI[of _ n])
  next
    case False
    then show ?thesis
      using rel files_ok_concat_not_Nil[OF relD(1)] seq.numbered_snoc[of _ "concat rss" sql]
      unfolding wal_rel_def n_def by fastforce
  qed
  show ?thesis
  proof (cases "log_files m = [] \<or> max_log_size < file_size (last (log_files m))")
    case True
    obtain serial where serial: "new_serial_number (log_files m) time = Some serial" "unat serial < 1000"
      "\<forall>f \<in> set (log_files m). filename f < wal_filename time serial"
      using new_serial_number_ok[OF clock relD(1,2)] by blast
    define name where "name = wal_filename time serial"
    define g where "g = \<lparr>creation_time_string = time, serial_number = serial, filename = name,
      file_size = 0, sequence_number_range = None\<rparr>"
    define d where "d = AList.update name [] (wal_directory m)"
    have fresh: "name \<notin> fst ` set (wal_directory m)"
      using relD(3) serial(3) is_wal_file_wal_filename[of time serial] by (force simp: name_def)
    then have create: "create_new (wal_directory m) time serial = Inr (d, g)"
      by (simp add: create_new_def d_def g_def name_def map_of_eq_None_iff)
    obtain d' g' where w: "write_record d g n sql = (d', g')" by fastforce
    have files: "list_all2 (file_ok d) (log_files m) rss"
      using relD(1) by (rule files_ok_cong) (use serial(3) in \<open>auto simp: d_def name_def update_conv'\<close>)
    have pre: "file_pre d g []"
      using clock serial(2) by (simp add: file_pre_def d_def g_def name_def clock_ok_def update_conv')
    have "wal_rel (m\<lparr>last_sequence_number := Some n, wal_directory := d', log_files := log_files m @ [g']\<rparr>)
      (rss @ [[] @ [(n, sql)]])"
      by (rule append_record_rel[OF files pre _ _ n _ _ w])
        (use relD(2,3) serial(3) num len in \<open>auto simp: sorted_wrt_append g_def name_def d_def dom_update\<close>)
    moreover have "store_transaction m time sql = Some (Inr
        (m\<lparr>last_sequence_number := Some n, wal_directory := d', log_files := log_files m @ [g']\<rparr>, n))"
      using True serial(1) create w
      by (simp add: store_transaction_def get_next_sequence_number_def n_def Let_def)
    ultimately show ?thesis
      unfolding n_def[symmetric] 
      by (intro exI[of _ "m\<lparr>last_sequence_number := Some n, wal_directory := d', log_files := log_files m @ [g']\<rparr>"]
          exI[of _ n] exI[of _ "rss @ [[(n, sql)]]"]) simp
  next
    case False
    then obtain gs g where gs: "log_files m = gs @ [g]" by (cases "log_files m" rule: rev_cases) auto
    then obtain rss0 rs where rss: "rss = rss0 @ [rs]" "list_all2 (file_ok (wal_directory m)) gs rss0"
      "file_ok (wal_directory m) g rs"
      using relD(1) by (auto simp: list_all2_append1 list_all2_Cons1)
    obtain d' g' where w: "write_record (wal_directory m) g n sql = (d', g')" by fastforce
    have "unat (file_size g) \<le> 104857600"
      using False gs by (simp add: max_log_size_def word_le_nat_alt not_less push_bit_eq_mult)
    then have small: "length (concat (map record_bytes rs)) + 56 + length sql < 2 ^ 32"
      using len file_okD(4,5)[OF rss(3)] by (simp add: unat_of_nat_u32)
    have "wal_rel (m\<lparr>last_sequence_number := Some n, wal_directory := d', log_files := gs @ [g']\<rparr>)
      (rss0 @ [rs @ [(n, sql)]])"
      by (rule append_record_rel[OF rss(2) file_ok_pre[OF rss(3)] _ _ n small _ w])
        (use relD(2,3) num rss(1) gs in auto)
    moreover have "store_transaction m time sql = Some (Inr
        (m\<lparr>last_sequence_number := Some n, wal_directory := d', log_files := gs @ [g']\<rparr>, n))"
      using False gs w
      by (simp add: store_transaction_def get_next_sequence_number_def n_def Let_def)
    ultimately show ?thesis
      unfolding n_def[symmetric]
      by (intro exI[of _ "m\<lparr>last_sequence_number := Some n, wal_directory := d', log_files := gs @ [g']\<rparr>"]
          exI[of _ n] exI[of _ "rss0 @ [rs @ [(n, sql)]]"]) (simp add: rss(1))
  qed
qed


subsection \<open>Replaying\<close>

lemma replay_files_filter:
  assumes "list_all2 (file_ok dir) fs rss"
    and "\<forall>rs \<in> set rss. is_less_than (fst (last rs)) n \<longrightarrow> filter (\<lambda>r. is_less_than n (fst r)) rs = []"
  shows "replay_files n dir fs = (filter (\<lambda>r. is_less_than n (fst r)) (concat rss), None)"
  using assms by (induction rule: list_all2_induct) (auto simp: file_ok_nonempty)

lemma replay_rel:
  assumes "wal_rel m rss" "valid_sequence_number p" "length (concat rss) < 1073741823" "k \<le> length (concat rss)"
    and "seq.numbered (get_sequence_number_after p) (concat rss)"
  shows "replay_transactions_after m ((get_sequence_number_after ^^ k) p) = (drop k (concat rss), None)"
proof -
  define n where "n = (get_sequence_number_after ^^ k) p"
  note relD = wal_relD[OF assms(1)]
  have skip: "filter (\<lambda>r. is_less_than n (fst r)) rs = []"
    if rs: "rs \<in> set rss" and lt: "is_less_than (fst (last rs)) n" for rs
  proof -
    obtain pre post where split: "rss = pre @ rs # post" using rs by (meson split_list)
    have ne: "rs \<noteq> []"
      using relD(1) rs file_okD(2) by (metis in_set_conv_nth list_all2_conv_all_nth)
    have "length (concat pre @ rs) \<le> k"
      using seq.last_position[of p "concat pre @ rs" "concat post" k] assms lt ne
      by (simp add: split n_def)
    then have "set rs \<subseteq> set (take k (concat rss))"
      by (auto simp: split take_Cons')
    then show ?thesis
      using seq.not_lt_from[OF assms(2,5,3,4)] by (auto simp: filter_empty_conv n_def)
  qed
  have "replay_files n (wal_directory m) (log_files m) = (filter (\<lambda>r. is_less_than n (fst r)) (concat rss), None)"
    by (rule replay_files_filter[OF relD(1)]) (use skip in blast)
  then show ?thesis
    using seq.filter_from[OF assms(2,5,3,4)] by (simp add: replay_transactions_after_def n_def)
qed


subsection \<open>The records of the log as a function of the manager\<close>

definition log_records :: "write_ahead_log_manager \<Rightarrow> wal_record list" where
  "log_records m = concat (map (\<lambda>f. fst (for_each_record (contents (wal_directory m) (filename f)))) (log_files m))"

definition wal_ok :: "write_ahead_log_manager \<Rightarrow> bool" where
  "wal_ok m \<longleftrightarrow> (\<exists>rss. wal_rel m rss)"

lemma log_records_files:
  "list_all2 (file_ok dir) fs rss \<Longrightarrow>
   concat (map (\<lambda>f. fst (for_each_record (contents dir (filename f)))) fs) = concat rss"
  by (induction rule: list_all2_induct) (auto simp: file_ok_nonempty)

lemma log_records_rel: "wal_rel m rss \<Longrightarrow> log_records m = concat rss"
  unfolding log_records_def by (rule log_records_files) (rule wal_relD)

lemma wal_ok_numbered:
  assumes "wal_ok m"
  shows "\<exists>p. valid_sequence_number p \<and> seq.numbered (get_sequence_number_after p) (log_records m)"
proof -
  obtain rss s where rel: "wal_rel m rss" and s: "valid_sequence_number s" "seq.numbered s (concat rss)"
    using assms by (auto simp: wal_ok_def wal_rel_def)
  define p where "p = (if s = 0 then max_sequence_number else s - 1)"
  have "valid_sequence_number p" "get_sequence_number_after p = s"
    using s(1) by (auto simp: p_def valid_sequence_number_def get_sequence_number_after_def max_sequence_number_def)
  then show ?thesis using s(2) log_records_rel[OF rel] by metis
qed

lemma completed_position:
  assumes rel: "wal_rel m rss" and p: "valid_sequence_number p" "seq.numbered (get_sequence_number_after p) (concat rss)"
    and len: "length (concat rss) < 1073741823"
    and compl: "\<forall>rs \<in> set (take j rss). completed_by ((get_sequence_number_after ^^ k) p) rs"
  shows "length (concat (take j rss)) \<le> k"
proof (cases "take j rss" rule: rev_cases)
  case (snoc pre rs)
  have split: "concat rss = (concat pre @ rs) @ concat (drop j rss)"
    using snoc by (metis append_take_drop_id concat_append concat.simps append_Nil2)
  have ne: "rs \<noteq> []"
    using wal_relD(1)[OF rel] snoc file_okD(2)
    by (metis in_set_conv_decomp in_set_conv_nth in_set_takeD list_all2_conv_all_nth)
  have "completed_by ((get_sequence_number_after ^^ k) p) rs" using compl snoc by simp
  then have "length (concat pre @ rs) \<le> k"
    using seq.last_position[of p "concat pre @ rs" "concat (drop j rss)" k] p len ne split
    by (auto simp: completed_by_def)
  then show ?thesis using snoc by simp
qed auto

lemma remove_completed_log:
  assumes "wal_ok m" "log_files m \<noteq> []" "length (log_records m) < 1073741823"
    and p: "valid_sequence_number p" "seq.numbered (get_sequence_number_after p) (log_records m)"
    and rem: "remove_completed_upto b ((get_sequence_number_after ^^ k) p) shut (wal_directory m) (log_files m) = (dir', fs')"
    and m': "m' = m\<lparr>last_completed_transaction_sequence_number := c, wal_directory := dir', log_files := fs'\<rparr>"
  shows "wal_ok m' \<and> (\<exists>j \<le> k. j \<le> length (log_records m) \<and> log_records m' = drop j (log_records m)) \<and> (shut \<or> fs' \<noteq> [])"
proof -
  obtain rss where rel: "wal_rel m rss" using assms(1) by (auto simp: wal_ok_def)
  note log = log_records_rel[OF rel]
  obtain i where i: "wal_rel m' (drop i rss)" "\<forall>rs \<in> set (take i rss). completed_by ((get_sequence_number_after ^^ k) p) rs"
    "shut \<or> i < length rss" "fs' = drop i (log_files m)"
    using remove_completed_rel[OF rel assms(2) rem, of c] m' by blast
  define j where "j = length (concat (take i rss))"
  have split: "concat rss = concat (take i rss) @ concat (drop i rss)"
    by (metis append_take_drop_id concat_append)
  have "j \<le> k"
    unfolding j_def by (rule completed_position[OF rel]) (use p assms(3) log i(2) in auto)
  moreover have "log_records m' = drop j (log_records m)" "j \<le> length (log_records m)"
    using log_records_rel[OF i(1)] split by (simp_all add: log j_def)
  moreover have "shut \<or> fs' \<noteq> []" using i(3,4) wal_relD(4)[OF rel] by auto
  ultimately show ?thesis using i(1) by (auto simp: wal_ok_def)
qed

lemma transaction_completed_log:
  assumes "wal_ok m" "log_files m \<noteq> []" "length (log_records m) < 1073741823"
    and p: "valid_sequence_number p" "seq.numbered (get_sequence_number_after p) (log_records m)"
  shows "\<exists>m' j. transaction_completed m ((get_sequence_number_after ^^ k) p) shut = Inr m' \<and> wal_ok m'
    \<and> j \<le> k \<and> j \<le> length (log_records m) \<and> log_records m' = drop j (log_records m)
    \<and> (shut \<or> log_files m' \<noteq> []) \<and> last_sequence_number m' = last_sequence_number m
    \<and> wal_is_open m' = wal_is_open m
    \<and> last_completed_transaction_sequence_number m' = Some ((get_sequence_number_after ^^ k) p)"
proof -
  let ?n = "(get_sequence_number_after ^^ k) p"
  obtain dir' fs' where rem: "remove_completed_upto (length (log_files m)) ?n shut (wal_directory m) (log_files m) = (dir', fs')"
    by fastforce
  define m' where "m' = m\<lparr>last_completed_transaction_sequence_number := Some ?n, wal_directory := dir', log_files := fs'\<rparr>"
  have "transaction_completed m ?n shut = Inr m'"
    using assms(2) rem by (simp add: transaction_completed_def m'_def remove_completed_upto_all)
  then show ?thesis
    using remove_completed_log[OF assms rem m'_def] by (intro exI[of _ m']) (auto simp: m'_def)
qed

text \<open>A process that ends while it deletes files leaves the log of a manager that has deleted fewer of them.\<close>

lemma interrupted_completion_log:
  assumes "wal_ok m" "log_files m \<noteq> []" "length (log_records m) < 1073741823"
    and p: "valid_sequence_number p" "seq.numbered (get_sequence_number_after p) (log_records m)"
  shows "\<exists>m' j. wal_directory m' = interrupted_completion m ((get_sequence_number_after ^^ k) p) b \<and> wal_ok m'
    \<and> j \<le> k \<and> j \<le> length (log_records m) \<and> log_records m' = drop j (log_records m) \<and> log_files m' \<noteq> []"
proof -
  let ?n = "(get_sequence_number_after ^^ k) p"
  obtain dir' fs' where rem: "remove_completed_upto b ?n False (wal_directory m) (log_files m) = (dir', fs')" by fastforce
  define m' where "m' = m\<lparr>last_completed_transaction_sequence_number := None, wal_directory := dir', log_files := fs'\<rparr>"
  show ?thesis
    using remove_completed_log[OF assms rem m'_def] rem
    by (intro exI[of _ m']) (auto simp: m'_def interrupted_completion_def)
qed

lemma store_transaction_log:
  assumes "wal_ok m" "clock_ok (log_files m) time" "length sql < 2 ^ 31"
  shows "\<exists>m' n. store_transaction m time sql = Some (Inr (m', n)) \<and> wal_ok m'
    \<and> log_records m' = log_records m @ [(n, sql)] \<and> log_files m' \<noteq> []
    \<and> n = (case last_sequence_number m of Some l \<Rightarrow> get_sequence_number_after l | None \<Rightarrow> 0)
    \<and> last_sequence_number m' = Some n \<and> wal_is_open m' = wal_is_open m"
proof -
  obtain rss where rel: "wal_rel m rss" using assms(1) by (auto simp: wal_ok_def)
  show ?thesis
    using store_transaction_rel[OF rel assms(2,3)] log_records_rel[OF rel] log_records_rel
    by (metis wal_ok_def)
qed

lemma wal_reopen:
  assumes "wal_ok m"
  shows "\<exists>m'. wal_open (new_manager (wal_directory m)) = Inr m' \<and> wal_ok m' \<and> wal_is_open m'
    \<and> log_records m' = log_records m \<and> log_files m' = log_files m
    \<and> (log_records m \<noteq> [] \<longrightarrow> last_sequence_number m' = Some (fst (last (log_records m))))"
proof -
  obtain rss where rel: "wal_rel m rss" using assms(1) by (auto simp: wal_ok_def)
  obtain m' where m': "wal_open (new_manager (wal_directory m)) = Inr m'" "wal_rel m' rss"
    "log_files m' = log_files m" "wal_is_open m'"
    using wal_open_rel[OF rel] by blast
  have "log_records m \<noteq> [] \<longrightarrow> last_sequence_number m' = Some (fst (last (log_records m)))"
    using m'(2) log_records_rel[OF rel] by (auto simp: wal_rel_def)
  then show ?thesis
    using m' log_records_rel[OF rel] log_records_rel[OF m'(2)] by (auto simp: wal_ok_def)
qed

lemma replay_log:
  assumes "wal_ok m" "length (log_records m) < 1073741823" "k \<le> length (log_records m)"
    and "valid_sequence_number p" "seq.numbered (get_sequence_number_after p) (log_records m)"
  shows "replay_transactions_after m ((get_sequence_number_after ^^ k) p) = (drop k (log_records m), None)"
proof -
  obtain rss where rel: "wal_rel m rss" using assms(1) by (auto simp: wal_ok_def)
  show ?thesis using replay_rel[OF rel] assms log_records_rel[OF rel] by simp
qed


text \<open>A process that ends while it stores a record: nothing has happened, or the record is there, or the directory cannot
  be opened again.\<close>

lemma update_same: "map_of al k = Some v \<Longrightarrow> AList.update k v al = al"
  by (induction al) auto

lemma open_all_fails: "name \<in> set names \<Longrightarrow> open_existing dir name = Inl e \<Longrightarrow> \<exists>e. open_all dir names = Inl e"
proof (induction names)
  case (Cons x names)
  then show ?case by (cases "open_existing dir x"; cases "open_all dir names") auto
qed simp

lemma torn_file_blocks_open:
  assumes "is_wal_file name" "\<forall>r \<in> set rs. valid_record r" "valid_record r" "record_bytes r = t @ u" "u \<noteq> []" "rs = [] \<or> t \<noteq> []"
    and "map_of dir name = Some (concat (map record_bytes rs) @ t)"
  shows "\<exists>e. wal_open (new_manager dir) = Inl e"
proof -
  obtain e where "for_each_record (concat (map record_bytes rs) @ t) = (rs, Some e)"
    using for_each_record_torn[OF assms(2,6)] read_record_torn[OF assms(3-5)] by blast
  then have fails: "\<exists>e. open_existing dir name = Inl e"
    using assms(7) by (auto simp: open_existing_def contents_def Let_def)
  have "name \<in> set (sort (remdups (filter is_wal_file (map fst dir))))"
    using assms(1) map_of_SomeD[OF assms(7)] by force
  then show ?thesis using fails open_all_fails by (fastforce simp: wal_open_def new_manager_def Let_def)
qed

definition new_file_due :: "write_ahead_log_manager \<Rightarrow> bool" where
  "new_file_due m \<longleftrightarrow> log_files m = [] \<or> max_log_size < file_size (last (log_files m))"

lemma interrupted_store_log:
  assumes ok: "wal_ok m" and clock: "clock_ok (log_files m) time" and len: "length sql < 2 ^ 31"
    and store: "store_transaction m time sql = Some (Inr (m', n))"
  shows "\<exists>dir. interrupted_store m time sql k = Some (Inr dir)
    \<and> (length (record_bytes (n, sql)) \<le> k \<longrightarrow> dir = wal_directory m')
    \<and> (k = 0 \<and> \<not> new_file_due m \<longrightarrow> dir = wal_directory m)
    \<and> (k < length (record_bytes (n, sql)) \<and> (0 < k \<or> new_file_due m) \<longrightarrow> (\<exists>e. wal_open (new_manager dir) = Inl e))"
proof -
  obtain rss where rel: "wal_rel m rss" using ok by (auto simp: wal_ok_def)
  note relD = wal_relD[OF rel]
  have n: "n = snd (get_next_sequence_number m)" "valid_sequence_number n"
    using store_transaction_rel[OF rel clock len] store rel seq.valid_nxt
    by (auto simp: get_next_sequence_number_def Let_def wal_rel_def valid_sequence_number_def max_sequence_number_def split: option.splits)
  have valid: "valid_record (n, sql)" using n(2) len by (simp add: valid_record_def valid_sequence_number_def)
  have torn: "\<exists>e. wal_open (new_manager (AList.update name (concat (map record_bytes rs) @ take k (record_bytes (n, sql))) dir)) = Inl e"
    if "k < length (record_bytes (n, sql))" "rs = [] \<or> 0 < k" "\<forall>r \<in> set rs. valid_record r" "is_wal_file name" for name rs dir
    using that valid
    by (intro torn_file_blocks_open[of name rs "(n, sql)" "take k (record_bytes (n, sql))" "drop k (record_bytes (n, sql))"])
      (auto simp: update_conv')
  show ?thesis
  proof (cases "new_file_due m")
    case True
    obtain serial where serial: "new_serial_number (log_files m) time = Some serial"
      using new_serial_number_ok[OF clock relD(1,2)] by blast
    define name where "name = wal_filename time serial"
    obtain d g where create: "create_new (wal_directory m) time serial = Inr (d, g)"
      using store True serial by (cases "create_new (wal_directory m) time serial")
        (auto simp: store_transaction_def new_file_due_def Let_def)
    then have dg: "d = AList.update name [] (wal_directory m)" "filename g = name"
      by (auto simp: create_new_def name_def split: if_splits)
    have cont: "contents d name = []" by (simp add: dg contents_def update_conv')
    have inter: "interrupted_store m time sql k = Some (Inr (AList.update name (take k (record_bytes (n, sql))) d))"
      using True serial create cont dg(2) by (simp add: interrupted_store_def new_file_due_def Let_def n(1))
    have "wal_directory m' = AList.update name (record_bytes (n, sql)) d"
      using store True serial create cont dg(2) n(1)
      by (auto simp: store_transaction_def new_file_due_def Let_def get_next_sequence_number_def write_record_def split: option.splits)
    then show ?thesis using inter True torn[of "[]" name d] by (simp add: name_def)
  next
    case False
    then obtain gs g where gs: "log_files m = gs @ [g]" by (cases "log_files m" rule: rev_cases) (auto simp: new_file_due_def)
    then obtain rs where rs: "file_ok (wal_directory m) g rs" using relD(1) by (auto simp: list_all2_append1 list_all2_Cons1)
    note gD = file_okD[OF rs]
    have cont: "contents (wal_directory m) (filename g) = concat (map record_bytes rs)" using gD(1) by (simp add: contents_def)
    have inter: "interrupted_store m time sql k = Some (Inr (AList.update (filename g) (concat (map record_bytes rs) @ take k (record_bytes (n, sql))) (wal_directory m)))"
      using False gs cont by (simp add: interrupted_store_def new_file_due_def Let_def n(1))
    have full: "wal_directory m' = AList.update (filename g) (concat (map record_bytes rs) @ record_bytes (n, sql)) (wal_directory m)"
      using store False gs cont n(1)
      by (auto simp: store_transaction_def new_file_due_def Let_def get_next_sequence_number_def write_record_def split: option.splits)
    have name: "is_wal_file (filename g)" using relD(3) gs by auto
    show ?thesis using inter full False torn[of rs "filename g" "wal_directory m"] gD(1,3) name update_same[OF gD(1)] by auto
  qed
qed


subsection \<open>A concrete log\<close>

definition sample_time :: string where
  "sample_time = ''20240101T000000''"

definition sample_wal :: write_ahead_log_manager where
  "sample_wal = fst (projr (the (store_transaction (new_manager []) sample_time ''CMD'')))"

lemma wal_ok_new: "wal_ok (new_manager [])"
  unfolding wal_ok_def
  by (rule exI[of _ "[]"]) (auto simp: wal_rel_def new_manager_def valid_sequence_number_def max_sequence_number_def
      intro: exI[of _ 0])

lemma sample_wal_eq:
  "sample_wal = \<lparr>wal_directory = [(wal_filename sample_time 0, record_bytes (0, ''CMD''))],
     log_files = [\<lparr>creation_time_string = sample_time, serial_number = 0, filename = wal_filename sample_time 0,
        file_size = 59, sequence_number_range = Some (0, 0)\<rparr>], wal_is_open = False,
     last_sequence_number = Some 0, last_completed_transaction_sequence_number = None\<rparr>"
  by (simp add: sample_wal_def new_manager_def store_transaction_def new_serial_number_def create_new_def
      get_next_sequence_number_def write_record_def contents_def)

lemma clock_ok_sample: "clock_ok (log_files sample_wal) sample_time"
  by (simp add: sample_wal_eq clock_ok_def valid_time_def sample_time_def)

lemma sample_wal_ok:
  "wal_ok sample_wal \<and> log_records sample_wal = [(0, ''CMD'')]"
proof -
  have clock: "clock_ok (log_files (new_manager [])) sample_time"
    by (simp add: clock_ok_def new_manager_def valid_time_def sample_time_def)
  obtain m n where "store_transaction (new_manager []) sample_time ''CMD'' = Some (Inr (m, n))" "wal_ok m"
    "log_records m = log_records (new_manager []) @ [(n, ''CMD'')]" "n = 0"
    using store_transaction_log[OF wal_ok_new clock, of "''CMD''"] by (auto simp: new_manager_def)
  then show ?thesis by (simp add: sample_wal_def log_records_def new_manager_def)
qed


subsection \<open>Properties\<close>

text \<open>C27: Wrap-around comparison.  Numbers fewer than \<open>1073741823\<close> steps apart are ordered by
  \<open>is_less_than\<close> as they were issued, also across the wrap from \<open>2147483647\<close> to \<open>0\<close>.\<close>

theorem is_less_than_window:
  assumes "valid_sequence_number n" "d < 1073741823"
  shows "is_less_than n ((get_sequence_number_after ^^ d) n) = (0 < d)
    \<and> \<not> is_less_than ((get_sequence_number_after ^^ d) n) n"
  using seq.lt_ahead[OF assms(1), of d] seq.not_lt_behind[OF assms] seq.not_lt_behind[OF assms(1), of 0] assms(2)
  by (cases "d = 0") auto

theorem is_less_than_window_witness:
  "is_less_than 2147483646 ((get_sequence_number_after ^^ 3) 2147483646) = (0 < (3 :: nat))
   \<and> \<not> is_less_than ((get_sequence_number_after ^^ 3) 2147483646) 2147483646"
  by (rule is_less_than_window) (simp_all add: valid_sequence_number_def max_sequence_number_def)

text \<open>C18: Refinement of the log to a list of records.  Storing a command appends one record with the
  next number (in a new file when the last one is full), and opening the directory again, as after
  a crash at this point, gives the same list.\<close>

theorem store_transaction_refines:
  assumes "wal_ok m" "clock_ok (log_files m) time" "length sql < 2 ^ 31"
  shows "\<exists>m' n reopened. store_transaction m time sql = Some (Inr (m', n))
    \<and> log_records m' = log_records m @ [(n, sql)]
    \<and> n = (case last_sequence_number m of Some l \<Rightarrow> get_sequence_number_after l | None \<Rightarrow> 0)
    \<and> wal_open (new_manager (wal_directory m')) = Inr reopened \<and> wal_ok reopened
    \<and> log_records reopened = log_records m' \<and> last_sequence_number reopened = Some n"
proof -
  obtain m' n where m': "store_transaction m time sql = Some (Inr (m', n))" "wal_ok m'"
    "log_records m' = log_records m @ [(n, sql)]"
    "n = (case last_sequence_number m of Some l \<Rightarrow> get_sequence_number_after l | None \<Rightarrow> 0)"
    using store_transaction_log[OF assms] by blast
  then show ?thesis using wal_reopen[OF m'(2)] by auto
qed

theorem store_transaction_refines_witness:
  "\<exists>m' n reopened. store_transaction sample_wal sample_time ''NEXT'' = Some (Inr (m', n))
    \<and> log_records m' = [(0, ''CMD'')] @ [(n, ''NEXT'')] \<and> n = 1
    \<and> wal_open (new_manager (wal_directory m')) = Inr reopened \<and> wal_ok reopened
    \<and> log_records reopened = log_records m' \<and> last_sequence_number reopened = Some n"
  using store_transaction_refines[OF conjunct1[OF sample_wal_ok] clock_ok_sample, of "''NEXT''"] sample_wal_ok
  by (auto simp: sample_wal_eq get_sequence_number_after_def max_sequence_number_def)

text \<open>C19: Completing the transaction at position \<open>k\<close> of the log deletes a prefix of the log that lies
  within the first \<open>k\<close> records: no record after the completed one is ever deleted, and without a
  shutdown the log is not emptied.\<close>

theorem completion_keeps_uncompleted:
  assumes "wal_ok m" "log_files m \<noteq> []" "length (log_records m) < 1073741823"
    and "valid_sequence_number p" "seq.numbered (get_sequence_number_after p) (log_records m)"
  shows "\<exists>m' j. transaction_completed m ((get_sequence_number_after ^^ k) p) False = Inr m' \<and> wal_ok m'
    \<and> j \<le> k \<and> log_records m' = drop j (log_records m) \<and> log_files m' \<noteq> []"
  using transaction_completed_log[OF assms, of k False] by blast

theorem completion_keeps_uncompleted_witness:
  "\<exists>m' j. transaction_completed sample_wal ((get_sequence_number_after ^^ 1) 2147483647) False = Inr m' \<and> wal_ok m'
    \<and> j \<le> 1 \<and> log_records m' = drop j (log_records sample_wal) \<and> log_files m' \<noteq> []"
proof (rule completion_keeps_uncompleted)
  show "wal_ok sample_wal" "length (log_records sample_wal) < 1073741823" using sample_wal_ok by simp_all
  show "log_files sample_wal \<noteq> []" by (simp add: sample_wal_eq)
  show "valid_sequence_number 2147483647" by (simp add: valid_sequence_number_def max_sequence_number_def)
  show "seq.numbered (get_sequence_number_after 2147483647) (log_records sample_wal)"
    using sample_wal_ok by (simp add: seq.numbered_def get_sequence_number_after_def max_sequence_number_def)
qed

end
