(* ===== verification/Live_Processing.thy ===== *)
theory Live_Processing
  imports Wal_Recovery Tx_Controller
begin

text \<open>
  The processing thread of the live dumper (\<open>livesync_data_dumper.cpp\<close>, class \<open>processing_thread\<close>) with
  the write-ahead log and the database, and the recovery at the next start
  (\<open>sql_serializer.cpp\<close>, \<open>replay_wal_if_necessary\<close>).

  A command is first stored in the log, then queued, then executed together with the update of the
  sequence number in one transaction, then reported to the log.  These are the steps of \<open>live_step\<close>.
  The process may crash between any two of them, while bytes of a record are being written or while log files
  are being deleted; a crash keeps only the log directory and the committed database.  What a SQL command does
  to the tables is the parameter \<open>exec_sql\<close>.
\<close>

record 'x hafd =
  hafd_tables :: 'x
  last_sequence_number_committed :: "sequence_number_t option"

definition update_wal_sequence_number :: "sequence_number_t \<Rightarrow> 'x hafd \<Rightarrow> 'x hafd" where
  "update_wal_sequence_number n db = db\<lparr>last_sequence_number_committed := Some n\<rparr>"

definition get_wal_sequence_number :: "'x hafd \<Rightarrow> sequence_number_t option" where
  "get_wal_sequence_number db = last_sequence_number_committed db"

definition exec_on_tables :: "(string \<Rightarrow> 'x \<Rightarrow> 'x) \<Rightarrow> string \<Rightarrow> 'x hafd \<Rightarrow> 'x hafd" where
  "exec_on_tables exec_sql sql db = db\<lparr>hafd_tables := exec_sql sql (hafd_tables db)\<rparr>"

definition prune_command :: "u32 \<Rightarrow> string" where
  "prune_command pruning = ''SELECT hive.prune_blocks_data('' @ nat_to_string (unat pruning) @ '');''"

text \<open>The statements of one transaction of \<open>run\<close>.\<close>

definition command_statements ::
    "(string \<Rightarrow> 'x \<Rightarrow> 'x) \<Rightarrow> u32 \<Rightarrow> wal_record \<Rightarrow> ('x hafd \<Rightarrow> 'x hafd) list" where
  "command_statements exec_sql pruning r =
     [exec_on_tables exec_sql (snd r), update_wal_sequence_number (fst r)] @
     (if 0 < pruning \<and> fst r mod 10 = 0 then [exec_on_tables exec_sql (prune_command pruning)] else [])"

definition run_command ::
    "(string \<Rightarrow> 'x \<Rightarrow> 'x) \<Rightarrow> u32 \<Rightarrow> 'x hafd own_tx_controller \<Rightarrow> wal_record \<Rightarrow> attempt list \<Rightarrow>
     haf_error option \<times> 'x hafd own_tx_controller \<times> attempt list" where
  "run_command exec_sql pruning ctl r as = run_transaction (command_statements exec_sql pruning r) ctl as"

text \<open>The thread; it ends with an exception before or after its transaction was committed.\<close>

datatype live_worker =
    Idle
  | Executing wal_record
  | Committed wal_record
  | Died wal_record
  | Died_in_doubt wal_record

record 'x live_sys =
  lv_wal :: write_ahead_log_manager
  lv_stored :: "wal_record option"
  lv_queue :: "wal_record list"
  lv_worker :: live_worker
  lv_ctl :: "'x hafd own_tx_controller"
  lv_issued :: "wal_record list"
  lv_executed :: "wal_record list"

text \<open>What the environment grants a call of \<open>store_transaction\<close>: the clock has not gone back behind the name of the last
  log file (and gives out at most 1000 names a second), the length of the command fits its field, and the numbers in the
  log stay within the window in which they can be compared.\<close>

definition wal_can_store :: "write_ahead_log_manager \<Rightarrow> string \<Rightarrow> string \<Rightarrow> bool" where
  "wal_can_store m time sql \<longleftrightarrow> clock_ok (log_files m) time \<and> length sql < 2 ^ 31 \<and>
     length (log_records m) + 1 < 1073741823"

inductive live_step ::
    "(string \<Rightarrow> 'x \<Rightarrow> 'x) \<Rightarrow> u32 \<Rightarrow> nat \<Rightarrow> 'x live_sys \<Rightarrow> 'x live_sys \<Rightarrow> bool"
    for exec_sql pruning max_queue_depth where
  store: "lv_stored s = None \<Longrightarrow> wal_can_store (lv_wal s) time sql \<Longrightarrow>
    store_transaction (lv_wal s) time sql = Some (Inr (wal', n)) \<Longrightarrow>
    live_step exec_sql pruning max_queue_depth s
      (s\<lparr>lv_wal := wal', lv_stored := Some (n, sql), lv_issued := lv_issued s @ [(n, sql)]\<rparr>)"
| push: "lv_stored s = Some r \<Longrightarrow> length (lv_queue s) < max_queue_depth \<Longrightarrow>
    live_step exec_sql pruning max_queue_depth s (s\<lparr>lv_stored := None, lv_queue := lv_queue s @ [r]\<rparr>)"
| take: "lv_worker s = Idle \<Longrightarrow> lv_queue s = r # q \<Longrightarrow>
    live_step exec_sql pruning max_queue_depth s (s\<lparr>lv_worker := Executing r, lv_queue := q\<rparr>)"
| commit: "lv_worker s = Executing r \<Longrightarrow> connection_holds (lv_ctl s) as \<Longrightarrow>
    run_command exec_sql pruning (lv_ctl s) r as = (None, ctl', as') \<Longrightarrow>
    live_step exec_sql pruning max_queue_depth s
      (s\<lparr>lv_ctl := ctl', lv_worker := Committed r, lv_executed := lv_executed s @ [r]\<rparr>)"
| die: "lv_worker s = Executing r \<Longrightarrow> run_command exec_sql pruning (lv_ctl s) r as = (Some e, ctl', as') \<Longrightarrow>
    committed ctl' = committed (lv_ctl s) \<Longrightarrow>
    live_step exec_sql pruning max_queue_depth s (s\<lparr>lv_ctl := ctl', lv_worker := Died r\<rparr>)"
| die_in_doubt: "lv_worker s = Executing r \<Longrightarrow> connection_holds (lv_ctl s) as \<Longrightarrow>
    run_command exec_sql pruning (lv_ctl s) r as = (Some e, ctl', as') \<Longrightarrow> committed ctl' \<noteq> committed (lv_ctl s) \<Longrightarrow>
    live_step exec_sql pruning max_queue_depth s
      (s\<lparr>lv_ctl := ctl', lv_worker := Died_in_doubt r, lv_executed := lv_executed s @ [r]\<rparr>)"
| complete: "lv_worker s = Committed r \<Longrightarrow> transaction_completed (lv_wal s) (fst r) False = Inr wal' \<Longrightarrow>
    live_step exec_sql pruning max_queue_depth s (s\<lparr>lv_wal := wal', lv_worker := Idle\<rparr>)"

inductive live_reachable for exec_sql pruning max_queue_depth s0 where
  start: "live_reachable exec_sql pruning max_queue_depth s0 s0"
| step: "live_reachable exec_sql pruning max_queue_depth s0 s \<Longrightarrow>
    live_step exec_sql pruning max_queue_depth s s' \<Longrightarrow>
    live_reachable exec_sql pruning max_queue_depth s0 s'"

inductive_cases live_stepE: "live_step exec_sql pruning max_queue_depth s s'"


subsection \<open>Crashes\<close>

text \<open>The two operations of the log that write to the disk are critical sections of its mutex, so at most one of them is
  in progress when the process ends.\<close>

datatype crash =
    Between_steps
  | In_store string string nat     \<comment> \<open>second, command, bytes of the record that reached the file\<close>
  | In_completion nat              \<comment> \<open>files that were deleted\<close>

fun crash_directory :: "'x live_sys \<Rightarrow> crash \<Rightarrow> directory option" where
  "crash_directory s Between_steps = Some (wal_directory (lv_wal s))"
| "crash_directory s (In_store time sql written) =
     (if lv_stored s = None \<and> wal_can_store (lv_wal s) time sql
      then (case interrupted_store (lv_wal s) time sql written of Some (Inr dir) \<Rightarrow> Some dir | _ \<Rightarrow> None)
      else None)"
| "crash_directory s (In_completion k) =
     (case lv_worker s of Committed r \<Rightarrow> Some (interrupted_completion (lv_wal s) (fst r) k) | _ \<Rightarrow> None)"

text \<open>The record that was being written, whether it is on the disk in part only, and the commands that are on the disk.\<close>

definition next_record :: "'x live_sys \<Rightarrow> string \<Rightarrow> wal_record" where
  "next_record s sql = (snd (get_next_sequence_number (lv_wal s)), sql)"

fun torn_by :: "'x live_sys \<Rightarrow> crash \<Rightarrow> bool" where
  "torn_by s (In_store time sql written) \<longleftrightarrow>
     written < length (record_bytes (next_record s sql)) \<and> (0 < written \<or> new_file_due (lv_wal s))"
| "torn_by s _ \<longleftrightarrow> False"

fun issued_by :: "'x live_sys \<Rightarrow> crash \<Rightarrow> wal_record list" where
  "issued_by s (In_store time sql written) =
     lv_issued s @ (if length (record_bytes (next_record s sql)) \<le> written then [next_record s sql] else [])"
| "issued_by s _ = lv_issued s"


subsection \<open>Recovery\<close>

text \<open>Each query runs in its own \<open>queries_commit_data_processor\<close>, which is joined.\<close>

fun replay_records ::
    "(string \<Rightarrow> 'x \<Rightarrow> 'x) \<Rightarrow> wal_record list \<Rightarrow> 'x hafd \<Rightarrow> attempt list \<Rightarrow> haf_error option \<times> 'x hafd" where
  "replay_records exec_sql [] db as = (None, db)"
| "replay_records exec_sql (r # rs) db as =
     (case run_transaction [exec_on_tables exec_sql (snd r), update_wal_sequence_number (fst r)]
             (build_own_transaction_controller db) as of
        (e, c, as') \<Rightarrow> (case thrown_by_join e of
            Some e' \<Rightarrow> (Some e', committed c)
          | None \<Rightarrow> replay_records exec_sql rs (committed c) as'))"

text \<open>The number that the database has; \<open>None\<close> also when the query was cancelled.\<close>

definition last_wal_sequence_number_in_db ::
    "'x hafd \<Rightarrow> attempt list \<Rightarrow> haf_error option \<times> sequence_number_t option \<times> attempt list" where
  "last_wal_sequence_number_in_db db as =
     (case run_transaction [id] (build_own_transaction_controller db) as of
        (Some e, c, as') \<Rightarrow> (thrown_by_join (Some e), None, as')
      | (None, c, as') \<Rightarrow> (None, get_wal_sequence_number db, as'))"

definition replay_wal_if_necessary ::
    "(string \<Rightarrow> 'x \<Rightarrow> 'x) \<Rightarrow> write_ahead_log_manager \<Rightarrow> 'x hafd \<Rightarrow> attempt list \<Rightarrow> haf_error option \<times> 'x hafd" where
  "replay_wal_if_necessary exec_sql wal db as =
     (case last_wal_sequence_number_in_db db as of
        (Some e, _, _) \<Rightarrow> (Some e, db)
      | (None, number, as') \<Rightarrow>
          (case (number, last_sequence_number wal) of
             (Some in_db, Some in_log) \<Rightarrow>
               if is_less_than in_db in_log
               then (case replay_transactions_after wal in_db of
                   (rs, None) \<Rightarrow> replay_records exec_sql rs db as'
                 | (rs, Some e) \<Rightarrow> (case replay_records exec_sql rs db as' of
                       (Some e', db') \<Rightarrow> (Some e', db') | (None, db') \<Rightarrow> (Some e, db')))
               else (None, db)
           | _ \<Rightarrow> (None, db)))"

text \<open>A restart after a crash: the directory is opened by a new manager and the log replayed.\<close>

definition recover ::
    "(string \<Rightarrow> 'x \<Rightarrow> 'x) \<Rightarrow> directory \<Rightarrow> 'x hafd \<Rightarrow> attempt list \<Rightarrow> ('x hafd \<times> write_ahead_log_manager) result" where
  "recover exec_sql dir db as =
     rbind (wal_open (new_manager dir)) (\<lambda>wal.
       case replay_wal_if_necessary exec_sql wal db as of
         (Some e, _) \<Rightarrow> Inl e
       | (None, db') \<Rightarrow> Inr (db', wal))"


subsection \<open>The contract of a redo log\<close>

text \<open>\<open>aligned m n pend\<close>: relative to a database at number \<open>n\<close>, the log \<open>m\<close> holds the records \<open>pend\<close> still
  to be executed, in order.  The operations of the log keep this relation, and a log that was opened
  again replays exactly \<open>pend\<close>.\<close>

locale redo_log =
  fixes aligned :: "'m \<Rightarrow> 's \<Rightarrow> ('s \<times> 'c) list \<Rightarrow> bool"
    and can_store :: "'m \<Rightarrow> 't \<Rightarrow> 'c \<Rightarrow> bool"
    and store_op :: "'m \<Rightarrow> 't \<Rightarrow> 'c \<Rightarrow> (haf_error + 'm \<times> 's) option"
    and complete_op :: "'m \<Rightarrow> 's \<Rightarrow> haf_error + 'm"
    and reopen_op :: "'m \<Rightarrow> haf_error + 'm"
    and behind :: "'m \<Rightarrow> 's \<Rightarrow> bool"
    and replay_op :: "'m \<Rightarrow> 's \<Rightarrow> ('s \<times> 'c) list \<times> haf_error option"
  assumes store_law: "aligned m n pend \<Longrightarrow> can_store m t c \<Longrightarrow>
      \<exists>m' k. store_op m t c = Some (Inr (m', k)) \<and> aligned m' n (pend @ [(k, c)])"
    and commit_law: "aligned m n ((k, c) # pend) \<Longrightarrow> aligned m k pend"
    and complete_law: "aligned m n pend \<Longrightarrow> \<exists>m'. complete_op m n = Inr m' \<and> aligned m' n pend"
    and reopen_law: "aligned m n pend \<Longrightarrow> \<exists>m'. reopen_op m = Inr m' \<and> aligned m' n pend"
    and behind_law: "aligned m n pend \<Longrightarrow> behind m n \<longleftrightarrow> pend \<noteq> []"
    and replay_law: "aligned m n pend \<Longrightarrow> replay_op m n = (pend, None)"
begin

lemma commit_all_law: "aligned m n pend \<Longrightarrow> aligned m (if pend = [] then n else fst (last pend)) []"
proof (induction pend arbitrary: n)
  case (Cons r pend)
  then have "aligned m (fst r) pend" using commit_law[of m n "fst r" "snd r" pend] by simp
  then show ?case using Cons.IH[of "fst r"] by (cases pend) auto
qed simp

lemma crash_replays_pending:
  assumes "aligned m n pend"
  shows "\<exists>m'. reopen_op m = Inr m' \<and> aligned m' n pend \<and>
    (if behind m' n then replay_op m' n else ([], None)) = (pend, None)"
proof -
  obtain m' where "reopen_op m = Inr m'" "aligned m' n pend"
    using reopen_law[OF assms] by blast
  then show ?thesis using behind_law replay_law by (intro exI[of _ m']) auto
qed

end

definition wal_aligned :: "write_ahead_log_manager \<Rightarrow> sequence_number_t \<Rightarrow> wal_record list \<Rightarrow> bool" where
  "wal_aligned m n pend \<longleftrightarrow>
     wal_ok m \<and> log_records m \<noteq> [] \<and> length (log_records m) < 1073741823 \<and>
     (\<exists>p k. valid_sequence_number p \<and> seq.numbered (get_sequence_number_after p) (log_records m) \<and>
       k \<le> length (log_records m) \<and> n = (get_sequence_number_after ^^ k) p \<and> pend = drop k (log_records m))"

definition wal_behind :: "write_ahead_log_manager \<Rightarrow> sequence_number_t \<Rightarrow> bool" where
  "wal_behind m n \<longleftrightarrow> (case last_sequence_number m of None \<Rightarrow> False | Some l \<Rightarrow> is_less_than n l)"

lemma wal_ok_last:
  assumes "wal_ok m" "log_records m \<noteq> []"
  shows "last_sequence_number m = Some (fst (last (log_records m)))"
proof -
  obtain rss where rel: "wal_rel m rss" using assms(1) by (auto simp: wal_ok_def)
  note log = log_records_rel[OF rel]
  have "rss \<noteq> []" using assms(2) log by auto
  then show ?thesis using rel unfolding wal_rel_def log by blast
qed

lemma wal_ok_files: "wal_ok m \<Longrightarrow> log_files m \<noteq> [] \<longleftrightarrow> log_records m \<noteq> []"
  using files_ok_concat_not_Nil wal_relD(1,4)
  by (metis (no_types, opaque_lifting) concat.simps(1) length_0_conv log_records_rel wal_ok_def)

text \<open>Deleting records that are executed keeps the alignment.\<close>

lemma wal_aligned_drop:
  assumes m: "log_records m \<noteq> []" "length (log_records m) < 1073741823"
    and p: "valid_sequence_number p" "seq.numbered (get_sequence_number_after p) (log_records m)"
    and k: "k \<le> length (log_records m)" "n = (get_sequence_number_after ^^ k) p" "pend = drop k (log_records m)"
    and m': "wal_ok m'" "j \<le> k" "j \<le> length (log_records m)" "log_records m' = drop j (log_records m)" "log_files m' \<noteq> []"
  shows "wal_aligned m' n pend"
proof -
  define p' where "p' = (get_sequence_number_after ^^ j) p"
  have "seq.numbered (get_sequence_number_after p') (log_records m')"
    using seq.numbered_pred_drop[of p "take j (log_records m)" "drop j (log_records m)"] p(2) m'(3,4)
    by (simp add: p'_def min_absorb2)
  moreover have "n = (get_sequence_number_after ^^ (k - j)) p'"
    unfolding k(2) p'_def using m'(2) by (metis comp_apply funpow_add le_add_diff_inverse2)
  moreover have "pend = drop (k - j) (log_records m')" "k - j \<le> length (log_records m')"
    using k m'(2,4) by (simp_all add: add.commute)
  ultimately show ?thesis
    unfolding wal_aligned_def
    using m' wal_ok_files[OF m'(1)] m(2) seq.valid_funpow[OF p(1)] p'_def
    by (intro conjI exI[of _ p'] exI[of _ "k - j"]) auto
qed

lemma wal_alignedE:
  assumes "wal_aligned m n pend"
  obtains p k where "wal_ok m" "log_records m \<noteq> []" "log_files m \<noteq> []" "length (log_records m) < 1073741823"
    "valid_sequence_number p" "seq.numbered (get_sequence_number_after p) (log_records m)"
    "k \<le> length (log_records m)" "n = (get_sequence_number_after ^^ k) p" "pend = drop k (log_records m)"
  using assms wal_ok_files that by (auto simp: wal_aligned_def)

lemma interrupted_completion_aligned:
  assumes "wal_aligned m n pend"
  shows "\<exists>m'. wal_directory m' = interrupted_completion m n b \<and> wal_aligned m' n pend"
proof -
  obtain p k where m: "wal_ok m" "log_records m \<noteq> []" "log_files m \<noteq> []" "length (log_records m) < 1073741823"
    and p: "valid_sequence_number p" "seq.numbered (get_sequence_number_after p) (log_records m)"
    and k: "k \<le> length (log_records m)" "n = (get_sequence_number_after ^^ k) p" "pend = drop k (log_records m)"
    by (rule wal_alignedE[OF assms])
  obtain m' j where "wal_directory m' = interrupted_completion m n b" "wal_ok m'" "j \<le> k" "j \<le> length (log_records m)"
      "log_records m' = drop j (log_records m)" "log_files m' \<noteq> []"
    using interrupted_completion_log[OF m(1,3,4) p, of k b] k(2) by auto
  then show ?thesis using wal_aligned_drop[OF m(2,4) p k] by blast
qed

interpretation wal: redo_log wal_aligned wal_can_store store_transaction "\<lambda>m n. transaction_completed m n False"
  "\<lambda>m. wal_open (new_manager (wal_directory m))" wal_behind replay_transactions_after
proof
  fix m n pend and time sql :: string
  assume al: "wal_aligned m n pend"
  then obtain p k where m: "wal_ok m" "log_records m \<noteq> []" "length (log_records m) < 1073741823"
    and p: "valid_sequence_number p" "seq.numbered (get_sequence_number_after p) (log_records m)"
    and k: "k \<le> length (log_records m)" "n = (get_sequence_number_after ^^ k) p" "pend = drop k (log_records m)"
    by (auto simp: wal_aligned_def)
  note last = wal_ok_last[OF m(1,2)]
  show "replay_transactions_after m n = (pend, None)"
    unfolding k(2,3) by (rule replay_log[OF m(1,3) k(1) p])
  have lastp: "fst (last (log_records m)) = (get_sequence_number_after ^^ length (log_records m)) p"
    using seq.numbered_last[of p "log_records m" "[]"] p(2) m(2) by simp
  show "wal_behind m n \<longleftrightarrow> pend \<noteq> []"
  proof (cases "k = length (log_records m)")
    case True
    then show ?thesis
      using last lastp k seq.not_lt_behind[OF seq.valid_funpow[OF p(1)], of 0]
      by (simp add: wal_behind_def)
  next
    case False
    have "(get_sequence_number_after ^^ length (log_records m)) p =
        (get_sequence_number_after ^^ (length (log_records m) - k)) n"
      using k(1,2) by (metis comp_apply funpow_add le_add_diff_inverse2)
    then have "is_less_than n (fst (last (log_records m)))"
      using lastp k False m(3) seq.lt_ahead[OF seq.valid_funpow[OF p(1)], of "length (log_records m) - k" k] by simp
    then show ?thesis using False k last by (simp add: wal_behind_def)
  qed
  show "\<exists>m'. wal_open (new_manager (wal_directory m)) = Inr m' \<and> wal_aligned m' n pend"
    using wal_reopen[OF m(1)] m p k unfolding wal_aligned_def by metis
  show "\<exists>m'. transaction_completed m n False = Inr m' \<and> wal_aligned m' n pend"
  proof -
    obtain m' j where m': "transaction_completed m n False = Inr m'" "wal_ok m'" "j \<le> k"
      "j \<le> length (log_records m)" "log_records m' = drop j (log_records m)" "log_files m' \<noteq> []"
      using transaction_completed_log[OF m(1) _ m(3) p, of k False] wal_ok_files[OF m(1)] m(2) k(2) by auto
    then have "wal_aligned m' n pend" using wal_aligned_drop[OF m(2,3) p k] by blast
    then show ?thesis using m'(1) by blast
  qed
  show "\<exists>m' k. store_transaction m time sql = Some (Inr (m', k)) \<and> wal_aligned m' n (pend @ [(k, sql)])"
    if can: "wal_can_store m time sql"
  proof -
    obtain m' l where m': "store_transaction m time sql = Some (Inr (m', l))" "wal_ok m'"
      "log_records m' = log_records m @ [(l, sql)]" "l = get_sequence_number_after (fst (last (log_records m)))"
      using store_transaction_log[OF m(1), of time sql] can last by (auto simp: wal_can_store_def)
    have "seq.numbered (get_sequence_number_after p) (log_records m')"
      unfolding m'(3,4) by (rule seq.numbered_snoc[OF p(2) m(2)])
    then have "wal_aligned m' n (pend @ [(l, sql)])"
      unfolding wal_aligned_def using m'(2,3) p(1) k can
      by (intro conjI exI[of _ p] exI[of _ k]) (auto simp: wal_can_store_def)
    then show ?thesis using m'(1) by blast
  qed
next
  fix m n k sql pend
  assume "wal_aligned m n ((k, sql) # pend)"
  then obtain p j where m: "wal_ok m" "log_records m \<noteq> []" "length (log_records m) < 1073741823"
    and p: "valid_sequence_number p" "seq.numbered (get_sequence_number_after p) (log_records m)"
    and j: "j \<le> length (log_records m)" "(k, sql) # pend = drop j (log_records m)"
    by (auto simp: wal_aligned_def)
  then have len: "j < length (log_records m)" by (metis drop_all linorder_not_less list.distinct(1))
  have "log_records m ! j = (k, sql)" "drop (Suc j) (log_records m) = pend"
    using j(2) Cons_nth_drop_Suc[OF len] by (metis list.inject)+
  then have "k = (get_sequence_number_after ^^ Suc j) p"
    using p(2) len by (auto simp: seq.numbered_def funpow_swap1 dest!: spec[of _ j])
  then show "wal_aligned m k pend"
    unfolding wal_aligned_def using m p len \<open>drop (Suc j) (log_records m) = pend\<close>
    by (intro conjI exI[of _ p] exI[of _ "Suc j"]) auto
qed


subsection \<open>Invariant of the running system\<close>

fun in_hands :: "live_worker \<Rightarrow> wal_record list" where
  "in_hands (Executing r) = [r]"
| "in_hands (Died r) = [r]"
| "in_hands _ = []"

definition pending_commands :: "'x live_sys \<Rightarrow> wal_record list" where
  "pending_commands s = in_hands (lv_worker s) @ lv_queue s @ (case lv_stored s of None \<Rightarrow> [] | Some r \<Rightarrow> [r])"

text \<open>The effect of an executed command, including the pruning that accompanies every tenth one.\<close>

definition command_effect :: "(string \<Rightarrow> 'x \<Rightarrow> 'x) \<Rightarrow> u32 \<Rightarrow> wal_record \<Rightarrow> 'x \<Rightarrow> 'x" where
  "command_effect exec_sql pruning r x =
     (let y = exec_sql (snd r) x in
      if 0 < pruning \<and> fst r mod 10 = 0 then exec_sql (prune_command pruning) y else y)"

text \<open>A start aligned with the database: the log is not empty, everything in it is executed.\<close>

definition live_start :: "'x live_sys \<Rightarrow> bool" where
  "live_start s \<longleftrightarrow> lv_stored s = None \<and> lv_queue s = [] \<and> lv_worker s = Idle \<and>
     lv_issued s = [] \<and> lv_executed s = [] \<and>
     (\<exists>n. last_sequence_number_committed (committed (lv_ctl s)) = Some n \<and> wal_aligned (lv_wal s) n [])"

definition live_inv :: "(string \<Rightarrow> 'x \<Rightarrow> 'x) \<Rightarrow> u32 \<Rightarrow> nat \<Rightarrow> 'x \<Rightarrow> 'x live_sys \<Rightarrow> bool" where
  "live_inv exec_sql pruning depth x0 s \<longleftrightarrow>
     (\<exists>n. last_sequence_number_committed (committed (lv_ctl s)) = Some n \<and>
        wal_aligned (lv_wal s) n (pending_commands s) \<and>
        (\<forall>r. lv_worker s = Committed r \<longrightarrow> n = fst r) \<and> (lv_executed s \<noteq> [] \<longrightarrow> n = fst (last (lv_executed s)))) \<and>
     lv_issued s = lv_executed s @ pending_commands s \<and>
     hafd_tables (committed (lv_ctl s)) = fold (command_effect exec_sql pruning) (lv_executed s) x0 \<and>
     length (lv_queue s) \<le> depth"

lemma fold_command_statements:
  "fold (\<lambda>f. f) (command_statements exec_sql pruning r) db =
   \<lparr>hafd_tables = command_effect exec_sql pruning r (hafd_tables db),
    last_sequence_number_committed = Some (fst r)\<rparr>"
  by (cases db) (simp add: command_statements_def command_effect_def exec_on_tables_def
      update_wal_sequence_number_def Let_def)

lemma run_command_atomic:
  assumes "connection_holds ctl as" "run_command exec_sql pruning ctl r as = (e, ctl', as')"
    and "e = None \<or> committed ctl' \<noteq> committed ctl"
  shows "committed ctl' = \<lparr>hafd_tables = command_effect exec_sql pruning r (hafd_tables (committed ctl)),
    last_sequence_number_committed = Some (fst r)\<rparr>"
  using run_transaction_atomic[OF assms(1) assms(2)[unfolded run_command_def]] assms(3)
  by (auto simp: fold_command_statements)

lemma live_inv_executed:
  assumes inv: "live_inv exec_sql pruning depth x0 s" and worker: "lv_worker s = Executing r"
    and effect: "committed ctl' = \<lparr>hafd_tables = command_effect exec_sql pruning r (hafd_tables (committed (lv_ctl s))),
      last_sequence_number_committed = Some (fst r)\<rparr>"
    and w: "w = Committed r \<or> w = Died_in_doubt r"
  shows "live_inv exec_sql pruning depth x0 (s\<lparr>lv_ctl := ctl', lv_worker := w, lv_executed := lv_executed s @ [r]\<rparr>)"
proof -
  obtain k where k: "wal_aligned (lv_wal s) k (pending_commands s)"
    using inv by (auto simp: live_inv_def)
  have "wal_aligned (lv_wal s) (fst r) (lv_queue s @ (case lv_stored s of None \<Rightarrow> [] | Some r \<Rightarrow> [r]))"
    by (rule wal.commit_law[of _ k _ "snd r"]) (use k worker in \<open>simp add: pending_commands_def\<close>)
  then show ?thesis using inv worker effect w by (auto simp: live_inv_def pending_commands_def)
qed

lemma live_inv_step:
  assumes inv: "live_inv exec_sql pruning depth x0 s" and step: "live_step exec_sql pruning depth s s'"
  shows "live_inv exec_sql pruning depth x0 s'"
  using step
proof (cases rule: live_step.cases)
  case (store time sql wal' n)
  obtain k where k: "last_sequence_number_committed (committed (lv_ctl s)) = Some k"
    "wal_aligned (lv_wal s) k (pending_commands s)"
    using inv by (auto simp: live_inv_def)
  have "wal_aligned wal' k (pending_commands s @ [(n, sql)])"
    using wal.store_law[OF k(2), of time sql] store by auto
  then show ?thesis using inv store k by (auto simp: live_inv_def pending_commands_def)
next
  case (push r)
  then show ?thesis using inv by (auto simp: live_inv_def pending_commands_def)
next
  case (take r q)
  then show ?thesis using inv by (auto simp: live_inv_def pending_commands_def)
next
  case (commit r as ctl' as')
  then show ?thesis using live_inv_executed[OF inv] run_command_atomic by fastforce
next
  case (die r as e ctl' as')
  then show ?thesis using inv by (auto simp: live_inv_def pending_commands_def)
next
  case (die_in_doubt r as e ctl' as')
  then show ?thesis using live_inv_executed[OF inv] run_command_atomic by fastforce
next
  case (complete r wal')
  obtain k where k: "last_sequence_number_committed (committed (lv_ctl s)) = Some k" "k = fst r"
    "wal_aligned (lv_wal s) k (pending_commands s)"
    using inv complete by (auto simp: live_inv_def)
  have "wal_aligned wal' k (pending_commands s)"
    using wal.complete_law[OF k(3)] complete k(2) by auto
  then show ?thesis using inv complete k by (auto simp: live_inv_def pending_commands_def)
qed

lemma live_inv_start:
  "live_start s \<Longrightarrow> live_inv exec_sql pruning depth (hafd_tables (committed (lv_ctl s))) s"
  by (auto simp: live_start_def live_inv_def pending_commands_def)

lemma live_reachable_inv:
  assumes "live_reachable exec_sql pruning depth s0 s" "live_start s0"
  shows "live_inv exec_sql pruning depth (hafd_tables (committed (lv_ctl s0))) s"
  using assms(1) by induction (auto intro: live_inv_start[OF assms(2)] live_inv_step)


subsection \<open>Recovery executes what is pending\<close>

lemma replay_one:
  "run_transaction [exec_on_tables exec_sql (snd r), update_wal_sequence_number (fst r)]
     (build_own_transaction_controller db) [] =
   (None, \<lparr>committed = \<lparr>hafd_tables = exec_sql (snd r) (hafd_tables db),
      last_sequence_number_committed = Some (fst r)\<rparr>, opened_connection = True, own_tx = False,
      opened_tx = None\<rparr>, [])"
  by (cases db) (simp add: run_transaction_def openTx_def tx_exec_def ensure_tx_def tx_commit_def Let_def
      finalize_transaction_def build_own_transaction_controller_def exec_on_tables_def
      update_wal_sequence_number_def)

lemma replay_records_all:
  "replay_records exec_sql rs db [] =
   (None, \<lparr>hafd_tables = fold (\<lambda>r. exec_sql (snd r)) rs (hafd_tables db),
     last_sequence_number_committed =
       (if rs = [] then last_sequence_number_committed db else Some (fst (last rs)))\<rparr>)"
  by (induction rs arbitrary: db) (simp_all add: replay_one)

text \<open>A cancelled query in the middle of a replay.\<close>

lemma replay_cancelled_one:
  "run_transaction [f, g] (build_own_transaction_controller db) [Attempt_ok, Attempt_failed ''57014''] =
   (Some query_cancelled, \<lparr>committed = db, opened_connection = True, own_tx = False, opened_tx = None\<rparr>, [])"
  by (simp add: run_transaction_def openTx_def tx_exec_def ensure_tx_def Let_def do_rollback_def finalize_transaction_def
      build_own_transaction_controller_def query_cancelled_def)

lemma replay_records_cancelled:
  assumes "post \<noteq> []"
  shows "replay_records exec_sql (pre @ r # post) db
      (replicate (4 * length pre) Attempt_ok @ [Attempt_ok, Attempt_failed ''57014'']) =
    (None, \<lparr>hafd_tables = fold (\<lambda>r. exec_sql (snd r)) (pre @ post) (hafd_tables db),
      last_sequence_number_committed = Some (fst (last post))\<rparr>)"
proof (induction pre arbitrary: db)
  case Nil
  then show ?case using assms by (simp add: replay_cancelled_one replay_records_all)
next
  case (Cons q pre)
  let ?rest = "replicate (4 * length pre) Attempt_ok @ [Attempt_ok, Attempt_failed ''57014'']"
  have "run_transaction [exec_on_tables exec_sql (snd q), update_wal_sequence_number (fst q)]
      (build_own_transaction_controller db) (replicate 4 Attempt_ok @ ?rest) =
    (None, (build_own_transaction_controller db)\<lparr>committed := update_wal_sequence_number (fst q) (exec_on_tables exec_sql (snd q) db),
      opened_connection := True, opened_tx := None\<rparr>, ?rest)"
    using run_transaction_ok[of "build_own_transaction_controller db"
        "[exec_on_tables exec_sql (snd q), update_wal_sequence_number (fst q)]" ?rest]
    by (simp add: build_own_transaction_controller_def eval_nat_numeral)
  moreover have "replicate (4 * length (q # pre)) Attempt_ok @ [Attempt_ok, Attempt_failed ''57014''] = replicate 4 Attempt_ok @ ?rest"
    by (simp add: replicate_add)
  ultimately show ?case
    using Cons.IH[of "update_wal_sequence_number (fst q) (exec_on_tables exec_sql (snd q) db)"]
    by (simp del: replicate_Suc add: update_wal_sequence_number_def exec_on_tables_def)
qed

lemma number_read:
  "last_wal_sequence_number_in_db db [] = (None, last_sequence_number_committed db, [])"
  "last_wal_sequence_number_in_db db (replicate 3 Attempt_ok @ as) = (None, last_sequence_number_committed db, as)"
proof -
  show "last_wal_sequence_number_in_db db [] = (None, last_sequence_number_committed db, [])"
    by (simp add: last_wal_sequence_number_in_db_def get_wal_sequence_number_def run_transaction_def openTx_def tx_exec_def
        ensure_tx_def tx_commit_def Let_def finalize_transaction_def build_own_transaction_controller_def)
  show "last_wal_sequence_number_in_db db (replicate 3 Attempt_ok @ as) = (None, last_sequence_number_committed db, as)"
    using run_transaction_ok[of "build_own_transaction_controller db" "[id]" as]
    by (simp add: last_wal_sequence_number_in_db_def get_wal_sequence_number_def build_own_transaction_controller_def
        numeral_3_eq_3)
qed

lemma replay_aligned:
  assumes "wal_aligned m n pend" "last_sequence_number_committed db = Some n"
    and "last_wal_sequence_number_in_db db as = (None, last_sequence_number_committed db, as')"
  shows "\<exists>m'. wal_open (new_manager (wal_directory m)) = Inr m' \<and> wal_aligned m' n pend
    \<and> replay_wal_if_necessary exec_sql m' db as = replay_records exec_sql pend db as'"
proof -
  obtain m' where m': "wal_open (new_manager (wal_directory m)) = Inr m'" "wal_aligned m' n pend"
    "(if wal_behind m' n then replay_transactions_after m' n else ([], None)) = (pend, None)"
    using wal.crash_replays_pending[OF assms(1)] by blast
  have "replay_wal_if_necessary exec_sql m' db as = replay_records exec_sql pend db as'"
    using m'(3) assms(2,3)
    by (auto simp: replay_wal_if_necessary_def wal_behind_def split: option.splits if_splits)
  then show ?thesis using m' by blast
qed

lemma recover_aligned:
  assumes "wal_aligned m n pend" "last_sequence_number_committed db = Some n"
  shows "\<exists>db' m'. recover exec_sql (wal_directory m) db [] = Inr (db', m')
    \<and> hafd_tables db' = fold (\<lambda>r. exec_sql (snd r)) pend (hafd_tables db)
    \<and> last_sequence_number_committed db' = Some (if pend = [] then n else fst (last pend))
    \<and> wal_aligned m' (if pend = [] then n else fst (last pend)) []"
proof -
  obtain m' where "wal_open (new_manager (wal_directory m)) = Inr m'" "wal_aligned m' n pend"
    "replay_wal_if_necessary exec_sql m' db [] = replay_records exec_sql pend db []"
    using replay_aligned[OF assms number_read(1)] by blast
  then show ?thesis
    using wal.commit_all_law[of m' n pend] assms(2) by (auto simp: recover_def replay_records_all)
qed

text \<open>A crash leaves the directory of an aligned log with the commands that were issued, or one that cannot be opened.\<close>

lemma crash_aligned:
  assumes inv: "live_inv exec_sql pruning depth x0 s" and dir: "crash_directory s crash = Some dir" and whole: "\<not> torn_by s crash"
  shows "\<exists>m n pend. dir = wal_directory m \<and> last_sequence_number_committed (committed (lv_ctl s)) = Some n \<and> wal_aligned m n pend
    \<and> issued_by s crash = lv_executed s @ pend \<and> (lv_executed s \<noteq> [] \<longrightarrow> n = fst (last (lv_executed s)))"
proof -
  obtain n where n: "last_sequence_number_committed (committed (lv_ctl s)) = Some n"
    "wal_aligned (lv_wal s) n (pending_commands s)" "lv_executed s \<noteq> [] \<longrightarrow> n = fst (last (lv_executed s))"
    "lv_issued s = lv_executed s @ pending_commands s" "\<forall>r. lv_worker s = Committed r \<longrightarrow> n = fst r"
    using inv by (auto simp: live_inv_def)
  show ?thesis
  proof (cases crash)
    case Between_steps
    then show ?thesis using n dir by auto
  next
    case (In_completion k)
    then have "dir = interrupted_completion (lv_wal s) n k"
      using dir n(5) by (auto split: live_worker.splits)
    then obtain m' where "dir = wal_directory m'" "wal_aligned m' n (pending_commands s)"
      using interrupted_completion_aligned[OF n(2), of k] by metis
    then show ?thesis using n(1,3,4) In_completion by (intro exI[of _ m'] exI[of _ n] exI[of _ "pending_commands s"]) simp
  next
    case (In_store time sql w)
    then have can: "wal_can_store (lv_wal s) time sql" using dir by (auto split: if_splits)
    obtain m' k where m': "store_transaction (lv_wal s) time sql = Some (Inr (m', k))"
        "wal_aligned m' n (pending_commands s @ [(k, sql)])"
      using wal.store_law[OF n(2) can] by blast
    have ok: "wal_ok (lv_wal s)" "clock_ok (log_files (lv_wal s)) time" "length sql < 2 ^ 31"
      using n(2) can by (auto simp: wal_aligned_def wal_can_store_def)
    have nxt: "next_record s sql = (k, sql)"
      using store_transaction_log[OF ok] m'(1) by (auto simp: next_record_def get_next_sequence_number_def Let_def split: option.splits)
    obtain d where d: "interrupted_store (lv_wal s) time sql w = Some (Inr d)"
      "length (record_bytes (k, sql)) \<le> w \<longrightarrow> d = wal_directory m'" "w = 0 \<and> \<not> new_file_due (lv_wal s) \<longrightarrow> d = wal_directory (lv_wal s)"
      using interrupted_store_log[OF ok m'(1), of w] by blast
    have "d = dir" using d(1) dir In_store by (auto split: if_splits)
    then show ?thesis
      using whole In_store d(2,3) m'(2) n nxt by (cases "length (record_bytes (k, sql)) \<le> w") auto
  qed
qed

lemma torn_store_blocks_recovery:
  assumes inv: "live_inv exec_sql pruning depth x0 s" and dir: "crash_directory s crash = Some dir" and torn: "torn_by s crash"
  shows "\<exists>e. wal_open (new_manager dir) = Inl e"
proof -
  obtain n where n: "wal_aligned (lv_wal s) n (pending_commands s)" using inv by (auto simp: live_inv_def)
  obtain time sql w where crash: "crash = In_store time sql w" using torn by (cases crash) auto
  then have can: "wal_can_store (lv_wal s) time sql" using dir by (auto split: if_splits)
  obtain m' k where m': "store_transaction (lv_wal s) time sql = Some (Inr (m', k))"
    using wal.store_law[OF n can] by blast
  have ok: "wal_ok (lv_wal s)" "clock_ok (log_files (lv_wal s)) time" "length sql < 2 ^ 31"
    using n can by (auto simp: wal_aligned_def wal_can_store_def)
  have nxt: "next_record s sql = (k, sql)"
    using store_transaction_log[OF ok] m' by (auto simp: next_record_def get_next_sequence_number_def Let_def split: option.splits)
  show ?thesis
    using interrupted_store_log[OF ok m', of w] torn dir crash nxt by (auto split: if_splits)
qed


subsection \<open>A concrete log\<close>

lemma sample_wal_aligned: "wal_aligned sample_wal 0 []"
  unfolding wal_aligned_def
  using sample_wal_ok
  by (intro conjI exI[of _ "2147483647 :: int"] exI[of _ "1 :: nat"])
    (simp_all add: seq.numbered_def valid_sequence_number_def max_sequence_number_def get_sequence_number_after_def)

definition sample_sys :: "string list live_sys" where
  "sample_sys = \<lparr>lv_wal = sample_wal, lv_stored = None, lv_queue = [], lv_worker = Idle,
     lv_ctl = build_own_transaction_controller \<lparr>hafd_tables = [''CMD''], last_sequence_number_committed = Some 0\<rparr>,
     lv_issued = [], lv_executed = []\<rparr>"

lemma sample_sys_start: "live_start sample_sys"
  using sample_wal_aligned
  by (simp add: live_start_def sample_sys_def build_own_transaction_controller_def)

definition sample_stored :: "string list live_sys" where
  "sample_stored = sample_sys\<lparr>lv_wal := fst (projr (the (store_transaction sample_wal sample_time ''NEXT''))),
     lv_stored := Some (1, ''NEXT''), lv_issued := [(1, ''NEXT'')]\<rparr>"

lemma sample_stored_reachable:
  "live_reachable (\<lambda>sql tables. tables @ [sql]) 0 200 sample_sys sample_stored"
proof -
  obtain m where m: "store_transaction sample_wal sample_time ''NEXT'' = Some (Inr (m, 1))"
    using store_transaction_log[OF conjunct1[OF sample_wal_ok] clock_ok_sample, of "''NEXT''"]
    by (auto simp: sample_wal_eq get_sequence_number_after_def max_sequence_number_def)
  have "live_step (\<lambda>sql tables. tables @ [sql]) 0 200 sample_sys
      (sample_sys\<lparr>lv_wal := m, lv_stored := Some (1, ''NEXT''), lv_issued := lv_issued sample_sys @ [(1, ''NEXT'')]\<rparr>)"
    by (rule live_step.store[of _ sample_time])
      (use m clock_ok_sample sample_wal_ok in \<open>simp_all add: sample_sys_def wal_can_store_def\<close>)
  then show ?thesis
    using live_reachable.step[OF live_reachable.start] m by (simp add: sample_stored_def sample_sys_def)
qed


text \<open>Two commands logged and none executed.\<close>

definition sample_twice :: "string list live_sys" where
  "sample_twice = sample_sys\<lparr>lv_wal := fst (projr (the (store_transaction (lv_wal sample_stored) sample_time ''LAST'')))\<rparr>"

lemma sample_twice_aligned: "wal_aligned (lv_wal sample_twice) 0 [(1, ''NEXT''), (2, ''LAST'')]"
proof -
  have first: "wal_can_store sample_wal sample_time ''NEXT''"
    using clock_ok_sample sample_wal_ok by (simp add: wal_can_store_def)
  obtain m k where m: "store_transaction sample_wal sample_time ''NEXT'' = Some (Inr (m, k))" "wal_aligned m 0 [(k, ''NEXT'')]"
    using wal.store_law[OF sample_wal_aligned first] by auto
  have mk: "k = 1" "log_records m = [(0, ''CMD''), (1, ''NEXT'')]" "last_sequence_number m = Some 1" "clock_ok (log_files m) sample_time"
    using store_transaction_log[OF conjunct1[OF sample_wal_ok] clock_ok_sample, of "''NEXT''"] m(1) sample_wal_ok
    by (auto simp: sample_wal_eq get_sequence_number_after_def max_sequence_number_def store_transaction_def max_log_size_def
        get_next_sequence_number_def write_record_def clock_ok_def valid_time_def sample_time_def Let_def split: option.splits)
  obtain m2 l where m2: "store_transaction m sample_time ''LAST'' = Some (Inr (m2, l))" "wal_aligned m2 0 ([(k, ''NEXT'')] @ [(l, ''LAST'')])"
    using wal.store_law[OF m(2), of sample_time "''LAST''"] mk by (auto simp: wal_can_store_def)
  have "l = 2"
    using store_transaction_log[of m sample_time "''LAST''"] m(2) m2(1) mk
    by (auto simp: wal_aligned_def get_sequence_number_after_def max_sequence_number_def)
  then show ?thesis
    using m m2 mk(1) by (simp add: sample_twice_def sample_stored_def)
qed


subsection \<open>Properties\<close>

text \<open>C1: Exactly once.  From a start that is aligned with the database, the threads run in any order: commands are stored,
  queued, executed and reported to the log, and the thread may die of an error, also of one that leaves it in doubt
  whether the server committed.  The process then crashes between two steps, or with some bytes of a record written, or
  with some log files deleted.  If the last file ends inside a record (or was created and has none), the next start fails
  while it opens the log, before it touches the database.  Otherwise the next start opens the log, and replaying leaves the
  tables as if every command on the disk had been executed once, in the order of issue, with the database at the
  number of the last one and the log ready to continue.  Assumed are a clock that does not go back behind the last log
  file, commands shorter than \<open>2 ^ 31\<close> and fewer than \<open>1073741822\<close> records in the log (\<open>wal_can_store\<close> at every store), that the
  connection is not lost inside a transaction that is committed (\<open>connection_holds\<close>), that the disk keeps what the process
  has written, and that the restart itself meets no error.\<close>

theorem crash_recovery_exactly_once:
  assumes "live_start s0" "live_reachable exec_sql pruning depth s0 s" "crash_directory s crash = Some dir"
  shows "if torn_by s crash
    then \<exists>e. wal_open (new_manager dir) = Inl e \<and> recover exec_sql dir (committed (lv_ctl s)) [] = Inl e
    else \<exists>db wal pend n. recover exec_sql dir (committed (lv_ctl s)) [] = Inr (db, wal)
      \<and> issued_by s crash = lv_executed s @ pend
      \<and> hafd_tables db = fold (\<lambda>r. exec_sql (snd r)) pend
          (fold (command_effect exec_sql pruning) (lv_executed s) (hafd_tables (committed (lv_ctl s0))))
      \<and> last_sequence_number_committed db = Some n \<and> wal_aligned wal n []
      \<and> (issued_by s crash \<noteq> [] \<longrightarrow> n = fst (last (issued_by s crash)))"
proof -
  have inv: "live_inv exec_sql pruning depth (hafd_tables (committed (lv_ctl s0))) s"
    by (rule live_reachable_inv[OF assms(2,1)])
  show ?thesis
  proof (cases "torn_by s crash")
    case True
    then show ?thesis using torn_store_blocks_recovery[OF inv assms(3)] by (auto simp: recover_def)
  next
    case False
    obtain m n pend where m: "dir = wal_directory m" "last_sequence_number_committed (committed (lv_ctl s)) = Some n"
      "wal_aligned m n pend" "issued_by s crash = lv_executed s @ pend"
      "lv_executed s \<noteq> [] \<longrightarrow> n = fst (last (lv_executed s))"
      using crash_aligned[OF inv assms(3) False] by blast
    have "hafd_tables (committed (lv_ctl s)) = fold (command_effect exec_sql pruning) (lv_executed s) (hafd_tables (committed (lv_ctl s0)))"
      using inv by (simp add: live_inv_def)
    then show ?thesis
      using recover_aligned[OF m(3,2), of exec_sql] False m(1,4,5) by (auto intro!: exI[of _ pend])
  qed
qed

text \<open>In the sample run the process ends after 20 bytes of a further record, and while a completed file is deleted.\<close>

theorem crash_recovery_exactly_once_witness:
  "(\<exists>db wal pend n. recover (\<lambda>sql tables. tables @ [sql]) (wal_directory (lv_wal sample_stored))
        (committed (lv_ctl sample_stored)) [] = Inr (db, wal)
    \<and> [(1, ''NEXT'')] = [] @ pend \<and> hafd_tables db = [''CMD'', ''NEXT'']
    \<and> last_sequence_number_committed db = Some n \<and> wal_aligned wal n [] \<and> n = 1)
   \<and> (\<exists>dir e. crash_directory sample_sys (In_store sample_time ''NEXT'' 20) = Some dir \<and> wal_open (new_manager dir) = Inl e)"
proof
  show "\<exists>db wal pend n. recover (\<lambda>sql tables. tables @ [sql]) (wal_directory (lv_wal sample_stored))
        (committed (lv_ctl sample_stored)) [] = Inr (db, wal)
    \<and> [(1, ''NEXT'')] = [] @ pend \<and> hafd_tables db = [''CMD'', ''NEXT'']
    \<and> last_sequence_number_committed db = Some n \<and> wal_aligned wal n [] \<and> n = 1"
    using crash_recovery_exactly_once[OF sample_sys_start sample_stored_reachable crash_directory.simps(1)]
    by (auto simp: sample_stored_def sample_sys_def build_own_transaction_controller_def)
  obtain dir where dir: "crash_directory sample_sys (In_store sample_time ''NEXT'' 20) = Some dir"
    using clock_ok_sample sample_wal_ok
    by (simp add: sample_sys_def wal_can_store_def interrupted_store_def sample_wal_eq max_log_size_def Let_def)
  have "valid_record (1, ''NEXT'')" by (simp add: valid_record_def max_sequence_number_def)
  then have "torn_by sample_sys (In_store sample_time ''NEXT'' 20)"
    using length_record_bytes[of "(1, ''NEXT'')"]
    by (simp add: next_record_def sample_sys_def sample_wal_eq get_next_sequence_number_def get_sequence_number_after_def max_sequence_number_def)
  then show "\<exists>dir e. crash_directory sample_sys (In_store sample_time ''NEXT'' 20) = Some dir \<and> wal_open (new_manager dir) = Inl e"
    using crash_recovery_exactly_once[OF sample_sys_start live_reachable.start dir] dir by auto
qed

text \<open>A database that has never recorded a sequence number gets nothing replayed: commands that the
  first run of a node logged before its first commit are lost by a crash, although the log has them.\<close>

theorem null_sequence_number_skips_replay:
  assumes "wal_ok m" "last_sequence_number_committed db = None"
  shows "\<exists>wal. recover exec_sql (wal_directory m) db [] = Inr (db, wal) \<and> log_records wal = log_records m"
  using wal_reopen[OF assms(1)] assms(2)
  by (auto simp: recover_def replay_wal_if_necessary_def number_read)

theorem null_sequence_number_skips_replay_witness:
  "\<exists>wal. recover (\<lambda>sql tables. tables @ [sql]) (wal_directory sample_wal)
      \<lparr>hafd_tables = [], last_sequence_number_committed = None\<rparr> [] =
        Inr (\<lparr>hafd_tables = [], last_sequence_number_committed = None\<rparr>, wal)
    \<and> log_records wal = log_records sample_wal"
  by (rule null_sequence_number_skips_replay) (use sample_wal_ok in simp_all)

text \<open>C33: Numbering starts at \<open>0\<close> whenever no log file exists, while the database keeps its number.  A
  command logged by the first run after a clean shutdown, with the database at a number up to
  \<open>1073741823\<close>, is therefore lost by a crash before its commit: the replay finds nothing newer.\<close>

theorem restarted_numbering_skips_replay:
  assumes "valid_time time" "length sql < 2 ^ 31" "last_sequence_number_committed db = Some n"
    and "0 \<le> n" "n \<le> 1073741823"
  shows "\<exists>m wal. store_transaction (new_manager []) time sql = Some (Inr (m, 0))
    \<and> log_records wal = [(0, sql)] \<and> recover exec_sql (wal_directory m) db [] = Inr (db, wal)"
proof -
  have clock: "clock_ok (log_files (new_manager [])) time"
    using assms(1) by (simp add: clock_ok_def new_manager_def)
  have empty: "log_records (new_manager []) = []" by (simp add: log_records_def new_manager_def)
  obtain m where m: "store_transaction (new_manager []) time sql = Some (Inr (m, 0))" "wal_ok m"
    "log_records m = [(0, sql)]"
    using store_transaction_log[OF wal_ok_new clock assms(2)] empty by (auto simp: new_manager_def)
  obtain wal where wal: "wal_open (new_manager (wal_directory m)) = Inr wal" "log_records wal = [(0, sql)]"
    "last_sequence_number wal = Some 0"
    using wal_reopen[OF m(2)] m(3) by auto
  have "\<not> is_less_than n 0" using assms(4,5) by (simp add: is_less_than_def max_sequence_number_def)
  then have "recover exec_sql (wal_directory m) db [] = Inr (db, wal)"
    using wal assms(3) by (simp add: recover_def replay_wal_if_necessary_def number_read)
  then show ?thesis using m wal by blast
qed

theorem restarted_numbering_skips_replay_witness:
  "\<exists>m wal. store_transaction (new_manager []) ''20240101T000000'' ''CMD'' = Some (Inr (m, 0))
    \<and> log_records wal = [(0, ''CMD'')]
    \<and> recover (\<lambda>sql tables. tables @ [sql]) (wal_directory m)
        \<lparr>hafd_tables = [], last_sequence_number_committed = Some 500\<rparr> [] =
      Inr (\<lparr>hafd_tables = [], last_sequence_number_committed = Some 500\<rparr>, wal)"
  by (rule restarted_numbering_skips_replay[where n = 500]) (simp_all add: valid_time_def)

text \<open>C32: A command can be lost although its record is in the log.  When the connection breaks while the sequence number is
  being updated, up to 99 times in a row, the controller repeats only that statement in a new transaction.  The thread
  then reports success with the database at the number of the command, only the pruning having touched the tables, and
  a crash and restart execute the commands after it and never this one.\<close>

theorem lost_connection_loses_command:
  assumes "wal_aligned m j ((n, sql) # pend)" "\<not> own_tx ctl" "0 < k" "k < 100"
  shows "\<exists>ctl' db wal. run_command exec_sql pruning ctl (n, sql)
      ([Attempt_ok, Attempt_ok] @ replicate k (Attempt_broken False) @ replicate (if 0 < pruning \<and> n mod 10 = 0 then 3 else 2) Attempt_ok)
      = (None, ctl', [])
    \<and> last_sequence_number_committed (committed ctl') = Some n
    \<and> hafd_tables (committed ctl') =
        (if 0 < pruning \<and> n mod 10 = 0 then exec_sql (prune_command pruning) else id) (hafd_tables (committed ctl))
    \<and> recover exec_sql (wal_directory m) (committed ctl') [] = Inr (db, wal)
    \<and> hafd_tables db = fold (\<lambda>r. exec_sql (snd r)) pend (hafd_tables (committed ctl'))
    \<and> wal_aligned wal (if pend = [] then n else fst (last pend)) []"
proof -
  define gs where "gs = (if 0 < pruning \<and> n mod 10 = 0 then [exec_on_tables exec_sql (prune_command pruning)] else [])"
  define ctl' where "ctl' = ctl\<lparr>committed := fold (\<lambda>f. f) (update_wal_sequence_number n # gs) (committed ctl),
    opened_connection := True, opened_tx := None\<rparr>"
  have "run_command exec_sql pruning ctl (n, sql)
      (replicate (Suc (length [exec_on_tables exec_sql sql])) Attempt_ok @ replicate k (Attempt_broken False) @
       replicate (length gs + 2) Attempt_ok) = (None, ctl', [])"
    using lost_connection_drops_statements[OF assms(2,3), of "[exec_on_tables exec_sql sql]" "update_wal_sequence_number n" gs] assms(4)
    by (simp add: run_command_def command_statements_def ctl'_def gs_def MAX_RETRY_COUNT_def)
  then have run: "run_command exec_sql pruning ctl (n, sql)
      ([Attempt_ok, Attempt_ok] @ replicate k (Attempt_broken False) @ replicate (if 0 < pruning \<and> n mod 10 = 0 then 3 else 2) Attempt_ok)
      = (None, ctl', [])"
    by (cases "0 < pruning \<and> n mod 10 = 0") (auto simp: gs_def numeral_3_eq_3 numeral_2_eq_2)
  have number: "last_sequence_number_committed (committed ctl') = Some n"
    by (simp add: ctl'_def gs_def update_wal_sequence_number_def exec_on_tables_def)
  have tables: "hafd_tables (committed ctl') =
      (if 0 < pruning \<and> n mod 10 = 0 then exec_sql (prune_command pruning) else id) (hafd_tables (committed ctl))"
    by (simp add: ctl'_def gs_def update_wal_sequence_number_def exec_on_tables_def)
  show ?thesis
    using run tables number recover_aligned[OF wal.commit_law[OF assms(1)] number, of exec_sql] by blast
qed

theorem lost_connection_loses_command_witness:
  "\<exists>ctl' db wal. run_command (\<lambda>sql tables. tables @ [sql]) 0 (lv_ctl sample_stored) (1, ''NEXT'')
      ([Attempt_ok, Attempt_ok] @ replicate 1 (Attempt_broken False) @ replicate 2 Attempt_ok) = (None, ctl', [])
    \<and> last_sequence_number_committed (committed ctl') = Some 1
    \<and> recover (\<lambda>sql tables. tables @ [sql]) (wal_directory (lv_wal sample_stored)) (committed ctl') [] = Inr (db, wal)
    \<and> hafd_tables db = [''CMD'']"
proof -
  have "live_inv (\<lambda>sql tables. tables @ [sql]) 0 200 (hafd_tables (committed (lv_ctl sample_sys))) sample_stored"
    by (rule live_reachable_inv[OF sample_stored_reachable sample_sys_start])
  then obtain j where "wal_aligned (lv_wal sample_stored) j [(1, ''NEXT'')]"
    by (auto simp: live_inv_def pending_commands_def sample_stored_def sample_sys_def)
  from lost_connection_loses_command[OF this, of "lv_ctl sample_stored" 1 "\<lambda>sql tables. tables @ [sql]" 0]
  show ?thesis by (auto simp: sample_stored_def sample_sys_def build_own_transaction_controller_def)
qed

text \<open>C38: A command can be lost by its own replay.  When the server cancels the query that replays it, the thread does not
  rethrow, so the replay continues with the commands after it, which move the number of the database past it: the
  start succeeds with every pending command executed but this one, and the log is not behind any more.\<close>

theorem cancelled_replay_loses_command:
  assumes "wal_aligned m n (pre @ r # post)" "post \<noteq> []" "last_sequence_number_committed db = Some n"
  shows "\<exists>db' wal. recover exec_sql (wal_directory m) db
      (replicate 3 Attempt_ok @ replicate (4 * length pre) Attempt_ok @ [Attempt_ok, Attempt_failed ''57014'']) = Inr (db', wal)
    \<and> hafd_tables db' = fold (\<lambda>r. exec_sql (snd r)) (pre @ post) (hafd_tables db)
    \<and> last_sequence_number_committed db' = Some (fst (last post)) \<and> wal_aligned wal (fst (last post)) []"
proof -
  let ?as = "replicate (4 * length pre) Attempt_ok @ [Attempt_ok, Attempt_failed ''57014'']"
  obtain m' where m': "wal_open (new_manager (wal_directory m)) = Inr m'" "wal_aligned m' n (pre @ r # post)"
    "replay_wal_if_necessary exec_sql m' db (replicate 3 Attempt_ok @ ?as) = replay_records exec_sql (pre @ r # post) db ?as"
    using replay_aligned[OF assms(1,3) number_read(2)] by blast
  have "replay_records exec_sql (pre @ r # post) db ?as =
    (None, \<lparr>hafd_tables = fold (\<lambda>r. exec_sql (snd r)) (pre @ post) (hafd_tables db),
      last_sequence_number_committed = Some (fst (last post))\<rparr>)"
    by (rule replay_records_cancelled[OF assms(2)])
  then show ?thesis
    using m' wal.commit_all_law[OF m'(2)] assms(2) by (auto simp: recover_def)
qed

theorem cancelled_replay_loses_command_witness:
  "\<exists>db' wal. recover (\<lambda>sql tables. tables @ [sql]) (wal_directory (lv_wal sample_twice)) (committed (lv_ctl sample_sys))
      [Attempt_ok, Attempt_ok, Attempt_ok, Attempt_ok, Attempt_failed ''57014''] = Inr (db', wal)
    \<and> hafd_tables db' = [''CMD'', ''LAST''] \<and> last_sequence_number_committed db' = Some 2 \<and> wal_aligned wal 2 []"
proof -
  have "wal_aligned (lv_wal sample_twice) 0 ([] @ (1, ''NEXT'') # [(2, ''LAST'')])" using sample_twice_aligned by simp
  from cancelled_replay_loses_command[OF this, of "committed (lv_ctl sample_sys)" "\<lambda>sql tables. tables @ [sql]"]
  show ?thesis by (simp add: sample_sys_def build_own_transaction_controller_def numeral_3_eq_3)
qed

end
