(* ===== verification/Data_Processor.thy ===== *)
theory Data_Processor
  imports Writers
begin

text \<open>
  \<open>data_processor.cpp\<close>: a worker thread behind a bounded queue.  The state is the object's shared
  variables together with the position of the worker thread; every step is one critical section or
  one unshared action of a thread, so the reachable states of \<open>dp_step\<close> are those of all
  interleavings of the worker with the callers of \<open>trigger\<close>, \<open>cancel\<close> and \<open>join\<close>.

  The data processing function is a parameter of the class: it may succeed or throw on every batch.  The report to the
  rendezvous may throw too, when the function that the rendezvous calls does.
  The fields \<open>accepted\<close>, \<open>processed\<close> and \<open>reported\<close> record the history; no step reads them.
\<close>

definition MAX_QUEUED_CHUNKS :: nat where
  "MAX_QUEUED_CHUNKS = 2"

text \<open>A worker that is leaving with an exception holds the batch that it has not processed; it holds none when the report
  threw.\<close>

datatype 'c worker =
    Waiting
  | Consumed "'c queued_batch"
  | Processed "'c queued_batch"
  | Reported_batch
  | Leaving
  | Throwing "'c queued_batch option"
  | Notified_failure "'c queued_batch option"
  | Finished
  | Failed "'c queued_batch option"

record 'c data_processor =
  dp_queue :: "'c queued_batch list"
  dp_cancel :: bool
  dp_continue :: bool
  is_processing_data :: bool
  has_rendezvous :: bool
  dp_worker :: "'c worker"
  accepted :: "'c queued_batch list"
  processed :: "'c queued_batch list"
  reported :: "u32 list"

definition new_data_processor :: "bool \<Rightarrow> 'c data_processor" where
  "new_data_processor rendezvous =
     \<lparr>dp_queue = [], dp_cancel = False, dp_continue = True, is_processing_data = False,
      has_rendezvous = rendezvous, dp_worker = Waiting, accepted = [], processed = [], reported = []\<rparr>"

text \<open>\<open>enqueue\<close>: \<open>None\<close> while the caller waits on \<open>_queue_space_cv\<close>.\<close>

definition enqueue :: "'c data_processor \<Rightarrow> 'c queued_batch \<Rightarrow> 'c data_processor option" where
  "enqueue s b =
     (if length (dp_queue s) < MAX_QUEUED_CHUNKS \<or> dp_cancel s \<or> \<not> dp_continue s
      then Some (if dp_continue s \<and> length (dp_queue s) < MAX_QUEUED_CHUNKS
                 then s\<lparr>dp_queue := dp_queue s @ [b], is_processing_data := True,
                        accepted := accepted s @ [b]\<rparr>
                 else s)
      else None)"

definition notify_processing_finished :: "'c data_processor \<Rightarrow> 'c data_processor" where
  "notify_processing_finished s = s\<lparr>is_processing_data := False\<rparr>"

definition notify_processing_finished_if_drained :: "'c data_processor \<Rightarrow> 'c data_processor" where
  "notify_processing_finished_if_drained s =
     (if dp_queue s = [] then notify_processing_finished s else s)"

text \<open>\<open>complete_data_processing\<close>: whether the caller is let go.\<close>

definition complete_data_processing :: "'c data_processor \<Rightarrow> bool" where
  "complete_data_processing s \<longleftrightarrow> \<not> is_processing_data s \<or> dp_cancel s"

text \<open>One pass of the worker after the wait on \<open>_cv\<close>: leave the loop or consume the front.\<close>

definition worker_resume :: "'c data_processor \<Rightarrow> 'c data_processor option" where
  "worker_resume s =
     (if dp_queue s \<noteq> [] \<or> \<not> dp_continue s
      then Some (if \<not> dp_continue s \<and> (dp_queue s = [] \<or> dp_cancel s)
                 then s\<lparr>dp_worker := Leaving\<rparr>
                 else s\<lparr>dp_worker := Consumed (hd (dp_queue s)), dp_queue := tl (dp_queue s)\<rparr>)
      else None)"

definition report_batch :: "'c data_processor \<Rightarrow> 'c queued_batch \<Rightarrow> 'c data_processor" where
  "report_batch s b =
     (if has_rendezvous s \<and> last_block_num b \<noteq> 0
      then s\<lparr>reported := reported s @ [last_block_num b]\<rparr> else s)"

text \<open>\<open>handle_exception\<close> stops the processor; it signals the process and rethrows, except that it does
  not rethrow a cancelled query.\<close>

definition handle_exception :: "'c data_processor \<Rightarrow> 'c data_processor" where
  "handle_exception s = s\<lparr>dp_cancel := True, dp_continue := False\<rparr>"

inductive worker_step :: "'c data_processor \<Rightarrow> 'c data_processor \<Rightarrow> bool" where
  resume: "dp_worker s = Waiting \<Longrightarrow> worker_resume s = Some s' \<Longrightarrow> worker_step s s'"
| process: "dp_worker s = Consumed b \<Longrightarrow>
    worker_step s (s\<lparr>dp_worker := Processed b, processed := processed s @ [b]\<rparr>)"
| throws: "dp_worker s = Consumed b \<Longrightarrow> \<not> report_only b \<Longrightarrow> worker_step s (s\<lparr>dp_worker := Throwing (Some b)\<rparr>)"
| report: "dp_worker s = Processed b \<Longrightarrow> worker_step s ((report_batch s b)\<lparr>dp_worker := Reported_batch\<rparr>)"
| report_throws: "dp_worker s = Processed b \<Longrightarrow> has_rendezvous s \<Longrightarrow> last_block_num b \<noteq> 0 \<Longrightarrow>
    worker_step s ((report_batch s b)\<lparr>dp_worker := Throwing None\<rparr>)"
| drained: "dp_worker s = Reported_batch \<Longrightarrow>
    worker_step s ((notify_processing_finished_if_drained s)\<lparr>dp_worker := Waiting\<rparr>)"
| leave: "dp_worker s = Leaving \<Longrightarrow> worker_step s ((notify_processing_finished s)\<lparr>dp_worker := Finished\<rparr>)"
| fail_notify: "dp_worker s = Throwing b \<Longrightarrow>
    worker_step s ((notify_processing_finished s)\<lparr>dp_worker := Notified_failure b\<rparr>)"
| fail_stop: "dp_worker s = Notified_failure b \<Longrightarrow>
    worker_step s ((handle_exception s)\<lparr>dp_worker := Failed b\<rparr>)"

text \<open>The calls of other threads: \<open>trigger\<close> and \<open>only_report_batch_finished\<close> through \<open>enqueue\<close>, the
  store in \<open>cancel\<close>, and the critical section of \<open>join\<close>.\<close>

inductive client_step :: "'c data_processor \<Rightarrow> 'c data_processor \<Rightarrow> bool" where
  enqueue: "enqueue s b = Some s' \<Longrightarrow> client_step s s'"
| cancel: "client_step s (s\<lparr>dp_cancel := True\<rparr>)"
| join: "client_step s (s\<lparr>dp_continue := False\<rparr>)"

inductive dp_reachable :: "bool \<Rightarrow> 'c data_processor \<Rightarrow> bool" for rendezvous where
  init: "dp_reachable rendezvous (new_data_processor rendezvous)"
| worker: "dp_reachable rendezvous s \<Longrightarrow> worker_step s s' \<Longrightarrow> dp_reachable rendezvous s'"
| client: "dp_reachable rendezvous s \<Longrightarrow> client_step s s' \<Longrightarrow> dp_reachable rendezvous s'"

inductive_cases worker_stepE: "worker_step s s'"
inductive_cases client_stepE: "client_step s s'"

lemmas dp_defs = enqueue_def worker_resume_def notify_processing_finished_def
  notify_processing_finished_if_drained_def report_batch_def handle_exception_def MAX_QUEUED_CHUNKS_def

text \<open>The batch the worker holds and has not finished processing; the blocks the rendezvous must have
  heard of for a list of batches.\<close>

fun in_hand :: "'c worker \<Rightarrow> 'c queued_batch list" where
  "in_hand (Consumed b) = [b]"
| "in_hand (Throwing b) = (case b of None \<Rightarrow> [] | Some b \<Rightarrow> [b])"
| "in_hand (Notified_failure b) = (case b of None \<Rightarrow> [] | Some b \<Rightarrow> [b])"
| "in_hand (Failed b) = (case b of None \<Rightarrow> [] | Some b \<Rightarrow> [b])"
| "in_hand _ = []"

fun unreported :: "'c worker \<Rightarrow> 'c queued_batch list" where
  "unreported (Processed b) = [b]"
| "unreported _ = []"

definition reports_of :: "bool \<Rightarrow> 'c queued_batch list \<Rightarrow> u32 list" where
  "reports_of rendezvous bs = (if rendezvous then filter (\<lambda>n. n \<noteq> 0) (map last_block_num bs) else [])"

fun ended :: "'c worker \<Rightarrow> bool" where
  "ended Finished = True"
| "ended (Failed _) = True"
| "ended (Notified_failure _) = True"
| "ended _ = False"

definition dp_inv :: "bool \<Rightarrow> 'c data_processor \<Rightarrow> bool" where
  "dp_inv rendezvous s \<longleftrightarrow>
     has_rendezvous s = rendezvous \<and>
     length (dp_queue s) \<le> MAX_QUEUED_CHUNKS \<and>
     accepted s = processed s @ in_hand (dp_worker s) @ dp_queue s \<and>
     reports_of rendezvous (processed s) =
       reported s @ reports_of rendezvous (unreported (dp_worker s)) \<and>
     (\<not> is_processing_data s \<longrightarrow> ended (dp_worker s) \<or> dp_queue s = [] \<and> dp_worker s \<in> {Waiting, Leaving}) \<and>
     (dp_worker s \<in> {Leaving, Finished} \<longrightarrow> \<not> dp_continue s \<and> (dp_queue s = [] \<or> dp_cancel s)) \<and>
     (\<forall>b. dp_worker s = Failed b \<longrightarrow> dp_cancel s \<and> \<not> dp_continue s)"

lemma reports_of_append [simp]: "reports_of r (as @ bs) = reports_of r as @ reports_of r bs"
  by (simp add: reports_of_def)

lemma reports_of_Nil [simp]: "reports_of r [] = []"
  by (simp add: reports_of_def)

lemma dp_inv_init: "dp_inv r (new_data_processor r)"
  by (simp add: dp_inv_def new_data_processor_def)

lemma dp_inv_client: "dp_inv r s \<Longrightarrow> client_step s s' \<Longrightarrow> dp_inv r s'"
  by (erule client_stepE) (auto simp: dp_inv_def dp_defs split: if_splits)

lemma dp_inv_worker: "dp_inv r s \<Longrightarrow> worker_step s s' \<Longrightarrow> dp_inv r s'"
  by (erule worker_stepE)
    (auto simp: dp_inv_def dp_defs reports_of_def split: if_splits)

lemma dp_reachable_inv: "dp_reachable r s \<Longrightarrow> dp_inv r s"
  by (induction rule: dp_reachable.induct) (auto intro: dp_inv_init dp_inv_client dp_inv_worker)


subsection \<open>Progress\<close>

fun worker_rank :: "'c worker \<Rightarrow> nat" where
  "worker_rank Waiting = 2"
| "worker_rank (Consumed _) = 6"
| "worker_rank (Processed _) = 5"
| "worker_rank Reported_batch = 4"
| "worker_rank Leaving = 1"
| "worker_rank (Throwing _) = 4"
| "worker_rank (Notified_failure _) = 3"
| "worker_rank Finished = 0"
| "worker_rank (Failed _) = 0"

definition dp_measure :: "'c data_processor \<Rightarrow> nat" where
  "dp_measure s = 5 * length (dp_queue s) + worker_rank (dp_worker s)"

lemma worker_step_decreases: "worker_step s s' \<Longrightarrow> dp_measure s' < dp_measure s"
  by (erule worker_stepE)
    (auto simp: dp_measure_def dp_defs split: if_splits dest: length_pos_if_in_set simp: neq_Nil_conv)

lemma worker_steps_bounded: "(worker_step ^^ n) s s' \<Longrightarrow> n + dp_measure s' \<le> dp_measure s"
proof (induction n arbitrary: s')
  case (Suc n)
  then obtain u where "(worker_step ^^ n) s u" "worker_step u s'" by auto
  then show ?case using Suc.IH[of u] worker_step_decreases[of u s'] by simp
qed simp

lemma worker_step_enabled:
  assumes "dp_worker s \<noteq> Waiting \<or> dp_queue s \<noteq> [] \<or> \<not> dp_continue s"
  shows "(\<exists>s'. worker_step s s') \<or> dp_worker s = Finished \<or> (\<exists>b. dp_worker s = Failed b)"
proof (cases "dp_worker s")
  case Waiting
  then have "\<exists>s'. worker_resume s = Some s'" using assms by (auto simp: worker_resume_def)
  then show ?thesis using Waiting worker_step.resume by blast
qed (auto intro: worker_step.intros)

subsection \<open>A concrete run\<close>

text \<open>One batch is enqueued, consumed, processed, reported, and the processor joined.\<close>

definition sample_batch :: "nat queued_batch" where
  "sample_batch = \<lparr>batch_data = 5, last_block_num = 9, report_only = False\<rparr>"

definition sample_state ::
    "nat queued_batch list \<Rightarrow> bool \<Rightarrow> bool \<Rightarrow> nat worker \<Rightarrow> nat queued_batch list \<Rightarrow> u32 list \<Rightarrow> nat data_processor" where
  "sample_state q cont busy w done rep =
     \<lparr>dp_queue = q, dp_cancel = False, dp_continue = cont, is_processing_data = busy, has_rendezvous = True,
      dp_worker = w, accepted = [sample_batch], processed = done, reported = rep\<rparr>"

definition sample_run :: "nat data_processor list" where
  "sample_run =
    [new_data_processor True,
     sample_state [sample_batch] True True Waiting [] [],
     sample_state [] True True (Consumed sample_batch) [] [],
     sample_state [] True True (Processed sample_batch) [sample_batch] [],
     sample_state [] True True Reported_batch [sample_batch] [9],
     sample_state [] True False Waiting [sample_batch] [9],
     sample_state [] False False Waiting [sample_batch] [9],
     sample_state [] False False Leaving [sample_batch] [9],
     sample_state [] False False Finished [sample_batch] [9]]"

lemmas sample_defs = sample_run_def sample_state_def new_data_processor_def dp_defs

lemma sample_run_reachable: "dp_reachable True (sample_run ! 8)"
proof -
  have "dp_reachable True (sample_run ! 0)"
    using dp_reachable.init[of True] by (simp add: sample_run_def)
  then have "dp_reachable True (sample_run ! 1)"
    by (rule dp_reachable.client) (rule client_step.enqueue[of _ sample_batch], simp add: sample_defs)
  then have "dp_reachable True (sample_run ! 2)"
    by (rule dp_reachable.worker) (rule worker_step.resume, simp_all add: sample_defs)
  then have "dp_reachable True ((sample_run ! 2)\<lparr>dp_worker := Processed sample_batch,
      processed := processed (sample_run ! 2) @ [sample_batch]\<rparr>)"
    by (rule dp_reachable.worker) (rule worker_step.process, simp add: sample_defs)
  then have "dp_reachable True (sample_run ! 3)" by (simp add: sample_defs)
  then have "dp_reachable True ((report_batch (sample_run ! 3) sample_batch)\<lparr>dp_worker := Reported_batch\<rparr>)"
    by (rule dp_reachable.worker) (rule worker_step.report, simp add: sample_defs)
  then have "dp_reachable True (sample_run ! 4)" by (simp add: sample_defs sample_batch_def)
  then have "dp_reachable True ((notify_processing_finished_if_drained (sample_run ! 4))\<lparr>dp_worker := Waiting\<rparr>)"
    by (rule dp_reachable.worker) (rule worker_step.drained, simp add: sample_defs)
  then have "dp_reachable True (sample_run ! 5)" by (simp add: sample_defs)
  then have "dp_reachable True ((sample_run ! 5)\<lparr>dp_continue := False\<rparr>)"
    by (rule dp_reachable.client) (rule client_step.join)
  then have "dp_reachable True (sample_run ! 6)" by (simp add: sample_defs)
  then have "dp_reachable True (sample_run ! 7)"
    by (rule dp_reachable.worker) (rule worker_step.resume, simp_all add: sample_defs)
  then have "dp_reachable True ((notify_processing_finished (sample_run ! 7))\<lparr>dp_worker := Finished\<rparr>)"
    by (rule dp_reachable.worker) (rule worker_step.leave, simp add: sample_defs)
  then show ?thesis by (simp add: sample_defs)
qed


subsection \<open>Properties\<close>

text \<open>C6: In every interleaving, at most \<open>MAX_QUEUED_CHUNKS\<close> batches wait, batches are processed in the
  order they were accepted, none is lost or duplicated, and the rendezvous hears of a batch only
  after it was processed, in the same order.\<close>

theorem data_processor_fifo:
  assumes "dp_reachable rendezvous s"
  shows "length (dp_queue s) \<le> 2
    \<and> accepted s = processed s @ in_hand (dp_worker s) @ dp_queue s
    \<and> (\<exists>pending. reports_of rendezvous (processed s) = reported s @ pending)"
  using dp_reachable_inv[OF assms] by (auto simp: dp_inv_def MAX_QUEUED_CHUNKS_def)

theorem data_processor_fifo_witness:
  "length (dp_queue (sample_run ! 8)) \<le> 2
   \<and> accepted (sample_run ! 8) = processed (sample_run ! 8) @ in_hand (dp_worker (sample_run ! 8)) @ dp_queue (sample_run ! 8)
   \<and> (\<exists>pending. reports_of True (processed (sample_run ! 8)) = reported (sample_run ! 8) @ pending)"
  by (rule data_processor_fifo[OF sample_run_reachable])

text \<open>C24: Draining.  When the worker has left its loop and nobody cancelled, every accepted batch was
  processed and reported; the same holds when \<open>complete_data_processing\<close> returns while the worker is
  alive and nobody cancelled.\<close>

theorem data_processor_drained:
  assumes "dp_reachable rendezvous s" "\<not> dp_cancel s"
    and "dp_worker s = Finished \<or> complete_data_processing s \<and> \<not> ended (dp_worker s)"
  shows "processed s = accepted s \<and> reported s = reports_of rendezvous (accepted s) \<and> dp_queue s = []"
  using dp_reachable_inv[OF assms(1)] assms(2,3)
  by (auto simp: dp_inv_def complete_data_processing_def)

theorem data_processor_drained_witness:
  "processed (sample_run ! 8) = accepted (sample_run ! 8)
   \<and> reported (sample_run ! 8) = reports_of True (accepted (sample_run ! 8)) \<and> dp_queue (sample_run ! 8) = []"
  by (rule data_processor_drained[OF sample_run_reachable]) (simp_all add: sample_defs)

text \<open>C25: \<open>join\<close> returns: once it has cleared \<open>_continue\<close>, the worker takes at most
  \<open>5 * length queue + 6\<close> further steps, and it can always take one until it has ended.\<close>

theorem join_terminates:
  assumes "\<not> dp_continue s" "(worker_step ^^ n) s s'"
  shows "n \<le> 5 * length (dp_queue s) + 6 \<and> \<not> dp_continue s'
    \<and> ((\<exists>s''. worker_step s' s'') \<or> dp_worker s' = Finished \<or> (\<exists>b. dp_worker s' = Failed b))"
proof -
  have "dp_measure s \<le> 5 * length (dp_queue s) + 6"
    by (cases "dp_worker s") (simp_all add: dp_measure_def)
  then have "n \<le> 5 * length (dp_queue s) + 6"
    using worker_steps_bounded[OF assms(2)] by simp
  have "\<not> dp_continue t'" if "worker_step t t'" "\<not> dp_continue t" for t t' :: "'a data_processor"
    using that by (auto elim!: worker_stepE simp: dp_defs split: if_splits)
  then have "\<not> dp_continue s'"
    using assms by (induction n arbitrary: s') auto
  with \<open>n \<le> 5 * length (dp_queue s) + 6\<close> show ?thesis
    using worker_step_enabled[of s'] by blast
qed

theorem join_terminates_witness:
  "(0 :: nat) \<le> 5 * length (dp_queue (sample_run ! 6)) + 6 \<and> \<not> dp_continue (sample_run ! 6)
   \<and> ((\<exists>s''. worker_step (sample_run ! 6) s'') \<or> dp_worker (sample_run ! 6) = Finished
      \<or> (\<exists>b. dp_worker (sample_run ! 6) = Failed b))"
  using join_terminates[of "sample_run ! 6" 0 "sample_run ! 6"] by (simp add: sample_defs)

end
