(* ===== verification/Spec2Isabelle.thy ===== *)
theory Spec2Isabelle
  imports Jsonb_Properties Sql_Text_Properties Time_Texts Base58_Texts Plugin_Properties Sync_Properties Livesync_Dumper Reindex_Dumper Live_Processing Data_Processor
begin

text \<open>
  Verification of the block path of HAF, the Hive Application Framework: the plugin of \<open>hived\<close> in
  \<open>src/src/sql_serializer\<close> that copies applied blocks into a PostgreSQL database, with the transaction
  controllers of \<open>src/src/transaction_controllers\<close>.

  The parts and how they interact.  While a block is applied, the plugin (\<open>sql_serializer.cpp\<close>) collects
  its rows in a cache (\<open>cached_data.h\<close>).  After the block, \<open>indexation_state.cpp\<close> decides whether to flush:
  it is a state machine (START, WAIT, REINDEX\_WAIT, REINDEX, P2P, LIVE, kept in the database) that owns
  a dumper and a flush trigger.  In REINDEX and P2P the dumper is \<open>reindex_data_dumper.cpp\<close>: it copies
  rows in parallel, and the last thread of a batch reports the block through a rendezvous.  In LIVE it is
  \<open>livesync_data_dumper.cpp\<close>: each block becomes one SQL command, which is stored in a write-ahead log
  (\<open>write_ahead_log.cpp\<close>), queued and executed by a thread.  After a crash, the log is replayed.

  Theories and sources.
  \<^item> \<open>HafPrelude\<close>: errors, results, 32-bit words, generic lemmas.  \<open>Decimal\<close>: decimal printing and
    parsing of numbers with padding, as the C++ streams do it.
  \<^item> \<open>Cached_Data\<close>: rows (\<open>sql_serializer_objects.hpp\<close>), the cache, its snapshots, the moves of block
    ranges (\<open>indexation_state.cpp\<close>).  C++ inheritance of rows is record extension.
  \<^item> \<open>Rendezvous\<close>: \<open>block_num_rendezvous_trigger\<close>.
  \<^item> \<open>Writers\<close>: \<open>container_data_writer.h\<close>, \<open>chunks_for_writers_spillter.h\<close>.
  \<^item> \<open>Data_Processor\<close>: \<open>data_processor.cpp\<close>; the worker thread and its clients as a step relation.
  \<^item> \<open>Tx_Controller\<close>: \<open>own_tx_controller\<close>; what the connection does to each attempt is a list of
    outcomes, the database an arbitrary type with statements as functions on it.
  \<^item> \<open>Write_Ahead_Log\<close>, \<open>Wal_Recovery\<close>: the log down to the bytes of its files, and its refinement to a
    list of records.  \<open>Live_Processing\<close>: the thread of the live dumper, the log and the database as one
    system, with recovery by \<open>replay_wal_if_necessary\<close>.
  \<^item> \<open>Livesync_Dumper\<close>, \<open>Reindex_Dumper\<close>: the two dumpers; \<open>end_massive_sync_processor.cpp\<close>.
  \<^item> \<open>Accounts_Collector\<close>: \<open>accounts_collector.cpp\<close> with the filters (\<open>filter_collector.cpp\<close>,
    \<open>blockchain_data_filter.cpp\<close>).  \<open>Custom_Json_Types\<close>: the numbers of \<open>custom_json\<close> ids.
  \<^item> \<open>Sql_Serializer\<close>, \<open>Plugin_Properties\<close>: the plugin itself, its construction and the handlers of the
    signals of the chain, and what becomes of the rows of a block.
  \<^item> \<open>Jsonb_Operations\<close>, \<open>Jsonb_Properties\<close>: the conversions of operations to and from JSONB that the database
    calls (\<open>to_jsonb.cpp\<close>, \<open>from_jsonb.cpp\<close> in \<open>src/src/hive_fork_manager/shared_lib\<close>).  The C++ overloads are one
    function over a universe of types and values.
  \<^item> \<open>Utf8\<close>: the encoding of characters, a reference definition.  \<open>Sql_Tuples\<close>, \<open>Sql_Text_Properties\<close>: the literals
    and tuples of the tables (\<open>data_2_sql_tuple_base.cpp\<close>, \<open>tables_descriptions\<close>) and how the server reads them.
  \<^item> \<open>Pqxx_Conversions\<close>, \<open>Hex_Texts\<close>, \<open>Base58_Texts\<close>, \<open>Time_Texts\<close>: the texts written into buffers by
    \<open>pqxx_conversions.hpp\<close>, byte by byte, against the hexadecimal, base-58 and calendar forms they stand for.
  \<^item> \<open>Indexation_State\<close>, \<open>Sync_Safety\<close>, \<open>Sync_Properties\<close>: the state machine, its invariants, its
    properties.

  How the model reads.  A C++ object is a record, a method a function from the record to the new record
  and what it returns; a \<open>FC_ASSERT\<close> or exception is \<open>Inl\<close> of an error.  \<open>uint32_t\<close> is a 32-bit word, so
  wrap-around is in the model; \<open>int\<close> is \<open>int\<close>.  What the code does to the database and to the dumpers is a
  list of effects in order.  Threads are step relations; a step is what runs between two
  synchronisation points.

  What is shown.  The live path: whatever the threads have done when the process crashes, also inside a write to
  the log or the removal of its files, restart gives the tables every command on the disk once and in order, or
  refuses to start because of a torn record before it touches the database; the log is a list of records, survives being
  read back, and detects torn records; sequence numbers compare correctly across wrap-around.  The dumpers:
  a flush in LIVE gives exactly one command, whatever the order of the writers; a synchronous flush is
  atomic and respects the foreign keys; the end of the massive sync is called once per batch and in order.
  The threads: a data processor handles batches in order, drains on \<open>join\<close> and ends.  The state machine:
  outside lite mode no collected row is lost, duplicated or reordered, and applying a block ends, without
  an error unless the database fails a synchronous flush.  The plugin, outside lite mode and without a filter: an applied
  block is kept completely, a failed one leaves no rows; the operations of an account are numbered without gaps.
  \<open>custom_json\<close> ids keep their numbers while flushes succeed.  The conversions: an operation
  survives JSONB, and what is read is well typed; the server reads a string literal as its text, tuples have the columns
  of their tables, keys and times have the texts of their numerals and dates.  Some properties are about failures the code
  has: they say what is lost and when.

  Failures of the environment.  A statement or a \<open>COMMIT\<close> can fail, the connection can be lost at any statement and be
  restored, and the answer to a \<open>COMMIT\<close> can be lost (\<open>Attempt_in_doubt\<close>); a cancelled query is not thrown again by
  \<open>join\<close> (\<open>thrown_by_join\<close>).  The synchronous flush of the massive dumper can fail in the handlers of the state
  machine and of the plugin (\<open>sync_answer\<close>), and so can the flush of \<open>custom_json\<close> ids.  A crash is a point between two
  steps, inside a store or inside a completion of the log; the disk keeps the bytes the process has handed to it.

  Interfaces are locales.  \<open>stage_barrier\<close> is what a rendezvous promises, \<open>sequence_order\<close> the order of
  sequence numbers, \<open>redo_log\<close> what the live thread needs of the log, \<open>dumper_contract\<close> and \<open>block_dumper\<close>
  what the state machine needs of a dumper, \<open>call_law\<close> a law that holds for every call of the accounts
  collector if it holds for its two elementary ones.  Each is interpreted on the model's own definitions, in the
  theory of its provider.

  Bounds and fuel.  Nothing is bounded by fuel: loops that need not end are
  \<open>partial_function (option)\<close> and the properties that say they return prove \<open>Some\<close>.  The retry loop of the
  transaction controller is bounded by the code (100 attempts).

  Not modelled.  Logging, statistics and profiling; the chain database, signals and boost containers;
  the canonical JSON of \<open>l2_jcs.cpp\<close> and the other functions of the shared library; the query supervisor;
  the SQL functions of \<open>hive_fork_manager\<close>, which appear as the effect of a statement; the clock, an
  argument of \<open>store_transaction\<close>; the join of the dumpers' threads at destruction, and the flag
  \<open>mark_irreversible_data_as_dirty\<close> of the reindex dumper; the index controller beyond its calls; in
  the live dumper, the conversion of rows to SQL text is a parameter.\<close>

end
